(* ===== verification/Prelude.thy ===== *)
theory Prelude
  imports Main "HOL-Library.Word" "HOL-Library.Multiset"
begin

text \<open>
  Shared vocabulary of the development: the widths of the program's integers, the ways a
  C++ call can end without a value, the sequencing of calls that can fail, and the parts of
  the C++ standard library the sources use (\<open>std::string::find\<close>, \<open>substr\<close>,
  \<open>std::to_string\<close>, byte and character conversion), with the generic lemmas the
  components share.
\<close>

section \<open>Integer types\<close>

type_synonym u8 = "8 word"
type_synonym u16 = "16 word"
type_synonym u32 = "32 word"
type_synonym u64 = "64 word"

text \<open>\<open>BlockId\<close> of \<open>block_data.hpp\<close>, and the POSIX types the code passes around.\<close>

type_synonym block_id = u64
type_synonym mode_t = u32
type_synonym time_t = u64
type_synonym dev_t = u64
type_synonym ino_t = u64

section \<open>Failure\<close>

text \<open>
  How a call of the program ends when it does not return: a \<open>throw\<close> of the source, an
  exception of the standard library, a failed \<open>assert\<close> (the build defines no
  \<open>NDEBUG\<close>), a dereference of a null \<open>shared_ptr\<close>, any other behaviour the C++
  standard leaves undefined, the fuel of a model running out before the code's loop or
  recursion is done, or a wait for an event that does not come.
\<close>

datatype error =
    Thrown string
  | Std_Exception string
  | Assert_Failed
  | Null_Deref
  | Undefined_Behaviour string
  | Out_Of_Fuel
  | Waits_Forever

type_synonym 'a result = "error + 'a"

named_theorems result_simps "sequencing of calls that can fail"

fun bind_result :: "'a result \<Rightarrow> ('a \<Rightarrow> 'b result) \<Rightarrow> 'b result" where
  "bind_result (Inl e) f = Inl e"
| "bind_result (Inr x) f = f x"

definition assert_that :: "bool \<Rightarrow> unit result" where
  "assert_that b = (if b then Inr () else Inl Assert_Failed)"

definition deref :: "'a option \<Rightarrow> 'a result" where
  "deref p = (case p of None \<Rightarrow> Inl Null_Deref | Some x \<Rightarrow> Inr x)"

lemma assert_that_simps [simp]:
  "assert_that True = Inr ()"
  "assert_that False = Inl Assert_Failed"
  by (simp_all add: assert_that_def)

lemma deref_simps [simp]:
  "deref None = Inl Null_Deref"
  "deref (Some x) = Inr x"
  by (simp_all add: deref_def)

lemma bind_result_eq_Inr [result_simps]:
  "bind_result m f = Inr y \<longleftrightarrow> (\<exists>x. m = Inr x \<and> f x = Inr y)"
  by (cases m) auto

lemma bind_result_eq_Inl [result_simps]:
  "bind_result m f = Inl e \<longleftrightarrow> m = Inl e \<or> (\<exists>x. m = Inr x \<and> f x = Inl e)"
  by (cases m) auto

lemma bind_result_assoc [result_simps]:
  "bind_result (bind_result m f) g = bind_result m (\<lambda>x. bind_result (f x) g)"
  by (cases m) simp_all

lemma assert_that_eq_Inr [result_simps]: "assert_that b = Inr u \<longleftrightarrow> b"
  by (simp add: assert_that_def)

lemma deref_eq_Inr [result_simps]: "deref p = Inr x \<longleftrightarrow> p = Some x"
  by (cases p) simp_all

section \<open>Strings and bytes\<close>

text \<open>
  \<open>s.find(c, from)\<close> for a one-character pattern: the least index at or after
  \<open>from\<close> that holds \<open>c\<close>; \<open>None\<close> is \<open>std::string::npos\<close>.
\<close>

fun find_index :: "('a \<Rightarrow> bool) \<Rightarrow> 'a list \<Rightarrow> nat option" where
  "find_index p [] = None"
| "find_index p (x # xs) = (if p x then Some 0 else map_option Suc (find_index p xs))"

definition find_char_from :: "char \<Rightarrow> string \<Rightarrow> nat \<Rightarrow> nat option" where
  "find_char_from c s from = map_option (\<lambda>i. from + i) (find_index (\<lambda>x. x = c) (drop from s))"

text \<open>
  \<open>s.substr(pos, len)\<close> throws when \<open>pos\<close> is past the end, and otherwise returns at
  most \<open>len\<close> characters.
\<close>

definition substr :: "string \<Rightarrow> nat \<Rightarrow> nat \<Rightarrow> string result" where
  "substr s pos len =
     (if length s < pos then Inl (Std_Exception ''out_of_range'')
      else Inr (take len (drop pos s)))"

definition substr_from :: "string \<Rightarrow> nat \<Rightarrow> string result" where
  "substr_from s pos =
     (if length s < pos then Inl (Std_Exception ''out_of_range'') else Inr (drop pos s))"

text \<open>\<open>std::to_string\<close> of an unsigned integer: its decimal digits.\<close>

definition digit_char :: "nat \<Rightarrow> char" where
  "digit_char d = char_of (48 + d)"

fun decimal :: "nat \<Rightarrow> string" where
  "decimal n = (if n < 10 then [digit_char n] else decimal (n div 10) @ [digit_char (n mod 10)])"

declare decimal.simps [simp del]

definition to_string_u64 :: "u64 \<Rightarrow> string" where
  "to_string_u64 w = decimal (unat w)"

text \<open>\<open>static_cast<uint8_t>\<close> of a \<open>char\<close> and back.\<close>

definition byte_of_char :: "char \<Rightarrow> u8" where
  "byte_of_char c = word_of_nat (of_char c)"

definition char_of_byte :: "u8 \<Rightarrow> char" where
  "char_of_byte b = char_of (unat b)"

lemma unat_ucast_u8: "unat (ucast (b :: u8) :: u64) = unat b"
proof -
  have "unat b < 2 ^ LENGTH(8)" by (rule unsigned_less)
  then have "unat b < 2 ^ 64" by simp
  then show ?thesis by (simp add: unsigned_ucast_eq take_bit_nat_eq_self)
qed

lemma char_of_byte_of_char [simp]: "char_of_byte (byte_of_char c) = c"
proof -
  have "(of_char c :: nat) < 256" by simp
  then have "unat (word_of_nat (of_char c) :: u8) = of_char c"
    by (simp add: unat_of_nat)
  then show ?thesis by (simp add: byte_of_char_def char_of_byte_def)
qed

lemma byte_of_char_of_byte [simp]: "byte_of_char (char_of_byte b) = b"
proof -
  have "unat b < 256" using unsigned_less [of b] by simp
  then have "(of_char (char_of (unat b)) :: nat) = unat b" by simp
  then show ?thesis by (simp add: byte_of_char_def char_of_byte_def)
qed

lemma map_char_of_byte_of_char [simp]: "map char_of_byte (map byte_of_char s) = s"
  by (induction s) simp_all

section \<open>Lists and maps\<close>

lemma find_index_None: "find_index p xs = None \<longleftrightarrow> (\<forall>x \<in> set xs. \<not> p x)"
  by (induction xs) auto

lemma find_index_Some:
  "find_index p xs = Some i \<Longrightarrow> i < length xs \<and> p (xs ! i) \<and> (\<forall>x \<in> set (take i xs). \<not> p x)"
proof (induction xs arbitrary: i)
  case Nil
  then show ?case by simp
next
  case (Cons x xs)
  then show ?case by (cases i) (auto split: if_splits)
qed

lemma find_index_append:
  "\<forall>x \<in> set xs. \<not> p x \<Longrightarrow> p y \<Longrightarrow> find_index p (xs @ y # ys) = Some (length xs)"
  by (induction xs) auto

lemma find_char_from_Some:
  assumes "find_char_from c s from = Some i"
  shows "from \<le> i" and "i < length s" and "s ! i = c"
proof -
  from assms obtain k where k: "find_index (\<lambda>x. x = c) (drop from s) = Some k" "i = from + k"
    by (auto simp: find_char_from_def)
  from find_index_Some [OF k(1)] k(2) show "from \<le> i" and "i < length s" and "s ! i = c"
    by auto
qed

text \<open>The list without its first element that satisfies \<open>p\<close>.\<close>

fun remove_first :: "('a \<Rightarrow> bool) \<Rightarrow> 'a list \<Rightarrow> 'a list" where
  "remove_first p [] = []"
| "remove_first p (x # xs) = (if p x then xs else x # remove_first p xs)"

lemma map_remove_first: "map f (remove_first (\<lambda>x. p (f x)) xs) = remove_first p (map f xs)"
  by (induction xs) auto

lemma find_map: "find p (map f xs) = map_option f (find (\<lambda>x. p (f x)) xs)"
  by (induction xs) auto

lemma find_Some_in: "find p xs = Some x \<Longrightarrow> x \<in> set xs \<and> p x"
  by (induction xs) (auto split: if_splits)

lemma set_remove_first: "set (remove_first p xs) \<subseteq> set xs"
  by (induction xs) auto

lemma remove1_map_find:
  "find p xs = Some x \<Longrightarrow> distinct (map f xs) \<Longrightarrow>
     remove1 (f x) (map f xs) = map f (remove_first p xs)"
proof (induction xs)
  case Nil
  then show ?case by simp
next
  case (Cons y ys)
  show ?case
  proof (cases "p y")
    case True
    with Cons.prems show ?thesis by simp
  next
    case False
    with Cons.prems(1) have f: "find p ys = Some x" by simp
    then have "f x \<in> set (map f ys)" by (auto dest: find_Some_in)
    with Cons.prems(2) have "f x \<noteq> f y" by auto
    with False f Cons show ?thesis by simp
  qed
qed

lemma concat_remove_first:
  "find p xs = Some x \<Longrightarrow>
     mset (concat (map g xs)) = mset (g x) + mset (concat (map g (remove_first p xs)))"
  by (induction xs) (auto split: if_splits simp: add.commute add.left_commute)

lemma distinct_mset_eq: "mset xs = mset ys \<Longrightarrow> distinct xs \<longleftrightarrow> distinct ys"
  by (rule mset_eq_imp_distinct_iff)

end
