(* ===== verification/CommandLine.thy ===== *)
theory CommandLine
  imports Prelude
begin

text \<open>
  The command lines of the programs (\<open>parse_command_line\<close> of each file under \<open>app\<close>) and the
  arguments they pass on to FUSE (\<open>args_helper.hpp\<close>). \<open>boost::program_options\<close> is a parameter:
  what it stores for a command line, what it notifies, and the text it prints.
\<close>

section \<open>Options\<close>

datatype option_value =
    String_Value string
  | Bool_Value bool
  | U8_Value u8
  | U16_Value u16
  | I64_Value "64 word"

datatype value_type = String_Type | Bool_Type | U8_Type | U16_Type | I64_Type

primrec type_of :: "option_value \<Rightarrow> value_type" where
  "type_of (String_Value s) = String_Type"
| "type_of (Bool_Value b) = Bool_Type"
| "type_of (U8_Value c) = U8_Type"
| "type_of (U16_Value w) = U16_Type"
| "type_of (I64_Value w) = I64_Type"

text \<open>
  \<open>No_Value\<close> is an option without a value, \<open>Required\<close> one with \<open>required()\<close>, \<open>Default\<close> one
  with \<open>default_value\<close>. The variable that an option is stored in has its name in \<open>target\<close>.
\<close>

datatype semantic = No_Value | Required value_type | Default option_value

record option_description =
  long_name :: string
  semantic :: semantic
  target :: string
  help_text :: string

text \<open>Variables of \<open>main\<close>: no value as long as they are not initialised.\<close>

type_synonym variables = "string \<Rightarrow> option_value option"

text \<open>
  \<open>store\<close> is \<open>store(parse_command_line(argc, argv, desc), vm)\<close>, \<open>notify\<close> assigns the
  variables and may throw after some of them; \<open>Inl\<close> and \<open>Some\<close> hold the \<open>what()\<close> of an
  exception. \<open>describe\<close> is the text of the options.
\<close>

record program_options =
  store_options :: "option_description list \<Rightarrow> string list \<Rightarrow> string + (string \<Rightarrow> option_value option)"
  notify_options :: "option_description list \<Rightarrow> (string \<Rightarrow> option_value option) \<Rightarrow> variables \<Rightarrow> variables \<times> string option"
  describe :: "option_description list \<Rightarrow> string"

datatype printed = Cout string | Cerr string

definition parse_with ::
  "program_options \<Rightarrow> option_description list \<Rightarrow> string list \<Rightarrow> variables \<Rightarrow> bool \<times> variables \<times> printed list" where
  "parse_with po desc argv vars =
     (let failed = \<lambda>what. [Cerr (CHR 0x0A # ''Error: '' @ what @ [CHR 0x0A]),
                           Cerr (CHR 0x0A # describe po desc @ [CHR 0x0A])]
      in case store_options po desc argv of
           Inl what \<Rightarrow> (False, vars, failed what)
         | Inr vm \<Rightarrow>
             if vm ''help'' \<noteq> None then (False, vars, [Cout (describe po desc @ [CHR 0x0A])])
             else case notify_options po desc vm vars of
                    (vars', Some what) \<Rightarrow> (False, vars', failed what)
                  | (vars', None) \<Rightarrow> (True, vars', []))"

definition help_option :: option_description where
  "help_option = \<lparr>long_name = ''help'', semantic = No_Value, target = [], help_text = ''Print help messages''\<rparr>"

abbreviation required :: "string \<Rightarrow> value_type \<Rightarrow> string \<Rightarrow> string \<Rightarrow> option_description" where
  "required name t var help \<equiv> \<lparr>long_name = name, semantic = Required t, target = var, help_text = help\<rparr>"

abbreviation with_default :: "string \<Rightarrow> option_value \<Rightarrow> string \<Rightarrow> string \<Rightarrow> option_description" where
  "with_default name d var help \<equiv> \<lparr>long_name = name, semantic = Default d, target = var, help_text = help\<rparr>"

section \<open>The command line of each program\<close>

definition single_ping_command_line ::
  "program_options \<Rightarrow> string list \<Rightarrow> variables \<Rightarrow> bool \<times> variables \<times> printed list" where
  "single_ping_command_line po = parse_with po
     [help_option,
      required ''hostname'' String_Type ''hostname'' ''Name of host to ping'',
      required ''content'' String_Type ''ping_content'' ''Content to put in ping body'']"

definition multi_ping_command_line ::
  "program_options \<Rightarrow> string list \<Rightarrow> variables \<Rightarrow> bool \<times> variables \<times> printed list" where
  "multi_ping_command_line po = parse_with po
     [help_option,
      required ''hostname'' String_Type ''hostname'' ''Name of host to ping'',
      required ''log-dir'' String_Type ''log_dir'' ''Directory to log to'',
      required ''num-pings'' U16_Type ''num_pings'' ''Num pings'']"

definition spoofed_ping_command_line ::
  "program_options \<Rightarrow> string list \<Rightarrow> variables \<Rightarrow> bool \<times> variables \<times> printed list" where
  "spoofed_ping_command_line po = parse_with po
     [help_option,
      required ''target_hostname'' String_Type ''target_hostname'' ''Name of host to ping'',
      required ''spoofed_hostname'' String_Type ''spoofed_hostname'' ''Name of host to spoof source as'',
      required ''content'' String_Type ''ping_content'' ''Content to put in ping body'']"

definition single_host_command_line ::
  "program_options \<Rightarrow> string list \<Rightarrow> variables \<Rightarrow> bool \<times> variables \<times> printed list" where
  "single_host_command_line po = parse_with po
     [help_option,
      required ''hostname'' String_Type ''hostname'' ''Name of host to ping'',
      with_default ''debug'' (Bool_Value False) ''debug'' ''Whether to print debug values'',
      required ''mount_point'' String_Type ''mount_point'' ''Path to directory to mount pingfs on'',
      with_default ''log_file'' (String_Value ''stdout'') ''log_file''
        ''Name of file to log to; default logs to stdout.'',
      with_default ''revertible'' (Bool_Value False) ''revertible''
        ''Whether to create a revertible filesystem.'']"

definition distributed_command_line ::
  "program_options \<Rightarrow> string list \<Rightarrow> variables \<Rightarrow> bool \<times> variables \<times> printed list" where
  "distributed_command_line po = parse_with po
     [help_option,
      required ''bounce_ip'' String_Type ''bounce_ip'' ''IP addr of machine to bounce pings off of'',
      required ''other_node_ip'' String_Type ''other_node_ip'' ''IP address of other host in distributed fs'',
      required ''mount_point'' String_Type ''mount_point'' ''Path to directory to mount pingfs on'',
      required ''node_id'' U8_Type ''node_id'' ''A unique numeric id among all fs nodes [0, 255]'']"

definition duplicate_command_line ::
  "program_options \<Rightarrow> string list \<Rightarrow> variables \<Rightarrow> bool \<times> variables \<times> printed list" where
  "duplicate_command_line po = parse_with po
     [help_option,
      required ''hostname'' String_Type ''hostname'' ''Name of host to ping'',
      required ''mount_point'' String_Type ''mount_point'' ''Path to directory to mount pingfs on'',
      required ''delay_ms'' I64_Type ''delay_ms'' ''Number of ms to delay for next ms'']"

section \<open>Reading a variable\<close>

text \<open>A variable without a value is not initialised, and reading it is undefined.\<close>

definition uninitialised :: error where "uninitialised = Undefined_Behaviour ''read of an uninitialised variable''"

definition typed_read :: "(option_value \<Rightarrow> 'a option) \<Rightarrow> string \<Rightarrow> variables \<Rightarrow> 'a result" where
  "typed_read sel x vars = (case vars x of None \<Rightarrow> Inl uninitialised | Some v \<Rightarrow>
     (case sel v of None \<Rightarrow> Inl (Undefined_Behaviour ''value of another type'') | Some a \<Rightarrow> Inr a))"

fun as_string :: "option_value \<Rightarrow> string option" where
  "as_string (String_Value s) = Some s"
| "as_string _ = None"

fun as_bool :: "option_value \<Rightarrow> bool option" where
  "as_bool (Bool_Value b) = Some b"
| "as_bool _ = None"

fun as_u8 :: "option_value \<Rightarrow> u8 option" where
  "as_u8 (U8_Value c) = Some c"
| "as_u8 _ = None"

fun as_u16 :: "option_value \<Rightarrow> u16 option" where
  "as_u16 (U16_Value w) = Some w"
| "as_u16 _ = None"

fun as_i64 :: "option_value \<Rightarrow> 64 word option" where
  "as_i64 (I64_Value w) = Some w"
| "as_i64 _ = None"

abbreviation "read_string \<equiv> typed_read as_string"
abbreviation "read_bool \<equiv> typed_read as_bool"
abbreviation "read_u8 \<equiv> typed_read as_u8"
abbreviation "read_u16 \<equiv> typed_read as_u16"
abbreviation "read_i64 \<equiv> typed_read as_i64"

section \<open>Arguments for FUSE\<close>

text \<open>
  A block of heap memory is what was written to its first cells. \<open>strncpy\<close> writes \<open>n\<close> cells,
  the characters of the source up to its null and nulls from there on; \<open>room\<close> is how many cells
  the block has.
\<close>

abbreviation NUL :: char where "NUL \<equiv> CHR 0x00"

definition c_string :: "string \<Rightarrow> string" where "c_string = takeWhile (\<lambda>c. c \<noteq> NUL)"

definition strncpy :: "nat \<Rightarrow> string \<Rightarrow> nat \<Rightarrow> string result" where
  "strncpy room src n =
     (if room < n then Inl (Undefined_Behaviour ''write behind a block of the heap'')
      else let s = take n (c_string src) in Inr (s @ replicate (n - length s) NUL))"

text \<open>
  \<open>new char[n]\<close> gives \<open>n\<close> cells; \<open>spare n\<close> is how many more the allocator happens to leave
  behind such a block, of which the language promises none.
\<close>

definition copy_char :: "(nat \<Rightarrow> nat) \<Rightarrow> string \<Rightarrow> nat \<Rightarrow> string result" where
  "copy_char spare src src_len = strncpy (src_len + spare src_len) src (src_len + 1)"

definition fuse_params ::
  "(nat \<Rightarrow> nat) \<Rightarrow> string \<Rightarrow> bool \<Rightarrow> string option list \<Rightarrow> string option list result" where
  "fuse_params spare mount_point debug fuse_args =
     bind_result (copy_char spare ''dummy'' 5) (\<lambda>bin_name.
     let args1 = fuse_args @ [Some bin_name]
     in bind_result (if debug then bind_result (copy_char spare ''-d'' 2) (\<lambda>debug_opt. Inr (args1 @ [Some debug_opt]))
                     else Inr args1) (\<lambda>args2.
        bind_result (copy_char spare ''-f'' 2) (\<lambda>helper.
        bind_result (copy_char spare mount_point (length mount_point)) (\<lambda>mount_point_ptr.
        Inr (args2 @ [Some helper] @ [Some mount_point_ptr] @ [None])))))"

text \<open>What \<open>fuse_main\<close> is given: all entries but the null pointer, as strings.\<close>

definition fuse_argv :: "string option list \<Rightarrow> string option list" where
  "fuse_argv fuse_args = map (map_option c_string) (take (length fuse_args - 1) fuse_args)"

lemma c_string_idem [simp]: "c_string (c_string s @ NUL # r) = c_string s" "c_string (c_string s) = c_string s"
  by (simp_all add: c_string_def takeWhile_idem) (induction s; simp)

lemma length_c_string: "length (c_string s) \<le> length s"
  by (simp add: c_string_def length_takeWhile_le)

text \<open>\<open>copy_char\<close> writes one cell more than it allocates.\<close>

lemma copy_char_cases:
  assumes "length s = n"
  shows "copy_char spare s n =
     (if spare n = 0 then Inl (Undefined_Behaviour ''write behind a block of the heap'')
      else Inr (c_string s @ replicate (Suc n - length (c_string s)) NUL))"
  using length_c_string [of s] assms by (auto simp: copy_char_def strncpy_def Let_def)

lemma padded: "length (c_string s) \<le> n \<Longrightarrow> c_string (c_string s @ replicate (Suc n - length (c_string s)) NUL) = c_string s"
  by (simp add: Suc_diff_le)

lemma fuse_params_cases:
  "fuse_params spare mount_point debug [] =
     (if 0 < spare 5 \<and> 0 < spare 2 \<and> 0 < spare (length mount_point)
      then Inr ([Some (''dummy'' @ [NUL])] @ (if debug then [Some (''-d'' @ [NUL])] else []) @
             [Some (''-f'' @ [NUL]),
              Some (c_string mount_point @ replicate (Suc (length mount_point) - length (c_string mount_point)) NUL),
              None])
      else Inl (Undefined_Behaviour ''write behind a block of the heap''))"
  by (simp add: fuse_params_def copy_char_cases Let_def c_string_def)

lemma fuse_argv_params:
  assumes "fuse_params spare mount_point debug [] = Inr args"
  shows "fuse_argv args =
     map Some ([''dummy''] @ (if debug then [''-d''] else []) @ [''-f'', c_string mount_point])"
  using assms length_c_string [of mount_point]
  by (auto simp: fuse_params_cases fuse_argv_def padded split: if_splits) (simp_all add: c_string_def)

section \<open>What is set when the command line was accepted\<close>

fun declared_type :: "semantic \<Rightarrow> value_type option" where
  "declared_type No_Value = None"
| "declared_type (Required t) = Some t"
| "declared_type (Default d) = Some (type_of d)"

text \<open>
  What the documentation of \<open>program_options\<close> says: \<open>store\<close> keeps values of the declared types
  only, the defaults of options that are not given among them; \<open>notify\<close> throws when a required
  option is missing and otherwise assigns every stored value to its variable.
\<close>

definition documented :: "program_options \<Rightarrow> bool" where
  "documented po \<longleftrightarrow>
     (\<forall>desc argv vm. distinct (map long_name desc) \<and> store_options po desc argv = Inr vm \<longrightarrow>
        (\<forall>opt \<in> set desc. (\<forall>t v. declared_type (semantic opt) = Some t \<and> vm (long_name opt) = Some v \<longrightarrow> type_of v = t) \<and>
           (\<forall>d. semantic opt = Default d \<longrightarrow> vm (long_name opt) \<noteq> None))) \<and>
     (\<forall>desc vm vars vars'. distinct (map target desc) \<and> notify_options po desc vm vars = (vars', None) \<longrightarrow>
        (\<forall>opt \<in> set desc. (\<forall>t. semantic opt = Required t \<longrightarrow> vm (long_name opt) \<noteq> None) \<and>
           (\<forall>t v. declared_type (semantic opt) = Some t \<and> vm (long_name opt) = Some v \<longrightarrow> vars' (target opt) = Some v)))"

definition declared :: "option_description list \<Rightarrow> variables \<Rightarrow> bool" where
  "declared desc vars \<longleftrightarrow> (\<forall>opt \<in> set desc. \<forall>t. declared_type (semantic opt) = Some t \<longrightarrow>
     (\<exists>v. vars (target opt) = Some v \<and> type_of v = t))"

lemma documented_store:
  assumes "documented po" "distinct (map long_name desc)" "store_options po desc argv = Inr vm" "opt \<in> set desc"
  shows "declared_type (semantic opt) = Some t \<Longrightarrow> vm (long_name opt) = Some v \<Longrightarrow> type_of v = t"
    "semantic opt = Default d \<Longrightarrow> \<exists>v. vm (long_name opt) = Some v"
  using conjunct1 [OF assms(1) [unfolded documented_def], rule_format, OF conjI, OF assms(2-4)] by auto

lemma documented_notify:
  assumes "documented po" "distinct (map target desc)" "notify_options po desc vm vars = (vars', None)" "opt \<in> set desc"
  shows "semantic opt = Required t \<Longrightarrow> \<exists>v. vm (long_name opt) = Some v"
    "declared_type (semantic opt) = Some t \<Longrightarrow> vm (long_name opt) = Some v \<Longrightarrow> vars' (target opt) = Some v"
  using conjunct2 [OF assms(1) [unfolded documented_def], rule_format, OF conjI, OF assms(2-4)] by auto

lemma parse_with_accepts:
  assumes "parse_with po desc argv vars = (True, vars', out)"
  obtains vm where "store_options po desc argv = Inr vm" "notify_options po desc vm vars = (vars', None)"
  using assms
  by (cases "store_options po desc argv")
    (auto simp: parse_with_def Let_def split: if_splits prod.splits option.splits)

lemma parse_declares:
  assumes po: "documented po" and desc: "distinct (map long_name desc)" "distinct (map target desc)"
    and parsed: "parse_with po desc argv vars = (True, vars', out)"
  shows "declared desc vars'"
  unfolding declared_def
proof (intro ballI allI impI)
  fix opt t assume opt: "opt \<in> set desc" and t: "declared_type (semantic opt) = Some t"
  from parsed obtain vm where vm: "store_options po desc argv = Inr vm" "notify_options po desc vm vars = (vars', None)"
    by (rule parse_with_accepts)
  note s = documented_store [OF po desc(1) vm(1) opt] and n = documented_notify [OF po desc(2) vm(2) opt]
  have "\<exists>v. vm (long_name opt) = Some v" using s(2) n(1) t by (cases "semantic opt") simp_all
  then obtain v where v: "vm (long_name opt) = Some v" ..
  show "\<exists>v. vars' (target opt) = Some v \<and> type_of v = t" using n(2) [OF t v] s(1) [OF t v] by simp
qed

lemma typed_reads [simp]:
  "type_of v = String_Type \<Longrightarrow> vars x = Some v \<Longrightarrow> \<exists>s. read_string x vars = Inr s"
  "type_of v = Bool_Type \<Longrightarrow> vars x = Some v \<Longrightarrow> \<exists>b. read_bool x vars = Inr b"
  "type_of v = U8_Type \<Longrightarrow> vars x = Some v \<Longrightarrow> \<exists>c. read_u8 x vars = Inr c"
  "type_of v = U16_Type \<Longrightarrow> vars x = Some v \<Longrightarrow> \<exists>w. read_u16 x vars = Inr w"
  "type_of v = I64_Type \<Longrightarrow> vars x = Some v \<Longrightarrow> \<exists>w. read_i64 x vars = Inr w"
  by (cases v; simp add: typed_read_def)+

section \<open>An example of the library\<close>

text \<open>Options as pairs of a name and a text; numbers in decimal, a \<open>uint8_t\<close> as one character.\<close>

fun pairs_of :: "string list \<Rightarrow> (string \<times> string) list" where
  "pairs_of (name # val # rest) = (name, val) # pairs_of rest"
| "pairs_of [name] = [(name, [])]"
| "pairs_of [] = []"

definition number_of :: "string \<Rightarrow> nat" where
  "number_of = foldl (\<lambda>n c. 10 * n + (of_char c - 48)) 0"

fun lexical_cast :: "value_type \<Rightarrow> string \<Rightarrow> option_value option" where
  "lexical_cast String_Type s = Some (String_Value s)"
| "lexical_cast Bool_Type s = Some (Bool_Value (s = ''1''))"
| "lexical_cast U8_Type s = (case s of [c] \<Rightarrow> Some (U8_Value (of_char c)) | _ \<Rightarrow> None)"
| "lexical_cast U16_Type s = Some (U16_Value (of_nat (number_of s)))"
| "lexical_cast I64_Type s = Some (I64_Value (of_nat (number_of s)))"

definition example_value :: "(string \<times> string) list \<Rightarrow> option_description \<Rightarrow> option_value option" where
  "example_value given opt =
     (case semantic opt of
        No_Value \<Rightarrow> map_option String_Value (map_of given (long_name opt))
      | Required t \<Rightarrow> Option.bind (map_of given (long_name opt)) (lexical_cast t)
      | Default d \<Rightarrow> (case map_of given (long_name opt) of None \<Rightarrow> Some d
          | Some s \<Rightarrow> Some (case lexical_cast (type_of d) s of None \<Rightarrow> d | Some v \<Rightarrow> v)))"

definition example_options :: program_options where
  "example_options =
     \<lparr>store_options = \<lambda>desc argv. Inr (\<lambda>n. Option.bind (find (\<lambda>opt. long_name opt = n) desc)
        (example_value (pairs_of (tl argv)))),
      notify_options = \<lambda>desc vm vars.
        if \<exists>opt \<in> set desc. declared_type (semantic opt) \<noteq> None \<and> vm (long_name opt) = None
        then (vars, Some ''the option is required but missing'')
        else (\<lambda>x. case find (\<lambda>opt. target opt = x) desc of None \<Rightarrow> vars x
                  | Some opt \<Rightarrow> if semantic opt = No_Value then vars x else vm (long_name opt), None),
      describe = \<lambda>desc. concat (map (\<lambda>opt. ''--'' @ long_name opt @ '' '' @ help_text opt @ [CHR 0x0A]) desc)\<rparr>"

lemma find_distinct: "distinct (map f xs) \<Longrightarrow> x \<in> set xs \<Longrightarrow> find (\<lambda>y. f y = f x) xs = Some x"
  by (induction xs) auto

lemma lexical_cast_type: "lexical_cast t s = Some v \<Longrightarrow> type_of v = t"
  by (cases t) (auto split: list.splits)

lemma example_options_documented: "documented example_options"
  unfolding documented_def
proof (intro conjI allI impI ballI)
  fix desc :: "option_description list" and argv vm opt t v
  assume "distinct (map long_name desc) \<and> store_options example_options desc argv = Inr vm" and opt: "opt \<in> set desc"
    and *: "declared_type (semantic opt) = Some t \<and> vm (long_name opt) = Some v"
  then have vm: "vm (long_name opt) = example_value (pairs_of (tl argv)) opt"
    by (auto simp: example_options_def find_distinct)
  show "type_of v = t"
    using * unfolding vm
    by (cases "semantic opt")
      (auto simp: example_value_def Option.bind_eq_Some_conv dest!: lexical_cast_type split: option.splits)
next
  fix desc :: "option_description list" and argv vm opt d
  assume "distinct (map long_name desc) \<and> store_options example_options desc argv = Inr vm" and "opt \<in> set desc"
    and d: "semantic opt = Default d"
  then have "vm (long_name opt) = example_value (pairs_of (tl argv)) opt"
    by (auto simp: example_options_def find_distinct)
  then show "vm (long_name opt) \<noteq> None" using d by (simp add: example_value_def split: option.splits)
next
  fix desc :: "option_description list" and vm vars vars' opt t
  assume "distinct (map target desc) \<and> notify_options example_options desc vm vars = (vars', None)"
    and "opt \<in> set desc" "semantic opt = Required t"
  then show "vm (long_name opt) \<noteq> None" by (fastforce simp: example_options_def split: if_splits)
next
  fix desc :: "option_description list" and vm vars vars' opt t v
  assume "distinct (map target desc) \<and> notify_options example_options desc vm vars = (vars', None)"
    and "opt \<in> set desc" "declared_type (semantic opt) = Some t \<and> vm (long_name opt) = Some v"
  then show "vars' (target opt) = Some v"
    by (auto simp: example_options_def find_distinct split: if_splits)
qed

end
