(* ===== verification/Mode.thy ===== *)
theory Mode
  imports Prelude
begin

unbundle bit_operations_syntax

text \<open>
  The inode's mode: \<open>FileType\<close> and \<open>FileTypeFactory\<close> (\<open>file_type.hpp\<close>),
  \<open>ReadWriteExecute\<close> and its factory (\<open>read_write_execute.hpp\<close>), and \<open>Mode\<close>
  (\<open>mode.hpp\<close>, \<open>mode.cc\<close>), with their protocol-buffer enums and messages
  (\<open>block_data.proto\<close>). A \<open>Mode\<close> is kept as three permission triples and a file type;
  the theory shows that the conversions to and from \<open>mode_t\<close> and the protocol buffer are
  inverse to each other, and which bits of a \<open>mode_t\<close> a \<open>Mode\<close> keeps.
\<close>

section \<open>File types\<close>

datatype file_type = DIR | REGULAR

datatype file_type_proto = FILE_TYPE_PROTO_UNKNOWN | PROTO_DIR | PROTO_REGULAR

definition S_IFDIR :: mode_t where "S_IFDIR = 0x4000"
definition S_IFREG :: mode_t where "S_IFREG = 0x8000"

fun file_type_from_proto :: "file_type_proto \<Rightarrow> file_type result" where
  "file_type_from_proto PROTO_DIR = Inr DIR"
| "file_type_from_proto PROTO_REGULAR = Inr REGULAR"
| "file_type_from_proto _ = Inl (Thrown ''Unknown proto'')"

fun file_type_to_mode :: "file_type \<Rightarrow> mode_t" where
  "file_type_to_mode DIR = S_IFDIR"
| "file_type_to_mode REGULAR = S_IFREG"

definition file_type_from_mode_t :: "mode_t \<Rightarrow> file_type result" where
  "file_type_from_mode_t m =
     (if 0 < (m AND S_IFDIR) then Inr DIR
      else if 0 < (m AND S_IFREG) then Inr REGULAR
      else Inl (Thrown ''Unknown mode''))"

fun file_type_gen_proto :: "file_type \<Rightarrow> file_type_proto" where
  "file_type_gen_proto DIR = PROTO_DIR"
| "file_type_gen_proto REGULAR = PROTO_REGULAR"

section \<open>Permission triples\<close>

datatype read_write_execute =
    NONE
  | READ
  | READ_WRITE
  | READ_EXECUTE
  | READ_WRITE_EXECUTE
  | WRITE
  | WRITE_EXECUTE
  | EXECUTE

datatype read_write_execute_proto =
    READ_WRITE_EXECUTE_PROTO_UNKNOWN
  | PROTO_NONE
  | PROTO_READ
  | PROTO_READ_WRITE
  | PROTO_READ_EXECUTE
  | PROTO_READ_WRITE_EXECUTE
  | PROTO_WRITE
  | PROTO_WRITE_EXECUTE
  | PROTO_EXECUTE

fun rwe_from_proto :: "read_write_execute_proto \<Rightarrow> read_write_execute result" where
  "rwe_from_proto PROTO_NONE = Inr NONE"
| "rwe_from_proto PROTO_READ = Inr READ"
| "rwe_from_proto PROTO_READ_WRITE = Inr READ_WRITE"
| "rwe_from_proto PROTO_READ_EXECUTE = Inr READ_EXECUTE"
| "rwe_from_proto PROTO_READ_WRITE_EXECUTE = Inr READ_WRITE_EXECUTE"
| "rwe_from_proto PROTO_WRITE = Inr WRITE"
| "rwe_from_proto PROTO_WRITE_EXECUTE = Inr WRITE_EXECUTE"
| "rwe_from_proto PROTO_EXECUTE = Inr EXECUTE"
| "rwe_from_proto READ_WRITE_EXECUTE_PROTO_UNKNOWN = Inl (Thrown ''Unknown proto'')"

fun rwe_gen_proto :: "read_write_execute \<Rightarrow> read_write_execute_proto" where
  "rwe_gen_proto NONE = PROTO_NONE"
| "rwe_gen_proto READ = PROTO_READ"
| "rwe_gen_proto READ_WRITE = PROTO_READ_WRITE"
| "rwe_gen_proto READ_EXECUTE = PROTO_READ_EXECUTE"
| "rwe_gen_proto READ_WRITE_EXECUTE = PROTO_READ_WRITE_EXECUTE"
| "rwe_gen_proto WRITE = PROTO_WRITE"
| "rwe_gen_proto WRITE_EXECUTE = PROTO_WRITE_EXECUTE"
| "rwe_gen_proto EXECUTE = PROTO_EXECUTE"

section \<open>Modes\<close>

record mode =
  user_mode :: read_write_execute
  group_mode :: read_write_execute
  other_mode :: read_write_execute
  file_type_of :: file_type

text \<open>The permission bits of \<open><sys/stat.h>\<close>.\<close>

definition S_IRUSR :: mode_t where "S_IRUSR = 0x100"
definition S_IWUSR :: mode_t where "S_IWUSR = 0x80"
definition S_IXUSR :: mode_t where "S_IXUSR = 0x40"
definition S_IRGRP :: mode_t where "S_IRGRP = 0x20"
definition S_IWGRP :: mode_t where "S_IWGRP = 0x10"
definition S_IXGRP :: mode_t where "S_IXGRP = 0x8"
definition S_IROTH :: mode_t where "S_IROTH = 0x4"
definition S_IWOTH :: mode_t where "S_IWOTH = 0x2"
definition S_IXOTH :: mode_t where "S_IXOTH = 0x1"

definition bits_set :: "mode_t \<Rightarrow> mode_t \<Rightarrow> bool" where
  "bits_set target bits_to_check \<longleftrightarrow> (target AND bits_to_check) = bits_to_check"

definition user_mode_from_mode_t :: "mode_t \<Rightarrow> read_write_execute" where
  "user_mode_from_mode_t m =
     (if bits_set m (S_IRUSR OR S_IWUSR OR S_IXUSR) then READ_WRITE_EXECUTE
      else if bits_set m (S_IRUSR OR S_IWUSR) then READ_WRITE
      else if bits_set m (S_IRUSR OR S_IXUSR) then READ_EXECUTE
      else if bits_set m S_IRUSR then READ
      else if bits_set m (S_IWUSR OR S_IXUSR) then WRITE_EXECUTE
      else if bits_set m S_IWUSR then WRITE
      else if bits_set m S_IXUSR then EXECUTE
      else NONE)"

definition group_mode_from_mode_t :: "mode_t \<Rightarrow> read_write_execute" where
  "group_mode_from_mode_t m =
     (if bits_set m (S_IRGRP OR S_IWGRP OR S_IXGRP) then READ_WRITE_EXECUTE
      else if bits_set m (S_IRGRP OR S_IWGRP) then READ_WRITE
      else if bits_set m (S_IRGRP OR S_IXGRP) then READ_EXECUTE
      else if bits_set m S_IRGRP then READ
      else if bits_set m (S_IWGRP OR S_IXGRP) then WRITE_EXECUTE
      else if bits_set m S_IWGRP then WRITE
      else if bits_set m S_IXGRP then EXECUTE
      else NONE)"

definition other_mode_from_mode_t :: "mode_t \<Rightarrow> read_write_execute" where
  "other_mode_from_mode_t m =
     (if bits_set m (S_IROTH OR S_IWOTH OR S_IXOTH) then READ_WRITE_EXECUTE
      else if bits_set m (S_IROTH OR S_IWOTH) then READ_WRITE
      else if bits_set m (S_IROTH OR S_IXOTH) then READ_EXECUTE
      else if bits_set m S_IROTH then READ
      else if bits_set m (S_IWOTH OR S_IXOTH) then WRITE_EXECUTE
      else if bits_set m S_IWOTH then WRITE
      else if bits_set m S_IXOTH then EXECUTE
      else NONE)"

definition Mode_of_mode_t :: "mode_t \<Rightarrow> mode result" where
  "Mode_of_mode_t m =
     bind_result (file_type_from_mode_t m) (\<lambda>ft.
       Inr \<lparr>user_mode = user_mode_from_mode_t m, group_mode = group_mode_from_mode_t m,
            other_mode = other_mode_from_mode_t m, file_type_of = ft\<rparr>)"

fun get_user_mode_t :: "read_write_execute \<Rightarrow> mode_t" where
  "get_user_mode_t NONE = 0"
| "get_user_mode_t READ = S_IRUSR"
| "get_user_mode_t READ_WRITE = S_IRUSR OR S_IWUSR"
| "get_user_mode_t READ_EXECUTE = S_IRUSR OR S_IXUSR"
| "get_user_mode_t READ_WRITE_EXECUTE = S_IRUSR OR S_IWUSR OR S_IXUSR"
| "get_user_mode_t WRITE = S_IWUSR"
| "get_user_mode_t WRITE_EXECUTE = S_IWUSR OR S_IXUSR"
| "get_user_mode_t EXECUTE = S_IXUSR"

fun get_group_mode_t :: "read_write_execute \<Rightarrow> mode_t" where
  "get_group_mode_t NONE = 0"
| "get_group_mode_t READ = S_IRGRP"
| "get_group_mode_t READ_WRITE = S_IRGRP OR S_IWGRP"
| "get_group_mode_t READ_EXECUTE = S_IRGRP OR S_IXGRP"
| "get_group_mode_t READ_WRITE_EXECUTE = S_IRGRP OR S_IWGRP OR S_IXGRP"
| "get_group_mode_t WRITE = S_IWGRP"
| "get_group_mode_t WRITE_EXECUTE = S_IWGRP OR S_IXGRP"
| "get_group_mode_t EXECUTE = S_IXGRP"

fun get_other_mode_t :: "read_write_execute \<Rightarrow> mode_t" where
  "get_other_mode_t NONE = 0"
| "get_other_mode_t READ = S_IROTH"
| "get_other_mode_t READ_WRITE = S_IROTH OR S_IWOTH"
| "get_other_mode_t READ_EXECUTE = S_IROTH OR S_IXOTH"
| "get_other_mode_t READ_WRITE_EXECUTE = S_IROTH OR S_IWOTH OR S_IXOTH"
| "get_other_mode_t WRITE = S_IWOTH"
| "get_other_mode_t WRITE_EXECUTE = S_IWOTH OR S_IXOTH"
| "get_other_mode_t EXECUTE = S_IXOTH"

definition to_mode_t :: "mode \<Rightarrow> mode_t" where
  "to_mode_t m =
     file_type_to_mode (file_type_of m) OR get_user_mode_t (user_mode m)
       OR get_group_mode_t (group_mode m) OR get_other_mode_t (other_mode m)"

definition mode_eq :: "mode \<Rightarrow> mode \<Rightarrow> bool" where
  "mode_eq a b \<longleftrightarrow>
     user_mode a = user_mode b \<and> group_mode a = group_mode b \<and>
     other_mode a = other_mode b \<and> file_type_of a = file_type_of b"

text \<open>
  The message \<open>ModeProto\<close>. Its fields are optional; reading an unset enum field gives the
  enum's first value, as the language guide of protocol buffers (proto2) documents.
\<close>

record mode_proto =
  mp_user_mode :: "read_write_execute_proto option"
  mp_group_mode :: "read_write_execute_proto option"
  mp_other_mode :: "read_write_execute_proto option"
  mp_file_type :: "file_type_proto option"

definition rwe_field :: "read_write_execute_proto option \<Rightarrow> read_write_execute_proto" where
  "rwe_field f = (case f of None \<Rightarrow> READ_WRITE_EXECUTE_PROTO_UNKNOWN | Some v \<Rightarrow> v)"

definition file_type_field :: "file_type_proto option \<Rightarrow> file_type_proto" where
  "file_type_field f = (case f of None \<Rightarrow> FILE_TYPE_PROTO_UNKNOWN | Some v \<Rightarrow> v)"

definition mode_proto_default :: mode_proto where
  "mode_proto_default =
     \<lparr>mp_user_mode = None, mp_group_mode = None, mp_other_mode = None, mp_file_type = None\<rparr>"

definition Mode_of_proto :: "mode_proto \<Rightarrow> mode result" where
  "Mode_of_proto p =
     bind_result (rwe_from_proto (rwe_field (mp_user_mode p))) (\<lambda>u.
     bind_result (rwe_from_proto (rwe_field (mp_group_mode p))) (\<lambda>g.
     bind_result (rwe_from_proto (rwe_field (mp_other_mode p))) (\<lambda>ot.
     bind_result (file_type_from_proto (file_type_field (mp_file_type p))) (\<lambda>ft.
       Inr \<lparr>user_mode = u, group_mode = g, other_mode = ot, file_type_of = ft\<rparr>))))"

definition mode_gen_proto :: "mode \<Rightarrow> mode_proto" where
  "mode_gen_proto m =
     \<lparr>mp_user_mode = Some (rwe_gen_proto (user_mode m)),
      mp_group_mode = Some (rwe_gen_proto (group_mode m)),
      mp_other_mode = Some (rwe_gen_proto (other_mode m)),
      mp_file_type = Some (file_type_gen_proto (file_type_of m))\<rparr>"

section \<open>Bits of a mode\<close>

text \<open>
  A triple read as its three permissions, and the triple for three permissions: the
  specification the bit tests of the code are compared with.
\<close>

definition rwe_of_bits :: "bool \<Rightarrow> bool \<Rightarrow> bool \<Rightarrow> read_write_execute" where
  "rwe_of_bits r w x =
     (if r then (if w then (if x then READ_WRITE_EXECUTE else READ_WRITE)
                 else (if x then READ_EXECUTE else READ))
      else (if w then (if x then WRITE_EXECUTE else WRITE)
            else (if x then EXECUTE else NONE)))"

definition rwe_bits :: "read_write_execute \<Rightarrow> bool \<times> bool \<times> bool" where
  "rwe_bits e = (e \<in> {READ, READ_WRITE, READ_EXECUTE, READ_WRITE_EXECUTE},
                 e \<in> {READ_WRITE, READ_WRITE_EXECUTE, WRITE, WRITE_EXECUTE},
                 e \<in> {READ_EXECUTE, READ_WRITE_EXECUTE, WRITE_EXECUTE, EXECUTE})"

lemma rwe_of_bits_of: "rwe_bits e = (r, w, x) \<Longrightarrow> rwe_of_bits r w x = e"
  by (cases e) (auto simp: rwe_bits_def rwe_of_bits_def)

lemma mode_t_eq_iff: "(a :: mode_t) = b \<longleftrightarrow> (\<forall>n. bit a n = bit b n)"
  by (auto intro: bit_word_eqI)

lemma bits_set_or: "bits_set m (a OR b) \<longleftrightarrow> bits_set m a \<and> bits_set m b"
  by (auto simp: bits_set_def mode_t_eq_iff bit_simps)

lemma bit_single: "k < 32 \<Longrightarrow> bit (push_bit k 1 :: mode_t) n \<longleftrightarrow> n = k"
  by (auto simp: bit_simps)

lemma mode_bits_pushed:
  "S_IRUSR = push_bit 8 1" "S_IWUSR = push_bit 7 1" "S_IXUSR = push_bit 6 1"
  "S_IRGRP = push_bit 5 1" "S_IWGRP = push_bit 4 1" "S_IXGRP = push_bit 3 1"
  "S_IROTH = push_bit 2 1" "S_IWOTH = push_bit 1 1" "S_IXOTH = push_bit 0 1"
  "S_IFDIR = push_bit 14 1" "S_IFREG = push_bit 15 1"
  by (simp_all add: S_IRUSR_def S_IWUSR_def S_IXUSR_def S_IRGRP_def S_IWGRP_def S_IXGRP_def
      S_IROTH_def S_IWOTH_def S_IXOTH_def S_IFDIR_def S_IFREG_def)

lemma bits_set_single: "k < 32 \<Longrightarrow> bits_set m (push_bit k 1) \<longleftrightarrow> bit m k"
  by (auto simp: bits_set_def mode_t_eq_iff bit_simps bit_single)

lemma mode_bits_set:
  "bits_set m S_IRUSR \<longleftrightarrow> bit m 8" "bits_set m S_IWUSR \<longleftrightarrow> bit m 7" "bits_set m S_IXUSR \<longleftrightarrow> bit m 6"
  "bits_set m S_IRGRP \<longleftrightarrow> bit m 5" "bits_set m S_IWGRP \<longleftrightarrow> bit m 4" "bits_set m S_IXGRP \<longleftrightarrow> bit m 3"
  "bits_set m S_IROTH \<longleftrightarrow> bit m 2" "bits_set m S_IWOTH \<longleftrightarrow> bit m 1" "bits_set m S_IXOTH \<longleftrightarrow> bit m 0"
  unfolding mode_bits_pushed by (subst bits_set_single; simp)+

lemma bit_mode_consts:
  "bit S_IRUSR n \<longleftrightarrow> n = 8" "bit S_IWUSR n \<longleftrightarrow> n = 7" "bit S_IXUSR n \<longleftrightarrow> n = 6"
  "bit S_IRGRP n \<longleftrightarrow> n = 5" "bit S_IWGRP n \<longleftrightarrow> n = 4" "bit S_IXGRP n \<longleftrightarrow> n = 3"
  "bit S_IROTH n \<longleftrightarrow> n = 2" "bit S_IWOTH n \<longleftrightarrow> n = 1" "bit S_IXOTH n \<longleftrightarrow> n = 0"
  "bit S_IFDIR n \<longleftrightarrow> n = 14" "bit S_IFREG n \<longleftrightarrow> n = 15"
  unfolding mode_bits_pushed by (subst bit_single; simp)+

lemma from_mode_t_bits:
  "user_mode_from_mode_t m = rwe_of_bits (bit m 8) (bit m 7) (bit m 6)"
  "group_mode_from_mode_t m = rwe_of_bits (bit m 5) (bit m 4) (bit m 3)"
  "other_mode_from_mode_t m = rwe_of_bits (bit m 2) (bit m 1) (bit m 0)"
  by (simp_all add: user_mode_from_mode_t_def group_mode_from_mode_t_def
      other_mode_from_mode_t_def rwe_of_bits_def bits_set_or mode_bits_set)

lemma bit_get_mode_t:
  "bit (get_user_mode_t e) n \<longleftrightarrow>
     (case rwe_bits e of (r, w, x) \<Rightarrow> r \<and> n = 8 \<or> w \<and> n = 7 \<or> x \<and> n = 6)"
  "bit (get_group_mode_t e) n \<longleftrightarrow>
     (case rwe_bits e of (r, w, x) \<Rightarrow> r \<and> n = 5 \<or> w \<and> n = 4 \<or> x \<and> n = 3)"
  "bit (get_other_mode_t e) n \<longleftrightarrow>
     (case rwe_bits e of (r, w, x) \<Rightarrow> r \<and> n = 2 \<or> w \<and> n = 1 \<or> x \<and> n = 0)"
  by (cases e; auto simp: rwe_bits_def bit_or_iff bit_mode_consts)+

lemma bit_file_type: "bit (file_type_to_mode ft) n \<longleftrightarrow> n = (case ft of DIR \<Rightarrow> 14 | REGULAR \<Rightarrow> 15)"
  by (cases ft) (simp_all add: bit_mode_consts)

lemma and_single_pos: "k < 32 \<Longrightarrow> 0 < (m AND push_bit k 1 :: mode_t) \<longleftrightarrow> bit m k"
  by (auto simp: word_gt_0 mode_t_eq_iff bit_simps bit_single)

lemma file_type_from_mode_t_bits:
  "file_type_from_mode_t m =
     (if bit m 14 then Inr DIR else if bit m 15 then Inr REGULAR
      else Inl (Thrown ''Unknown mode''))"
  unfolding file_type_from_mode_t_def mode_bits_pushed by (simp only: and_single_pos)

section \<open>Properties\<close>

lemma rwe_proto_inverse [simp]: "rwe_from_proto (rwe_gen_proto e) = Inr e"
  by (cases e) simp_all

lemma file_type_proto_inverse [simp]: "file_type_from_proto (file_type_gen_proto e) = Inr e"
  by (cases e) simp_all

lemma mode_eq_iff [simp]: "mode_eq a b \<longleftrightarrow> a = b"
  by (auto simp: mode_eq_def intro: mode.equality)

lemma Mode_of_gen_proto [simp]: "Mode_of_proto (mode_gen_proto m) = Inr m"
  by (simp add: Mode_of_proto_def mode_gen_proto_def rwe_field_def file_type_field_def)

text \<open>
  A \<open>Mode\<close> survives its conversion to the POSIX word: for every mode,
  \<open>Mode(m.to_mode_t())\<close> does not throw and is equal to \<open>m\<close>.
\<close>

theorem Mode_of_to_mode_t: "Mode_of_mode_t (to_mode_t m) = Inr m"
  by (cases m)
     (auto simp: Mode_of_mode_t_def from_mode_t_bits file_type_from_mode_t_bits to_mode_t_def
        bit_or_iff bit_get_mode_t bit_file_type rwe_of_bits_of
        split: prod.splits file_type.splits)

lemma rwe_bits_of: "rwe_bits (rwe_of_bits r w x) = (r, w, x)"
  by (simp add: rwe_bits_def rwe_of_bits_def)

lemma bit_permission_mask: "bit (0x1FF :: mode_t) n \<longleftrightarrow> n < 9"
proof -
  have eq: "(0x1FF :: mode_t) = mask 9" by (simp add: mask_eq_exp_minus_1)
  show ?thesis unfolding eq by (auto simp only: bit_mask_iff possible_bit_word) simp
qed

lemma and_file_type_bits:
  "m AND (S_IFDIR OR S_IFREG) = 0 \<longleftrightarrow> \<not> bit m 14 \<and> \<not> bit m 15" for m :: mode_t
  by (auto simp: mode_t_eq_iff bit_simps bit_mode_consts)

lemma bit_permissions:
  "bit (get_user_mode_t (user_mode_from_mode_t m) OR get_group_mode_t (group_mode_from_mode_t m)
        OR get_other_mode_t (other_mode_from_mode_t m)) n \<longleftrightarrow> n < 9 \<and> bit m n"
proof (cases "n < 9")
  case True
  then have "n \<in> {0, 1, 2, 3, 4, 5, 6, 7, 8}" by auto
  then show ?thesis
    by (elim insertE) (simp_all add: bit_or_iff bit_get_mode_t from_mode_t_bits rwe_bits_of)
next
  case False
  then show ?thesis
    by (auto simp: bit_or_iff bit_get_mode_t from_mode_t_bits rwe_bits_of)
qed

lemma to_mode_t_of_bits:
  "to_mode_t \<lparr>user_mode = user_mode_from_mode_t m, group_mode = group_mode_from_mode_t m,
              other_mode = other_mode_from_mode_t m, file_type_of = ft\<rparr>
     = (m AND 0x1FF) OR file_type_to_mode ft"
proof (rule bit_word_eqI)
  fix n
  show "bit (to_mode_t \<lparr>user_mode = user_mode_from_mode_t m,
      group_mode = group_mode_from_mode_t m, other_mode = other_mode_from_mode_t m,
      file_type_of = ft\<rparr>) n = bit ((m AND 0x1FF) OR file_type_to_mode ft) n"
    using bit_permissions [of m n]
    by (simp only: to_mode_t_def mode.simps bit_or_iff bit_and_iff bit_permission_mask) blast
qed

text \<open>
  Which bits of a \<open>mode_t\<close> a \<open>Mode\<close> keeps: the constructor throws exactly when
  neither the directory nor the regular-file bit is set, and otherwise the conversion back
  gives the nine permission bits and one file-type bit, where the directory bit wins over the
  regular-file bit (so a socket reads as a directory, a symbolic link as a regular file).
\<close>

theorem Mode_of_mode_t_keeps:
  "case Mode_of_mode_t m of
     Inl e \<Rightarrow> e = Thrown ''Unknown mode'' \<and> m AND (S_IFDIR OR S_IFREG) = 0
   | Inr md \<Rightarrow> m AND (S_IFDIR OR S_IFREG) \<noteq> 0 \<and>
       to_mode_t md = (m AND 0x1FF) OR (if m AND S_IFDIR \<noteq> 0 then S_IFDIR else S_IFREG)"
proof -
  have dir: "m AND S_IFDIR \<noteq> 0 \<longleftrightarrow> bit m 14"
    by (auto simp: mode_t_eq_iff bit_simps bit_mode_consts)
  show ?thesis
    by (auto simp: Mode_of_mode_t_def file_type_from_mode_t_bits to_mode_t_of_bits dir
        and_file_type_bits)
qed

end
