(* ===== verification/BlockData.thy ===== *)
theory BlockData
  imports Mode
begin

text \<open>
  What a block holds and how it travels: \<open>Stat\<close> (\<open>stat.cc\<close>), the three kinds of
  \<open>BlockData\<close> (\<open>dir_file_block_data.cc\<close>, \<open>link_block_data.cc\<close>,
  \<open>file_contents_block_data.cc\<close>), \<open>Block\<close> (\<open>block.cc\<close>), requests and responses, and
  their protocol-buffer messages (\<open>block_data.proto\<close>). The subclasses of \<open>BlockData\<close> are
  the constructors of one datatype, so that \<open>dynamic_pointer_cast\<close> is a case distinction. The
  last section shows that writing a block into its message and reading it back is the identity.
\<close>

section \<open>Stat\<close>

record stat_data =
  stat_mode :: mode
  stat_uid :: u32
  stat_gid :: u32
  stat_size :: u64
  access_time :: time_t
  mod_time :: time_t
  status_change_time :: time_t

definition stat_with_times :: "stat_data \<Rightarrow> u64 \<Rightarrow> time_t \<Rightarrow> time_t \<Rightarrow> time_t \<Rightarrow> stat_data" where
  "stat_with_times st sz atime mtime ctime =
     \<lparr>stat_mode = stat_mode st, stat_uid = stat_uid st, stat_gid = stat_gid st,
      stat_size = sz, access_time = atime, mod_time = mtime, status_change_time = ctime\<rparr>"

text \<open>The fields of the caller's \<open>struct stat\<close> that \<open>update_stat\<close> writes.\<close>

record stat_buf =
  st_ino :: ino_t
  st_dev :: dev_t
  st_mode :: mode_t
  st_uid :: u32
  st_gid :: u32
  st_size :: u64
  st_atime :: time_t
  st_mtime :: time_t
  st_ctime :: time_t
  st_nlink :: u64

definition update_stat :: "stat_data \<Rightarrow> dev_t \<Rightarrow> ino_t \<Rightarrow> stat_buf \<Rightarrow> stat_buf" where
  "update_stat st dev ino stbuf =
     stbuf\<lparr>st_ino := ino, st_dev := dev, st_mode := to_mode_t (stat_mode st),
           st_uid := stat_uid st, st_gid := stat_gid st, st_size := stat_size st,
           st_atime := access_time st, st_mtime := mod_time st,
           st_ctime := status_change_time st, st_nlink := 1\<rparr>"

definition stat_eq :: "stat_data \<Rightarrow> stat_data \<Rightarrow> bool" where
  "stat_eq a b \<longleftrightarrow>
     mode_eq (stat_mode a) (stat_mode b) \<and> stat_uid a = stat_uid b \<and>
     stat_gid a = stat_gid b \<and> stat_size a = stat_size b \<and>
     access_time a = access_time b \<and> mod_time a = mod_time b \<and>
     status_change_time a = status_change_time b"

definition stat_is_dir :: "stat_data \<Rightarrow> bool" where
  "stat_is_dir st \<longleftrightarrow> file_type_of (stat_mode st) = DIR"

record stat_proto =
  sp_mode :: "mode_proto option"
  sp_uid :: "u32 option"
  sp_gid :: "u32 option"
  sp_size :: "u64 option"
  sp_access_time :: "u64 option"
  sp_mod_time :: "u64 option"
  sp_status_change_time :: "u64 option"

text \<open>Reading an unset numeric field gives 0, an unset message its default instance.\<close>

definition word_field :: "('a::len) word option \<Rightarrow> 'a word" where
  "word_field f = (case f of None \<Rightarrow> 0 | Some w \<Rightarrow> w)"

definition Stat_of_proto :: "stat_proto \<Rightarrow> stat_data result" where
  "Stat_of_proto p =
     bind_result (Mode_of_proto (case sp_mode p of None \<Rightarrow> mode_proto_default | Some m \<Rightarrow> m)) (\<lambda>m.
       Inr \<lparr>stat_mode = m, stat_uid = word_field (sp_uid p), stat_gid = word_field (sp_gid p),
            stat_size = word_field (sp_size p), access_time = word_field (sp_access_time p),
            mod_time = word_field (sp_mod_time p),
            status_change_time = word_field (sp_status_change_time p)\<rparr>)"

definition stat_gen_proto :: "stat_data \<Rightarrow> stat_proto" where
  "stat_gen_proto st =
     \<lparr>sp_mode = Some (mode_gen_proto (stat_mode st)), sp_uid = Some (stat_uid st),
      sp_gid = Some (stat_gid st), sp_size = Some (stat_size st),
      sp_access_time = Some (access_time st), sp_mod_time = Some (mod_time st),
      sp_status_change_time = Some (status_change_time st)\<rparr>"

section \<open>Block data\<close>

record dir_file_data =
  df_name :: string
  df_stat :: stat_data
  df_children :: "block_id list"

datatype block_data =
    DirFileBlockData dir_file_data
  | LinkBlockData "block_id list"
  | FileContentsBlockData string

definition dir_file_with_children :: "dir_file_data \<Rightarrow> block_id list \<Rightarrow> dir_file_data" where
  "dir_file_with_children other new_children =
     \<lparr>df_name = df_name other, df_stat = df_stat other, df_children = new_children\<rparr>"

definition df_is_dir :: "dir_file_data \<Rightarrow> bool" where
  "df_is_dir d = stat_is_dir (df_stat d)"

fun block_data_eq :: "block_data \<Rightarrow> block_data \<Rightarrow> bool" where
  "block_data_eq (DirFileBlockData a) (DirFileBlockData b) \<longleftrightarrow>
     df_name a = df_name b \<and> df_children a = df_children b \<and> stat_eq (df_stat a) (df_stat b)"
| "block_data_eq (LinkBlockData a) (LinkBlockData b) \<longleftrightarrow> a = b"
| "block_data_eq (FileContentsBlockData a) (FileContentsBlockData b) \<longleftrightarrow> a = b"
| "block_data_eq _ _ \<longleftrightarrow> False"

text \<open>The child ids of a block's \<open>to_string\<close>, separated by commas.\<close>

fun children_to_string :: "bool \<Rightarrow> block_id list \<Rightarrow> string" where
  "children_to_string first_child [] = ''''"
| "children_to_string first_child (c # cs) =
     (if first_child then '''' else '', '') @ to_string_u64 c @ children_to_string False cs"

definition dir_file_to_string :: "dir_file_data \<Rightarrow> string" where
  "dir_file_to_string d =
     ''[DirFileData: is_dir: '' @ decimal (if df_is_dir d then 1 else 0) @
     '', name: '' @ df_name d @ '', children=['' @
     children_to_string True (df_children d) @ '']]''"

definition link_to_string :: "block_id list \<Rightarrow> string" where
  "link_to_string cs = ''[LinkBlockData: children=['' @ children_to_string True cs @ '']]''"

definition file_contents_to_string :: "string \<Rightarrow> string" where
  "file_contents_to_string data = ''[FileContentsData]''"

fun block_data_to_string :: "block_data \<Rightarrow> string" where
  "block_data_to_string (DirFileBlockData d) = dir_file_to_string d"
| "block_data_to_string (LinkBlockData cs) = link_to_string cs"
| "block_data_to_string (FileContentsBlockData s) = file_contents_to_string s"

subsection \<open>Messages\<close>

record dir_file_proto =
  dfp_name :: "string option"
  dfp_stat :: "stat_proto option"
  dfp_children :: "block_id list"

record link_proto =
  lp_children :: "block_id list"

record file_contents_proto =
  fcp_data :: "string option"

text \<open>\<open>BlockDataProto\<close> is one \<open>oneof\<close>: at most one of its fields is set.\<close>

datatype block_data_proto =
    Proto_Not_Set
  | Proto_Dir_File dir_file_proto
  | Proto_Link link_proto
  | Proto_File_Contents file_contents_proto

definition stat_proto_default :: stat_proto where
  "stat_proto_default =
     \<lparr>sp_mode = None, sp_uid = None, sp_gid = None, sp_size = None, sp_access_time = None,
      sp_mod_time = None, sp_status_change_time = None\<rparr>"

definition string_field :: "string option \<Rightarrow> string" where
  "string_field f = (case f of None \<Rightarrow> '''' | Some s \<Rightarrow> s)"

fun iters_to_vector :: "block_id list \<Rightarrow> block_id list \<Rightarrow> block_id list" where
  "iters_to_vector [] vec = vec"
| "iters_to_vector (i # is) vec = iters_to_vector is (vec @ [i])"

definition DirFile_of_proto :: "dir_file_proto \<Rightarrow> dir_file_data result" where
  "DirFile_of_proto p =
     bind_result (Stat_of_proto (case dfp_stat p of None \<Rightarrow> stat_proto_default | Some s \<Rightarrow> s)) (\<lambda>st.
       Inr \<lparr>df_name = string_field (dfp_name p), df_stat = st,
            df_children = iters_to_vector (dfp_children p) []\<rparr>)"

fun add_children :: "block_id list \<Rightarrow> block_id list \<Rightarrow> block_id list" where
  "add_children field [] = field"
| "add_children field (c # cs) = add_children (field @ [c]) cs"

definition dir_file_gen_proto :: "dir_file_data \<Rightarrow> dir_file_proto" where
  "dir_file_gen_proto d =
     \<lparr>dfp_name = Some (df_name d), dfp_stat = Some (stat_gen_proto (df_stat d)),
      dfp_children = add_children [] (df_children d)\<rparr>"

definition Link_of_proto :: "link_proto \<Rightarrow> block_id list" where
  "Link_of_proto p = iters_to_vector (lp_children p) []"

definition link_gen_proto :: "block_id list \<Rightarrow> link_proto" where
  "link_gen_proto cs = \<lparr>lp_children = add_children [] cs\<rparr>"

definition FileContents_of_proto :: "file_contents_proto \<Rightarrow> string" where
  "FileContents_of_proto p = string_field (fcp_data p)"

definition file_contents_gen_proto :: "string \<Rightarrow> file_contents_proto" where
  "file_contents_gen_proto s = \<lparr>fcp_data = Some s\<rparr>"

fun gen_block_data_proto :: "block_data \<Rightarrow> block_data_proto" where
  "gen_block_data_proto (DirFileBlockData d) = Proto_Dir_File (dir_file_gen_proto d)"
| "gen_block_data_proto (LinkBlockData cs) = Proto_Link (link_gen_proto cs)"
| "gen_block_data_proto (FileContentsBlockData s) = Proto_File_Contents (file_contents_gen_proto s)"

fun BlockDataFactory_generate :: "block_data_proto \<Rightarrow> block_data result" where
  "BlockDataFactory_generate (Proto_Dir_File p) =
     bind_result (DirFile_of_proto p) (\<lambda>d. Inr (DirFileBlockData d))"
| "BlockDataFactory_generate (Proto_File_Contents p) =
     Inr (FileContentsBlockData (FileContents_of_proto p))"
| "BlockDataFactory_generate (Proto_Link p) = Inr (LinkBlockData (Link_of_proto p))"
| "BlockDataFactory_generate Proto_Not_Set =
     Inl (Thrown ''Unknown protocol buffer to deserialize'')"

section \<open>Blocks\<close>

record block =
  get_id :: block_id
  get_data :: block_data

record block_proto =
  bp_id :: "u64 option"
  bp_data :: "block_data_proto option"

definition Block_of_proto :: "block_proto \<Rightarrow> block result" where
  "Block_of_proto p =
     bind_result (BlockDataFactory_generate
        (case bp_data p of None \<Rightarrow> Proto_Not_Set | Some d \<Rightarrow> d)) (\<lambda>d.
       Inr \<lparr>get_id = word_field (bp_id p), get_data = d\<rparr>)"

definition block_gen_proto :: "block \<Rightarrow> block_proto" where
  "block_gen_proto b =
     \<lparr>bp_id = Some (get_id b), bp_data = Some (gen_block_data_proto (get_data b))\<rparr>"

definition block_eq :: "block \<Rightarrow> block \<Rightarrow> bool" where
  "block_eq a b \<longleftrightarrow> get_id a = get_id b \<and> block_data_eq (get_data a) (get_data b)"

definition block_to_string :: "block \<Rightarrow> string" where
  "block_to_string b =
     ''[block_id='' @ to_string_u64 (get_id b) @ '', data='' @ block_data_to_string (get_data b) @
     '']''"

section \<open>Equality and the round trip through the message\<close>

lemma iters_to_vector_append [simp]: "iters_to_vector is vec = vec @ is"
  by (induction "is" vec rule: iters_to_vector.induct) simp_all

lemma add_children_append [simp]: "add_children field cs = field @ cs"
  by (induction field cs rule: add_children.induct) simp_all

lemma stat_eq_iff [simp]: "stat_eq a b \<longleftrightarrow> a = b"
  by (auto simp: stat_eq_def intro: stat_data.equality)

lemma Stat_of_gen_proto [simp]: "Stat_of_proto (stat_gen_proto st) = Inr st"
  by (simp add: Stat_of_proto_def stat_gen_proto_def word_field_def)

lemma DirFile_of_gen_proto [simp]: "DirFile_of_proto (dir_file_gen_proto d) = Inr d"
  by (simp add: DirFile_of_proto_def dir_file_gen_proto_def string_field_def)

lemma BlockDataFactory_of_gen_proto [simp]:
  "BlockDataFactory_generate (gen_block_data_proto d) = Inr d"
  by (cases d)
     (simp_all add: Link_of_proto_def link_gen_proto_def FileContents_of_proto_def
       file_contents_gen_proto_def string_field_def)

text \<open>
  C39. The equality the classes implement, which compares the dynamic types first and then
  field by field, is equality of the values: in particular it is an equivalence relation, and
  blocks of different kinds are never equal.
\<close>

theorem block_eq_iff: "block_eq a b \<longleftrightarrow> a = b"
proof -
  have "block_data_eq c d \<longleftrightarrow> c = d" for c d
    by (cases c; cases d) (auto intro: dir_file_data.equality)
  then show ?thesis by (auto simp: block_eq_def intro: block.equality)
qed

lemma block_proto_roundtrip: "Block_of_proto (block_gen_proto b) = Inr b"
  by (simp add: Block_of_proto_def block_gen_proto_def word_field_def)

text \<open>
  C40. A block written into its protocol-buffer message and read back by the message
  constructors and \<open>BlockDataFactory::generate\<close> is the same block, for every id, kind of
  data, name, mode, time, list of children and file contents.
\<close>

theorem Block_of_gen_proto: "Block_of_proto (block_gen_proto b) = Inr b"
  by (rule block_proto_roundtrip)

end
