(* ===== verification/IdSupplier.thy ===== *)
theory IdSupplier
  imports Prelude
begin

unbundle bit_operations_syntax

text \<open>
  Block ids: the interface \<open>IdSupplier\<close> (\<open>id_supplier.hpp\<close>) as a record of its virtual
  methods, its contract as the locale \<open>id_supply\<close>, and its two implementations,
  \<open>CounterSupplier\<close> (\<open>counter_supplier.cc\<close>) and \<open>UpdatingIdSupplier\<close>
  (\<open>updating_id_suppler.cc\<close>). The contract is that the ids handed out are pairwise different
  as long as the id space lasts, whatever is freed in between; the mutex around each method makes
  it one step of the state.
\<close>

section \<open>The interface\<close>

record 'i id_supplier =
  supply_next :: "'i \<Rightarrow> (block_id \<times> 'i) result"
  supply_free :: "block_id \<Rightarrow> 'i \<Rightarrow> 'i"

section \<open>CounterSupplier\<close>

type_synonym counter = u64

definition counter_init :: counter where "counter_init = 1"

definition counter_next_id :: "counter \<Rightarrow> (block_id \<times> counter) result" where
  "counter_next_id next_id =
     (if next_id = 0 then Inl (Thrown ''Exhausted id space'')
      else Inr (next_id, next_id + 1))"

definition counter_free_id :: "block_id \<Rightarrow> counter \<Rightarrow> counter" where
  "counter_free_id block_id next_id = next_id"

definition CounterSupplier :: "counter id_supplier" where
  "CounterSupplier = \<lparr>supply_next = counter_next_id, supply_free = counter_free_id\<rparr>"

section \<open>UpdatingIdSupplier\<close>

record updating =
  fixed_low_order_bits :: u8
  high_order_bits :: u64

definition updating_init :: "u8 \<Rightarrow> updating" where
  "updating_init fixed = \<lparr>fixed_low_order_bits = fixed, high_order_bits = 1\<rparr>"

definition updating_next_id :: "updating \<Rightarrow> (block_id \<times> updating) result" where
  "updating_next_id u =
     (let new_id = push_bit 8 (high_order_bits u) + ucast (fixed_low_order_bits u)
      in Inr (new_id, u\<lparr>high_order_bits := high_order_bits u + 1\<rparr>))"

definition update_if_less_than :: "block_id \<Rightarrow> updating \<Rightarrow> updating" where
  "update_if_less_than block_id u =
     (let just_high_order = drop_bit 8 block_id
      in if high_order_bits u < just_high_order
         then u\<lparr>high_order_bits := just_high_order + 1\<rparr> else u)"

definition updating_free_id :: "block_id \<Rightarrow> updating \<Rightarrow> updating" where
  "updating_free_id block_id u = u"

definition UpdatingIdSupplier :: "updating id_supplier" where
  "UpdatingIdSupplier = \<lparr>supply_next = updating_next_id, supply_free = updating_free_id\<rparr>"

section \<open>The contract\<close>

text \<open>
  A use of a supplier: the calls its clients make, in order. \<open>supply_run\<close> returns the ids
  handed out.
\<close>

datatype supply_call = Next_Id | Free_Id block_id

fun supply_run :: "'i id_supplier \<Rightarrow> supply_call list \<Rightarrow> 'i \<Rightarrow> (block_id list \<times> 'i) result" where
  "supply_run supplier [] i = Inr ([], i)"
| "supply_run supplier (Next_Id # cs) i =
     bind_result (supply_next supplier i) (\<lambda>(x, i').
     bind_result (supply_run supplier cs i') (\<lambda>(xs, i''). Inr (x # xs, i'')))"
| "supply_run supplier (Free_Id b # cs) i = supply_run supplier cs (supply_free supplier b i)"

fun count_next :: "supply_call list \<Rightarrow> nat" where
  "count_next [] = 0"
| "count_next (Next_Id # cs) = Suc (count_next cs)"
| "count_next (Free_Id b # cs) = count_next cs"

text \<open>
  \<open>fresh i\<close> are the ids that may still be handed out from state \<open>i\<close>, \<open>remaining i\<close> a
  number of calls that are sure to succeed.
\<close>

locale id_supply =
  fixes supplier :: "'i id_supplier"
    and fresh :: "'i \<Rightarrow> block_id set"
    and remaining :: "'i \<Rightarrow> nat"
  assumes next_ok: "0 < remaining i \<Longrightarrow> \<exists>x i'. supply_next supplier i = Inr (x, i')
      \<and> x \<in> fresh i \<and> fresh i' \<subseteq> fresh i - {x} \<and> remaining i' = remaining i - 1"
    and free_fresh: "fresh (supply_free supplier b i) = fresh i"
    and free_remaining: "remaining (supply_free supplier b i) = remaining i"
begin

lemma next_cases:
  assumes "0 < remaining i"
  obtains x i' where "supply_next supplier i = Inr (x, i')" "x \<in> fresh i" "x \<notin> fresh i'"
    "fresh i' \<subseteq> fresh i" "remaining i' = remaining i - 1"
  using next_ok [OF assms] by blast

lemma run_distinct:
  "count_next cs \<le> remaining i \<Longrightarrow>
     \<exists>xs i'. supply_run supplier cs i = Inr (xs, i') \<and> length xs = count_next cs \<and>
       distinct xs \<and> set xs \<subseteq> fresh i \<and> remaining i' = remaining i - count_next cs"
proof (induction cs arbitrary: i rule: count_next.induct)
  case 1
  then show ?case by simp
next
  case (2 cs)
  then have "0 < remaining i" by simp
  then obtain x i' where n: "supply_next supplier i = Inr (x, i')" "x \<in> fresh i" "x \<notin> fresh i'"
    "fresh i' \<subseteq> fresh i" "remaining i' = remaining i - 1"
    by (rule next_cases)
  with "2.prems" have "count_next cs \<le> remaining i'" by simp
  then obtain xs i'' where "supply_run supplier cs i' = Inr (xs, i'')" "length xs = count_next cs"
    "distinct xs" "set xs \<subseteq> fresh i'" "remaining i'' = remaining i' - count_next cs"
    using "2.IH" by blast
  with n show ?case by auto
next
  case (3 b cs)
  then show ?case
    using "3.IH" [of "supply_free supplier b i"] by (simp add: free_fresh free_remaining)
qed

end

section \<open>Both implementations keep it\<close>

definition counter_remaining :: "counter \<Rightarrow> nat" where
  "counter_remaining n = (if n = 0 then 0 else 2 ^ 64 - unat n)"

definition counter_fresh :: "counter \<Rightarrow> block_id set" where
  "counter_fresh n = {x. n \<noteq> 0 \<and> n \<le> x}"

lemma unat_u64_Suc: "n + 1 \<noteq> 0 \<Longrightarrow> unat (n + 1) = Suc (unat n)" for n :: u64
  by (metis Suc_eq_plus1 unatSuc add.commute)

interpretation counter: id_supply CounterSupplier counter_fresh counter_remaining
proof
  fix i :: counter and b
  assume pos: "0 < counter_remaining i"
  then have ne: "i \<noteq> 0" by (auto simp: counter_remaining_def)
  have sub: "counter_fresh (i + 1) \<subseteq> counter_fresh i - {i}"
  proof
    fix x assume "x \<in> counter_fresh (i + 1)"
    then have "i + 1 \<noteq> 0" "i + 1 \<le> x" by (auto simp: counter_fresh_def)
    then have "unat i < unat x" by (simp add: word_le_nat_alt unat_u64_Suc)
    then show "x \<in> counter_fresh i - {i}"
      using ne by (auto simp: counter_fresh_def word_le_nat_alt)
  qed
  have rem: "counter_remaining (i + 1) = counter_remaining i - 1"
  proof (cases "i + 1 = 0")
    case True
    then have "i = - 1" by (simp add: eq_neg_iff_add_eq_0)
    then have "unat i = 2 ^ 64 - 1" by (simp add: unsigned_minus_1_eq_mask mask_eq_exp_minus_1)
    with True ne show ?thesis by (simp add: counter_remaining_def)
  next
    case False
    with ne show ?thesis by (simp add: counter_remaining_def unat_u64_Suc)
  qed
  show "\<exists>x i'. supply_next CounterSupplier i = Inr (x, i') \<and> x \<in> counter_fresh i \<and>
      counter_fresh i' \<subseteq> counter_fresh i - {x} \<and> counter_remaining i' = counter_remaining i - 1"
    using ne sub rem by (auto simp: CounterSupplier_def counter_next_id_def counter_fresh_def)
qed (simp_all add: CounterSupplier_def counter_free_id_def)

definition updating_remaining :: "updating \<Rightarrow> nat" where
  "updating_remaining u = 2 ^ 56 - unat (high_order_bits u)"

definition updating_fresh :: "updating \<Rightarrow> block_id set" where
  "updating_fresh u = {x. unat (high_order_bits u) \<le> unat x div 256 \<and>
     unat x mod 256 = unat (fixed_low_order_bits u)}"

lemma updating_id_value:
  assumes "unat h < 2 ^ 56"
  shows "unat (push_bit 8 h + ucast f :: u64) = unat h * 256 + unat (f :: u8)"
proof -
  have f: "unat f < 256" using unsigned_less [of f] by simp
  have "unat (push_bit 8 h) = unat h * 256"
    using assms by (simp add: push_bit_eq_mult unat_mult_lem [THEN iffD1] unat_word_ariths)
  then show ?thesis
    using assms f by (simp add: unat_word_ariths unat_ucast_u8)
qed

interpretation updating: id_supply UpdatingIdSupplier updating_fresh updating_remaining
proof
  fix u :: updating and b
  assume "0 < updating_remaining u"
  then have h: "unat (high_order_bits u) < 2 ^ 56" by (simp add: updating_remaining_def)
  let ?id = "push_bit 8 (high_order_bits u) + ucast (fixed_low_order_bits u) :: u64"
  have f: "unat (fixed_low_order_bits u) < 256"
    using unsigned_less [of "fixed_low_order_bits u"] by simp
  have id: "unat ?id = unat (high_order_bits u) * 256 + unat (fixed_low_order_bits u)"
    by (rule updating_id_value [OF h])
  have suc: "unat (high_order_bits u + 1) = Suc (unat (high_order_bits u))"
    using h by (simp add: unat_word_ariths)
  show "\<exists>x u'. supply_next UpdatingIdSupplier u = Inr (x, u') \<and> x \<in> updating_fresh u \<and>
      updating_fresh u' \<subseteq> updating_fresh u - {x} \<and> updating_remaining u' = updating_remaining u - 1"
    using id suc f
    by (auto simp: UpdatingIdSupplier_def updating_next_id_def updating_fresh_def
        updating_remaining_def Let_def)
qed (simp_all add: UpdatingIdSupplier_def updating_free_id_def updating_fresh_def
    updating_remaining_def)

section \<open>Properties\<close>

lemma counter_run_from:
  "1 \<le> k \<Longrightarrow> k \<le> 2 ^ 64 \<Longrightarrow>
     supply_run CounterSupplier cs (word_of_nat k) =
       (if k + count_next cs \<le> 2 ^ 64
        then Inr (map word_of_nat [k..<k + count_next cs], word_of_nat (k + count_next cs))
        else Inl (Thrown ''Exhausted id space''))"
proof (induction cs arbitrary: k rule: count_next.induct)
  case 1
  then show ?case by simp
next
  case (2 cs)
  have zero: "word_of_nat k = (0 :: u64) \<longleftrightarrow> k = 2 ^ 64"
    using "2.prems" by (auto simp: word_of_nat_eq_0_iff dvd_def)
  have suc: "word_of_nat k + 1 = (word_of_nat (Suc k) :: u64)" by simp
  show ?case
  proof (cases "k = 2 ^ 64")
    case True
    with zero show ?thesis by (simp add: CounterSupplier_def counter_next_id_def)
  next
    case False
    then have "Suc k \<le> 2 ^ 64" using "2.prems" by simp
    with "2.IH" [of "Suc k"] False zero suc show ?thesis
      by (simp add: CounterSupplier_def counter_next_id_def upt_conv_Cons add.commute Suc_le_eq)
  qed
next
  case (3 b cs)
  then show ?case by (simp add: CounterSupplier_def counter_free_id_def)
qed

text \<open>
  \<open>CounterSupplier\<close> completely: whatever ids are freed in between, the first
  \<open>n\<close> calls of \<open>next_id\<close> hand out 1, 2, ..., \<open>n\<close>, never 0, and the
  call after the largest 64-bit id throws instead of wrapping round to an id in use.
\<close>

theorem counter_supplier_run:
  "supply_run CounterSupplier cs counter_init =
     (if count_next cs < 2 ^ 64
      then Inr (map word_of_nat [1..<Suc (count_next cs)], word_of_nat (Suc (count_next cs)))
      else Inl (Thrown ''Exhausted id space''))"
  using counter_run_from [of 1 cs] by (simp add: counter_init_def Suc_le_eq)

text \<open>
  A use of an \<open>UpdatingIdSupplier\<close> also reports the ids of blocks received from other
  nodes.
\<close>

datatype updating_call = Own_Next | Own_Free block_id | Seen block_id

fun updating_run :: "updating_call list \<Rightarrow> updating \<Rightarrow> (block_id list \<times> updating) result" where
  "updating_run [] u = Inr ([], u)"
| "updating_run (Own_Next # cs) u =
     bind_result (updating_next_id u) (\<lambda>(x, u').
     bind_result (updating_run cs u') (\<lambda>(xs, u''). Inr (x # xs, u'')))"
| "updating_run (Own_Free b # cs) u = updating_run cs (updating_free_id b u)"
| "updating_run (Seen b # cs) u = updating_run cs (update_if_less_than b u)"

lemma low_byte_of_id: "(push_bit 8 h + ucast f :: u64) AND 0xFF = ucast (f :: u8)"
proof -
  have "push_bit 8 h + ucast f = (push_bit 8 h OR ucast f :: u64)"
    by (rule disjunctive_add) (auto simp: bit_simps dest: bit_imp_le_length)
  moreover have "(0xFF :: u64) = mask 8" by (simp add: mask_eq_exp_minus_1)
  moreover have "(push_bit 8 h OR ucast f :: u64) AND mask 8 = ucast f"
    by (rule bit_word_eqI) (auto simp: bit_simps dest: bit_imp_le_length)
  ultimately show ?thesis by (simp only:)
qed

lemma updating_run_low_byte:
  "updating_run cs u = Inr (xs, u') \<Longrightarrow>
     \<forall>x \<in> set xs. x AND 0xFF = ucast (fixed_low_order_bits u)"
proof (induction cs u arbitrary: xs rule: updating_run.induct)
  case (2 cs u)
  then show ?case
    by (auto simp: updating_next_id_def Let_def result_simps low_byte_of_id split: prod.splits)
qed (auto simp: updating_free_id_def update_if_less_than_def Let_def split: if_splits)

text \<open>
  C35. Two nodes with different node ids never hand out the same block id, however their
  calls, frees and received blocks are interleaved and even after the 56 high-order bits wrap.
\<close>

theorem nodes_never_collide:
  assumes "updating_run cs (updating_init f) = Inr (xs, u)"
    and "updating_run ds (updating_init g) = Inr (ys, v)"
    and "f \<noteq> g"
  shows "set xs \<inter> set ys = {}"
proof -
  have "\<forall>x \<in> set xs. x AND 0xFF = (ucast f :: u64)" "\<forall>y \<in> set ys. y AND 0xFF = (ucast g :: u64)"
    using updating_run_low_byte [OF assms(1)] updating_run_low_byte [OF assms(2)]
    by (simp_all add: updating_init_def)
  moreover have "ucast f \<noteq> (ucast g :: u64)"
    using assms(3) by (metis unat_ucast_u8 word_unat_eq_iff)
  ultimately show ?thesis by fastforce
qed

theorem nodes_never_collide_witness:
  "\<exists>xs u ys v. updating_run [Own_Next, Seen 1025, Own_Next] (updating_init 1) = Inr (xs, u) \<and>
     updating_run [Own_Next, Seen 257, Own_Next] (updating_init 2) = Inr (ys, v) \<and>
     xs = [257, 1281] \<and> ys = [258, 514] \<and> set xs \<inter> set ys = {}"
proof -
  let ?xs = "[257, 1281] :: block_id list" and ?ys = "[258, 514] :: block_id list"
  have x: "updating_run [Own_Next, Seen 1025, Own_Next] (updating_init 1)
      = Inr (?xs, \<lparr>fixed_low_order_bits = 1, high_order_bits = 6\<rparr>)"
    by (simp add: updating_init_def updating_next_id_def update_if_less_than_def Let_def)
  have y: "updating_run [Own_Next, Seen 257, Own_Next] (updating_init 2)
      = Inr (?ys, \<lparr>fixed_low_order_bits = 2, high_order_bits = 3\<rparr>)"
    by (simp add: updating_init_def updating_next_id_def update_if_less_than_def Let_def)
  have "set ?xs \<inter> set ?ys = {}" by (rule nodes_never_collide [OF x y]) simp
  with x y show ?thesis by blast
qed

lemma updating_id_high:
  assumes "unat h < 2 ^ 56"
  shows "unat (push_bit 8 h + ucast (f :: u8) :: u64) div 256 = unat h"
    and "unat (push_bit 8 h + ucast f :: u64) mod 256 = unat f"
proof -
  have "unat f < 256" using unsigned_less [of f] by simp
  then show "unat (push_bit 8 h + ucast f :: u64) div 256 = unat h"
    and "unat (push_bit 8 h + ucast f :: u64) mod 256 = unat f"
    using updating_id_value [OF assms, of f] by simp_all
qed

lemma unat_high_order: "unat (drop_bit 8 b) = unat b div 256" for b :: u64
  by (simp add: drop_bit_eq_div unat_div)

lemma less_by_bytes:
  "b < x \<longleftrightarrow> unat b div 256 < unat x div 256 \<or>
     (unat b div 256 = unat x div 256 \<and> unat b mod 256 < unat x mod 256)" for b x :: u64
proof -
  have "unat b = 256 * (unat b div 256) + unat b mod 256" "unat x = 256 * (unat x div 256) + unat x mod 256"
    by simp_all
  moreover have "unat b mod 256 < 256" "unat x mod 256 < 256" by simp_all
  ultimately show ?thesis unfolding word_less_nat_alt by linarith
qed

text \<open>
  C36. After a block of another node has been seen, the next id is greater than that block's,
  except when the block has just the high-order bits that come next and low-order bits not below the
  node's own. Within the 56 bits of the counter there is no other case.
\<close>

theorem next_id_after_seen:
  assumes "unat (high_order_bits u) < 2 ^ 56" and "unat b div 256 < 2 ^ 56 - 1"
    and "updating_next_id (update_if_less_than b u) = Inr (x, u')"
  shows "b < x \<longleftrightarrow> \<not> (unat b div 256 = unat (high_order_bits u) \<and>
     unat (fixed_low_order_bits u) \<le> unat b mod 256)"
proof -
  let ?h = "high_order_bits u" and ?f = "fixed_low_order_bits u"
  have less: "?h < drop_bit 8 b \<longleftrightarrow> unat ?h < unat b div 256"
    by (simp add: word_less_nat_alt unat_high_order)
  have suc: "unat (drop_bit 8 b + 1) = Suc (unat b div 256)"
    using assms(2) by (simp add: unat_word_ariths unat_high_order)
  show ?thesis
  proof (cases "unat ?h < unat b div 256")
    case True
    then have "x = push_bit 8 (drop_bit 8 b + 1) + ucast ?f"
      using assms(3) less by (simp add: update_if_less_than_def updating_next_id_def Let_def)
    moreover have "unat (drop_bit 8 b + 1) < 2 ^ 56" using suc assms(2) by simp
    ultimately have "unat x div 256 = Suc (unat b div 256)" using updating_id_high(1) suc by metis
    then show ?thesis unfolding less_by_bytes using True by simp
  next
    case False
    then have "x = push_bit 8 ?h + ucast ?f"
      using assms(3) less by (simp add: update_if_less_than_def updating_next_id_def Let_def)
    then have "unat x div 256 = unat ?h" "unat x mod 256 = unat ?f"
      using updating_id_high [OF assms(1)] by simp_all
    then show ?thesis unfolding less_by_bytes using False by auto
  qed
qed

theorem next_id_after_seen_witness:
  "\<exists>x y u' v'. updating_next_id (update_if_less_than 1025 (updating_init 1)) = Inr (x, u') \<and> 1025 < x \<and>
     updating_next_id (update_if_less_than 258 (updating_init 1)) = Inr (y, v') \<and> \<not> 258 < y"
proof -
  let ?u = "updating_init 1"
  obtain x u' where x: "updating_next_id (update_if_less_than 1025 ?u) = Inr (x, u')"
    by (simp add: updating_next_id_def Let_def)
  obtain y v' where y: "updating_next_id (update_if_less_than 258 ?u) = Inr (y, v')"
    by (simp add: updating_next_id_def Let_def)
  have "unat (high_order_bits ?u) < 2 ^ 56" by (simp add: updating_init_def)
  from next_id_after_seen [OF this _ x] next_id_after_seen [OF this _ y] x y
  show ?thesis by (simp add: updating_init_def)
qed

end
