(* ===== verification/BlockManager.thy ===== *)
theory BlockManager
  imports BlockData IdSupplier
begin

text \<open>
  Block storage: the interface \<open>BlockManager\<close> (\<open>block_manager.hpp\<close>) as a record of its
  virtual methods, the contract its clients rely on as the locale \<open>block_store\<close>, and
  \<open>MemoryBlockManager\<close> (\<open>memory_block_manager.cc\<close>), which keeps blocks in a hash map from ids
  to \<open>shared_ptr\<close>s. \<open>BlockRequest\<close> and \<open>BlockResponse\<close> are the vectors they wrap; a null
  \<open>shared_ptr\<close> is \<open>None\<close>. The contract is an abstraction to a finite map from ids to data:
  creating a block binds a fresh id, freeing a bound id unbinds it, and a request for different
  bound ids is answered in the order of the request without changing the store. \<open>PingStore\<close> shows
  that blocks kept in pings keep the same contract.
\<close>

section \<open>The interface and its contract\<close>

type_synonym block_request = "block_id list"
type_synonym block_response = "block option list"

record 's block_manager =
  bm_create :: "block_data \<Rightarrow> 's \<Rightarrow> (block \<times> 's) result"
  bm_free :: "block_id \<Rightarrow> 's \<Rightarrow> 's"
  bm_get :: "block_request \<Rightarrow> 's \<Rightarrow> (block_response \<times> 's) result"

text \<open>The block stored under an id.\<close>

abbreviation mk_block :: "block_id \<Rightarrow> block_data \<Rightarrow> block" where
  "mk_block i d \<equiv> \<lparr>get_id = i, get_data = d\<rparr>"

locale block_store =
  fixes bm :: "'s block_manager"
    and lookup :: "'s \<Rightarrow> block_id \<Rightarrow> block_data option"
    and room :: "'s \<Rightarrow> nat"
    and wf :: "'s \<Rightarrow> bool"
  assumes create_ok: "wf s \<Longrightarrow> 0 < room s \<Longrightarrow> \<exists>i s'. bm_create bm d s = Inr (mk_block i d, s')
      \<and> lookup s i = None \<and> lookup s' = (lookup s)(i \<mapsto> d) \<and> wf s' \<and> room s' = room s - 1"
    and free_lookup: "wf s \<Longrightarrow> lookup s i \<noteq> None \<Longrightarrow> lookup (bm_free bm i s) = (lookup s)(i := None)"
    and free_wf: "wf s \<Longrightarrow> lookup s i \<noteq> None \<Longrightarrow> wf (bm_free bm i s)"
    and free_room: "wf s \<Longrightarrow> lookup s i \<noteq> None \<Longrightarrow> room (bm_free bm i s) = room s"
    and get_ok: "wf s \<Longrightarrow> distinct ids \<Longrightarrow> set ids \<subseteq> dom (lookup s) \<Longrightarrow>
      bm_get bm ids s = Inr (map (\<lambda>i. Some (mk_block i (the (lookup s i)))) ids, s)"
begin

lemma create_cases:
  assumes "wf s" and "0 < room s"
  obtains i s' where "bm_create bm d s = Inr (mk_block i d, s')" "lookup s i = None"
    "lookup s' = (lookup s)(i \<mapsto> d)" "wf s'" "room s' = room s - 1"
  using create_ok [OF assms, of d] by blast

lemmas free_simps = free_lookup free_wf free_room

end

section \<open>MemoryBlockManager\<close>

record 'i memory_manager =
  id_state :: 'i
  block_map :: "block_id \<Rightarrow> block option option"

definition mem_init :: "'i \<Rightarrow> 'i memory_manager" where
  "mem_init i = \<lparr>id_state = i, block_map = Map.empty\<rparr>"

definition mem_create_block ::
  "'i id_supplier \<Rightarrow> block_data \<Rightarrow> 'i memory_manager \<Rightarrow> (block \<times> 'i memory_manager) result" where
  "mem_create_block supplier data m =
     bind_result (supply_next supplier (id_state m)) (\<lambda>(next_id, i').
       let block = mk_block next_id data
       in Inr (block, m\<lparr>id_state := i', block_map := (block_map m)(get_id block \<mapsto> Some block)\<rparr>))"

definition mem_free_block ::
  "'i id_supplier \<Rightarrow> block_id \<Rightarrow> 'i memory_manager \<Rightarrow> 'i memory_manager" where
  "mem_free_block supplier block_id m =
     m\<lparr>id_state := supply_free supplier block_id (id_state m),
       block_map := (block_map m)(block_id := None)\<rparr>"

text \<open>\<open>map_[id]\<close> binds a missing id to a null pointer before it returns it.\<close>

definition map_index :: "('k \<rightharpoonup> 'v option) \<Rightarrow> 'k \<Rightarrow> 'v option \<times> ('k \<rightharpoonup> 'v option)" where
  "map_index m k = (case m k of Some p \<Rightarrow> (p, m) | None \<Rightarrow> (None, m(k \<mapsto> None)))"

fun mem_get_loop ::
  "block_id list \<Rightarrow> (block_id \<rightharpoonup> block option) \<Rightarrow> block_response \<Rightarrow>
     block_response \<times> (block_id \<rightharpoonup> block option)" where
  "mem_get_loop [] m retrieved_blocks = (retrieved_blocks, m)"
| "mem_get_loop (i # is) m retrieved_blocks =
     (case map_index m i of (p, m') \<Rightarrow> mem_get_loop is m' (retrieved_blocks @ [p]))"

definition mem_get_blocks ::
  "block_request \<Rightarrow> 'i memory_manager \<Rightarrow> (block_response \<times> 'i memory_manager) result" where
  "mem_get_blocks request m =
     (case mem_get_loop request (block_map m) [] of
        (retrieved_blocks, map') \<Rightarrow> Inr (retrieved_blocks, m\<lparr>block_map := map'\<rparr>))"

definition mem_num_blocks :: "'i memory_manager \<Rightarrow> nat" where
  "mem_num_blocks m = card (dom (block_map m))"

text \<open>
  \<open>to_string\<close> visits the entries in the hash map's iteration order, which the standard
  leaves open: the entries are an argument here, in the order they are visited.
\<close>

fun mem_to_string_loop ::
  "bool \<Rightarrow> (block_id \<times> block option) list \<Rightarrow> string \<Rightarrow> string result" where
  "mem_to_string_loop first_entry [] stringified = Inr (stringified @ '']'')"
| "mem_to_string_loop first_entry ((i, p) # es) stringified =
     bind_result (deref p) (\<lambda>b.
       mem_to_string_loop False es
         ((if first_entry then stringified else stringified @ '', '') @ block_to_string b))"

definition mem_to_string :: "(block_id \<times> block option) list \<Rightarrow> string result" where
  "mem_to_string entries = mem_to_string_loop True entries ''[''"

definition MemoryBlockManager :: "'i id_supplier \<Rightarrow> 'i memory_manager block_manager" where
  "MemoryBlockManager supplier =
     \<lparr>bm_create = mem_create_block supplier, bm_free = mem_free_block supplier,
      bm_get = mem_get_blocks\<rparr>"

section \<open>MemoryBlockManager keeps the contract\<close>

definition mem_lookup :: "'i memory_manager \<Rightarrow> block_id \<Rightarrow> block_data option" where
  "mem_lookup m i = (case block_map m i of Some (Some b) \<Rightarrow> Some (get_data b) | _ \<Rightarrow> None)"

definition mem_wf :: "('i \<Rightarrow> block_id set) \<Rightarrow> 'i memory_manager \<Rightarrow> bool" where
  "mem_wf fresh m \<longleftrightarrow>
     (\<forall>i b. block_map m i = Some (Some b) \<longrightarrow> get_id b = i) \<and>
     (\<forall>i. block_map m i \<noteq> Some None) \<and>
     dom (mem_lookup m) \<inter> fresh (id_state m) = {}"

lemma mem_lookup_Some_iff:
  "mem_lookup m i = Some d \<longleftrightarrow> (\<exists>b. block_map m i = Some (Some b) \<and> get_data b = d)"
  by (auto simp: mem_lookup_def split: option.splits)

lemma mem_num_blocks_wf: "mem_wf fresh m \<Longrightarrow> mem_num_blocks m = card (dom (mem_lookup m))"
proof -
  assume "mem_wf fresh m"
  then have "dom (mem_lookup m) = dom (block_map m)"
    by (auto simp: mem_wf_def mem_lookup_def split: option.splits)
  then show ?thesis by (simp add: mem_num_blocks_def)
qed

lemma mem_get_loop_bound:
  "\<forall>i \<in> set is. \<exists>b. m i = Some (Some b) \<Longrightarrow>
     mem_get_loop is m acc = (acc @ map (\<lambda>i. the (m i)) is, m)"
  by (induction "is" m acc rule: mem_get_loop.induct) (auto simp: map_index_def)

lemma mem_get_bound:
  assumes "mem_wf fresh m" and "set is \<subseteq> dom (mem_lookup m)"
  shows "mem_get_blocks is m = Inr (map (\<lambda>i. Some (mk_block i (the (mem_lookup m i)))) is, m)"
proof -
  have entry: "block_map m i = Some (Some (mk_block i (the (mem_lookup m i))))" if "i \<in> set is" for i
  proof -
    from that assms(2) obtain d where "mem_lookup m i = Some d" by blast
    then obtain b where "block_map m i = Some (Some b)" "get_data b = d"
      by (auto simp: mem_lookup_Some_iff)
    moreover from this(1) assms(1) have "get_id b = i" by (auto simp: mem_wf_def)
    ultimately show ?thesis using \<open>mem_lookup m i = Some d\<close> by (auto intro: block.equality)
  qed
  then have "mem_get_loop is (block_map m) [] = (map (\<lambda>i. the (block_map m i)) is, block_map m)"
    by (subst mem_get_loop_bound) auto
  with entry show ?thesis by (simp add: mem_get_blocks_def)
qed

lemma mem_lookup_free:
  "mem_lookup (mem_free_block supplier i m) = (mem_lookup m)(i := None)"
  by (rule ext) (simp add: mem_lookup_def mem_free_block_def)

locale memory_store = id_supply supplier fresh remaining
  for supplier :: "'i id_supplier" and fresh remaining

sublocale memory_store \<subseteq> block_store "MemoryBlockManager supplier" mem_lookup
  "\<lambda>m. remaining (id_state m)" "mem_wf fresh"
proof
  fix m :: "'i memory_manager" and d
  assume wf: "mem_wf fresh m" and "0 < remaining (id_state m)"
  then obtain x i' where n: "supply_next supplier (id_state m) = Inr (x, i')"
    "x \<in> fresh (id_state m)" "x \<notin> fresh i'" "fresh i' \<subseteq> fresh (id_state m)"
    "remaining i' = remaining (id_state m) - 1"
    by (auto elim: next_cases)
  let ?m' = "m\<lparr>id_state := i', block_map := (block_map m)(x \<mapsto> Some (mk_block x d))\<rparr>"
  have look: "mem_lookup ?m' = (mem_lookup m)(x \<mapsto> d)"
    by (rule ext) (simp add: mem_lookup_def)
  have "mem_lookup m x = None" using wf n(2) by (auto simp: mem_wf_def domIff)
  moreover have "mem_wf fresh ?m'"
    using wf n(3,4) look by (auto simp: mem_wf_def)
  ultimately show "\<exists>i s'. bm_create (MemoryBlockManager supplier) d m = Inr (mk_block i d, s') \<and>
      mem_lookup m i = None \<and> mem_lookup s' = (mem_lookup m)(i \<mapsto> d) \<and> mem_wf fresh s' \<and>
      remaining (id_state s') = remaining (id_state m) - 1"
    using n(1,5) look by (auto simp: MemoryBlockManager_def mem_create_block_def Let_def)
next
  fix m :: "'i memory_manager" and i
  assume wf: "mem_wf fresh m"
  show "mem_lookup (bm_free (MemoryBlockManager supplier) i m) = (mem_lookup m)(i := None)"
    by (simp add: MemoryBlockManager_def mem_lookup_free)
  have "dom (mem_lookup (mem_free_block supplier i m)) \<subseteq> dom (mem_lookup m)"
    unfolding mem_lookup_free by auto
  moreover have "fresh (id_state (mem_free_block supplier i m)) = fresh (id_state m)"
    by (simp add: mem_free_block_def free_fresh)
  moreover have "\<forall>j b. block_map (mem_free_block supplier i m) j = Some (Some b) \<longrightarrow> get_id b = j"
    "\<forall>j. block_map (mem_free_block supplier i m) j \<noteq> Some None"
    using wf by (auto simp: mem_wf_def mem_free_block_def)
  ultimately show "mem_wf fresh (bm_free (MemoryBlockManager supplier) i m)"
    using wf unfolding mem_wf_def by (simp add: MemoryBlockManager_def) blast
  show "remaining (id_state (bm_free (MemoryBlockManager supplier) i m)) = remaining (id_state m)"
    by (simp add: MemoryBlockManager_def mem_free_block_def free_remaining)
next
  fix m :: "'i memory_manager" and ids
  assume "mem_wf fresh m" and "set ids \<subseteq> dom (mem_lookup m)"
  then show "bm_get (MemoryBlockManager supplier) ids m =
      Inr (map (\<lambda>i. Some (mk_block i (the (mem_lookup m i)))) ids, m)"
    by (simp add: MemoryBlockManager_def mem_get_bound)
qed

text \<open>Either supplier can serve the manager; the in-memory program uses the counter.\<close>

interpretation counter_memory: memory_store CounterSupplier counter_fresh counter_remaining
  by unfold_locales

interpretation updating_memory: memory_store UpdatingIdSupplier updating_fresh updating_remaining
  by unfold_locales

section \<open>Properties\<close>

lemma mem_wf_init: "mem_wf fresh (mem_init i)"
  by (simp add: mem_wf_def mem_init_def mem_lookup_def dom_def)

text \<open>
  C33. \<open>MemoryBlockManager\<close> behaves as a map from ids to data: while ids remain, creating
  a block binds an id that no stored block has, a request for it returns exactly that block, every
  other binding is kept, and freeing the block restores the map there was before.
\<close>

theorem memory_manager_is_a_map:
  assumes "mem_wf counter_fresh m" and "0 < counter_remaining (id_state m)"
  shows "\<exists>i m'. mem_create_block CounterSupplier d m = Inr (mk_block i d, m') \<and>
      mem_lookup m i = None \<and> mem_wf counter_fresh m' \<and>
      mem_get_blocks [i] m' = Inr ([Some (mk_block i d)], m') \<and>
      (\<forall>j. j \<noteq> i \<longrightarrow> mem_lookup m' j = mem_lookup m j) \<and>
      mem_lookup (mem_free_block CounterSupplier i m') = mem_lookup m"
proof -
  obtain i m' where c: "bm_create (MemoryBlockManager CounterSupplier) d m = Inr (mk_block i d, m')"
    "mem_lookup m i = None" "mem_lookup m' = (mem_lookup m)(i \<mapsto> d)" "mem_wf counter_fresh m'"
    by (rule counter_memory.create_cases [OF assms])
  have "mem_get_blocks [i] m' = Inr ([Some (mk_block i d)], m')"
    using mem_get_bound [OF c(4), of "[i]"] c(3) by simp
  moreover have "mem_lookup (mem_free_block CounterSupplier i m') = mem_lookup m"
    using c(2,3) by (simp add: mem_lookup_free fun_upd_idem)
  ultimately show ?thesis
    using c by (auto simp: MemoryBlockManager_def)
qed

theorem memory_manager_is_a_map_witness:
  "\<exists>i m'. mem_create_block CounterSupplier (LinkBlockData [7]) (mem_init 5) =
      Inr (mk_block i (LinkBlockData [7]), m') \<and> mem_lookup m' i = Some (LinkBlockData [7])"
proof -
  have "0 < counter_remaining (id_state (mem_init (5 :: counter)))"
    by (simp add: counter_remaining_def mem_init_def)
  from memory_manager_is_a_map [OF mem_wf_init this, of "LinkBlockData [7]"]
  obtain i m' where m': "mem_create_block CounterSupplier (LinkBlockData [7]) (mem_init 5) =
      Inr (mk_block i (LinkBlockData [7]), m')"
    by blast
  then have "mem_lookup m' i = Some (LinkBlockData [7])"
    by (auto simp: mem_create_block_def mem_init_def CounterSupplier_def counter_next_id_def
        Let_def mem_lookup_def)
  with m' show ?thesis by blast
qed

text \<open>
  C34. Asking for an id that is not stored changes the store: the answer is a null pointer,
  and the lookup leaves a null entry behind that \<open>num_blocks\<close> counts and that
  \<open>to_string\<close> then dereferences.
\<close>

theorem missing_id_leaves_null_entry:
  assumes "finite (dom (block_map m))" and "block_map m i = None"
  shows "\<exists>m'. mem_get_blocks [i] m = Inr ([None], m') \<and> mem_num_blocks m' = mem_num_blocks m + 1 \<and>
      mem_lookup m' = mem_lookup m \<and>
      (\<forall>es. (i, None) \<in> set es \<longrightarrow> mem_to_string es = Inl Null_Deref)"
proof -
  have str: "(i, None) \<in> set es \<Longrightarrow> mem_to_string_loop f es acc = Inl Null_Deref" for es f acc
  proof (induction f es acc rule: mem_to_string_loop.induct)
    case (2 first_entry j p es stringified)
    then show ?case by (cases p) auto
  qed simp
  let ?m' = "m\<lparr>block_map := (block_map m)(i \<mapsto> None)\<rparr>"
  have "mem_get_blocks [i] m = Inr ([None], ?m')"
    using assms(2) by (simp add: mem_get_blocks_def map_index_def)
  moreover have "mem_num_blocks ?m' = mem_num_blocks m + 1"
    using assms by (simp add: mem_num_blocks_def domIff)
  moreover have "mem_lookup ?m' = mem_lookup m"
    using assms(2) by (auto simp: mem_lookup_def)
  ultimately show ?thesis using str by (auto simp: mem_to_string_def)
qed

theorem missing_id_leaves_null_entry_witness:
  "\<exists>m'. mem_get_blocks [9] (mem_init (1 :: counter)) = Inr ([None], m') \<and> mem_num_blocks m' = 1"
  using missing_id_leaves_null_entry [of "mem_init (1 :: counter)" 9]
  by (auto simp: mem_init_def mem_num_blocks_def)

end
