(* ===== verification/Async.thy ===== *)
theory Async
  imports BlockManager
begin

text \<open>
  Waiting for blocks that come by: \<open>AsyncResponse\<close> (\<open>async_response.cc\<close>) and
  \<open>AsyncBlockManager\<close> (\<open>async_block_manager.cc\<close>). \<open>get_blocks\<close> is split where it
  blocks: \<open>get_blocks_begin\<close> registers a response under every id of the request,
  \<open>get_blocks_end\<close> is the value of its future, \<open>None\<close> while the caller waits. Responses are
  shared between the vectors of the map, so they live in a heap and are named by their address.
\<close>

section \<open>AsyncResponse\<close>

record async_response =
  waiting_on :: "block_id set"
  resp_blocks :: "block list"
  promise :: "block list option"

definition notify_if_complete :: "async_response \<Rightarrow> async_response result" where
  "notify_if_complete r =
     (if waiting_on r = {}
      then if promise r \<noteq> None then Inl (Std_Exception ''future_error'')
           else Inr (r\<lparr>promise := Some (resp_blocks r)\<rparr>)
      else Inr r)"

definition AsyncResponse_init :: "block_request \<Rightarrow> async_response result" where
  "AsyncResponse_init request =
     notify_if_complete \<lparr>waiting_on = set request, resp_blocks = [], promise = None\<rparr>"

definition update :: "block \<Rightarrow> async_response \<Rightarrow> async_response result" where
  "update b r =
     (if get_id b \<notin> waiting_on r then Inr r
      else notify_if_complete
             (r\<lparr>waiting_on := waiting_on r - {get_id b}, resp_blocks := resp_blocks r @ [b]\<rparr>))"

section \<open>AsyncBlockManager\<close>

record async_manager =
  responses :: "async_response list"
  waiting :: "block_id \<Rightarrow> nat list option"

definition async_init :: async_manager where
  "async_init = \<lparr>responses = [], waiting = Map.empty\<rparr>"

fun update_all :: "block \<Rightarrow> nat list \<Rightarrow> async_response list \<Rightarrow> async_response list result" where
  "update_all b [] rs = Inr rs"
| "update_all b (p # ps) rs =
     bind_result (update b (rs ! p)) (\<lambda>r. update_all b ps (rs[p := r]))"

definition async_process :: "block \<Rightarrow> async_manager \<Rightarrow> async_manager result" where
  "async_process b m =
     (case waiting m (get_id b) of
        None \<Rightarrow> Inr m
      | Some waiting_vec \<Rightarrow>
          bind_result (update_all b waiting_vec (responses m)) (\<lambda>rs.
            Inr (m\<lparr>responses := rs, waiting := (waiting m)(get_id b := None)\<rparr>)))"

text \<open>\<open>waiting_[id]\<close> makes an empty vector for a new id.\<close>

fun push_waiting ::
  "block_id list \<Rightarrow> nat \<Rightarrow> (block_id \<Rightarrow> nat list option) \<Rightarrow> (block_id \<Rightarrow> nat list option)" where
  "push_waiting [] p w = w"
| "push_waiting (i # is) p w =
     push_waiting is p (w(i \<mapsto> (case w i of None \<Rightarrow> [] | Some v \<Rightarrow> v) @ [p]))"

definition get_blocks_begin :: "block_request \<Rightarrow> async_manager \<Rightarrow> (nat \<times> async_manager) result" where
  "get_blocks_begin request m =
     bind_result (AsyncResponse_init request) (\<lambda>r.
       let p = length (responses m)
       in Inr (p, m\<lparr>responses := responses m @ [r], waiting := push_waiting request p (waiting m)\<rparr>))"

definition get_blocks_end :: "nat \<Rightarrow> async_manager \<Rightarrow> block list option" where
  "get_blocks_end p m = promise (responses m ! p)"

text \<open>A use of a manager: requests of its clients and blocks that come by, in any order.\<close>

datatype async_event = Request block_request | Arrive block

fun async_run :: "async_event list \<Rightarrow> async_manager \<Rightarrow> async_manager result" where
  "async_run [] m = Inr m"
| "async_run (Request ids # es) m = bind_result (get_blocks_begin ids m) (\<lambda>(p, m'). async_run es m')"
| "async_run (Arrive b # es) m = bind_result (async_process b m) (\<lambda>m'. async_run es m')"

section \<open>What a response holds\<close>

text \<open>The first block of each awaited id, in the order of arrival.\<close>

fun firsts :: "block_id set \<Rightarrow> block list \<Rightarrow> block list" where
  "firsts W [] = []"
| "firsts W (b # bs) = (if get_id b \<in> W then b # firsts (W - {get_id b}) bs else firsts W bs)"

definition response_after :: "block_id list \<Rightarrow> block list \<Rightarrow> async_response" where
  "response_after ids bs =
     \<lparr>waiting_on = set ids - get_id ` set bs, resp_blocks = firsts (set ids) bs,
      promise = (if set ids \<subseteq> get_id ` set bs then Some (firsts (set ids) bs) else None)\<rparr>"

lemma firsts_snoc:
  "firsts W (bs @ [b]) =
     firsts W bs @ (if get_id b \<in> W \<and> get_id b \<notin> get_id ` set bs then [b] else [])"
  by (induction bs arbitrary: W) auto

lemma update_response_after:
  "update b (response_after ids bs) = Inr (response_after ids (bs @ [b]))"
proof (cases "get_id b \<in> set ids - get_id ` set bs")
  case True
  then have "waiting_on (response_after ids bs) - {get_id b} = set ids - get_id ` set (bs @ [b])"
    by (auto simp: response_after_def)
  with True show ?thesis
    by (auto simp: update_def notify_if_complete_def response_after_def firsts_snoc)
next
  case False
  then have "set ids \<subseteq> get_id ` set (bs @ [b]) \<longleftrightarrow> set ids \<subseteq> get_id ` set bs" by auto
  with False show ?thesis
    by (auto simp: update_def response_after_def firsts_snoc)
qed

lemma AsyncResponse_init_after: "AsyncResponse_init ids = Inr (response_after ids [])"
  by (auto simp: AsyncResponse_init_def notify_if_complete_def response_after_def)

lemma response_after_other:
  "get_id b \<notin> waiting_on (response_after ids bs) \<Longrightarrow>
     response_after ids (bs @ [b]) = response_after ids bs"
  using update_response_after [of b ids bs] by (simp add: update_def)

text \<open>
  The invariant: each response is what it should be for its request and the blocks that came since
  (\<open>hist\<close>), and is listed under every id it still awaits.
\<close>

definition async_inv :: "(block_id list \<times> block list) list \<Rightarrow> async_manager \<Rightarrow> bool" where
  "async_inv hist m \<longleftrightarrow>
     responses m = map (\<lambda>(ids, bs). response_after ids bs) hist \<and>
     (\<forall>i v. waiting m i = Some v \<longrightarrow> set v \<subseteq> {..<length hist}) \<and>
     (\<forall>p < length hist. \<forall>i \<in> waiting_on (responses m ! p). \<exists>v. waiting m i = Some v \<and> p \<in> set v)"

lemma update_response_twice:
  "update b (response_after ids (bs @ [b])) = Inr (response_after ids (bs @ [b]))"
  by (simp add: update_def response_after_def)

lemma update_all_responses:
  assumes "set ps \<subseteq> {..<length hist}" and "length rs = length hist"
    and "\<forall>q < length hist. rs ! q = response_after (fst (hist ! q)) (snd (hist ! q)) \<or>
      rs ! q = response_after (fst (hist ! q)) (snd (hist ! q) @ [b])"
  shows "\<exists>rs'. update_all b ps rs = Inr rs' \<and> length rs' = length hist \<and>
     (\<forall>q < length hist. rs' ! q = (if q \<in> set ps
        then response_after (fst (hist ! q)) (snd (hist ! q) @ [b]) else rs ! q))"
  using assms
proof (induction ps arbitrary: rs)
  case Nil
  then show ?case by simp
next
  case (Cons p ps)
  let ?r = "response_after (fst (hist ! p)) (snd (hist ! p) @ [b])"
  have p: "p < length hist" using Cons.prems(1) by simp
  then have u: "update b (rs ! p) = Inr ?r"
    using Cons.prems(3) update_response_after update_response_twice by metis
  have "\<exists>rs'. update_all b ps (rs[p := ?r]) = Inr rs' \<and> length rs' = length hist \<and>
     (\<forall>q < length hist. rs' ! q = (if q \<in> set ps
        then response_after (fst (hist ! q)) (snd (hist ! q) @ [b]) else rs[p := ?r] ! q))"
    using Cons.prems p by (intro Cons.IH) (auto simp: nth_list_update)
  with u p Cons.prems(2) show ?case by (auto simp: nth_list_update)
qed

definition came :: "block \<Rightarrow> (block_id list \<times> block list) list \<Rightarrow> (block_id list \<times> block list) list" where
  "came b hist = map (\<lambda>(ids, bs). (ids, bs @ [b])) hist"

lemma came_simps [simp]:
  "length (came b hist) = length hist"
  "q < length hist \<Longrightarrow> came b hist ! q = (fst (hist ! q), snd (hist ! q) @ [b])"
  by (simp_all add: came_def case_prod_beta)

lemma async_inv_iff:
  "async_inv hist m \<longleftrightarrow> length (responses m) = length hist \<and>
     (\<forall>q < length hist. responses m ! q = response_after (fst (hist ! q)) (snd (hist ! q))) \<and>
     (\<forall>i v. waiting m i = Some v \<longrightarrow> set v \<subseteq> {..<length hist}) \<and>
     (\<forall>p < length hist. \<forall>i \<in> waiting_on (responses m ! p). \<exists>v. waiting m i = Some v \<and> p \<in> set v)"
  by (auto simp: async_inv_def list_eq_iff_nth_eq case_prod_beta)

lemma async_process_inv:
  assumes "async_inv hist m"
  shows "\<exists>m'. async_process b m = Inr m' \<and> async_inv (came b hist) m'"
proof -
  note inv = assms [unfolded async_inv_iff]
  have still: "responses m ! q = response_after (fst (hist ! q)) (snd (hist ! q) @ [b])"
    if "q < length hist" "\<not> (\<exists>v. waiting m (get_id b) = Some v \<and> q \<in> set v)" for q
  proof -
    have "get_id b \<notin> waiting_on (response_after (fst (hist ! q)) (snd (hist ! q)))"
      using inv that by metis
    then show ?thesis using inv that(1) by (simp add: response_after_other)
  qed
  show ?thesis
  proof (cases "waiting m (get_id b)")
    case None
    with inv still show ?thesis by (auto simp: async_process_def async_inv_iff)
  next
    case (Some v)
    then have "set v \<subseteq> {..<length hist}" using inv by blast
    from update_all_responses [OF this, of "responses m" b] inv obtain rs where
      rs: "update_all b v (responses m) = Inr rs" "length rs = length hist"
      "\<forall>q < length hist. rs ! q = (if q \<in> set v
         then response_after (fst (hist ! q)) (snd (hist ! q) @ [b]) else responses m ! q)"
      by blast
    let ?m = "m\<lparr>responses := rs, waiting := (waiting m)(get_id b := None)\<rparr>"
    have r: "\<forall>q < length hist. rs ! q = response_after (fst (hist ! q)) (snd (hist ! q) @ [b])"
      using rs(3) still Some by auto
    have "\<exists>w. waiting ?m i = Some w \<and> q \<in> set w" if "q < length hist" "i \<in> waiting_on (rs ! q)" for q i
    proof -
      have "i \<in> waiting_on (responses m ! q)" "i \<noteq> get_id b"
        using that r inv by (auto simp: response_after_def)
      then show ?thesis using inv that(1) by auto
    qed
    then have "async_inv (came b hist) ?m"
      using rs(2) r inv unfolding async_inv_iff by auto
    with rs(1) Some show ?thesis by (auto simp: async_process_def)
  qed
qed

lemma push_waiting_new:
  "(\<exists>v. push_waiting ids p w i = Some v \<and> q \<in> set v) \<longleftrightarrow>
     (\<exists>v. w i = Some v \<and> q \<in> set v) \<or> (q = p \<and> i \<in> set ids)"
proof (induction ids arbitrary: w)
  case Nil
  then show ?case by simp
next
  case (Cons j ids)
  show ?case unfolding push_waiting.simps Cons.IH by (cases "i = j"; cases "w j") auto
qed

lemma push_waiting_bound:
  "\<forall>i v. w i = Some v \<longrightarrow> set v \<subseteq> A \<Longrightarrow> p \<in> A \<Longrightarrow> push_waiting ids p w i = Some v \<Longrightarrow> set v \<subseteq> A"
proof (induction ids arbitrary: w)
  case Nil
  then show ?case by simp
next
  case (Cons j ids)
  have "\<forall>i v. (w(j \<mapsto> (case w j of None \<Rightarrow> [] | Some v \<Rightarrow> v) @ [p])) i = Some v \<longrightarrow> set v \<subseteq> A"
    using Cons.prems(1,2) by (cases "w j") auto
  from Cons.IH [OF this Cons.prems(2)] Cons.prems(3) [unfolded push_waiting.simps] show ?case .
qed

lemma get_blocks_begin_inv:
  assumes "async_inv hist m"
  shows "\<exists>m'. get_blocks_begin ids m = Inr (length hist, m') \<and> async_inv (hist @ [(ids, [])]) m'"
proof -
  note inv = assms [unfolded async_inv_iff]
  let ?n = "length hist"
  let ?m = "m\<lparr>responses := responses m @ [response_after ids []],
              waiting := push_waiting ids ?n (waiting m)\<rparr>"
  have "get_blocks_begin ids m = Inr (?n, ?m)"
    using inv by (simp add: get_blocks_begin_def AsyncResponse_init_after Let_def)
  moreover have "set v \<subseteq> {..<Suc ?n}" if "push_waiting ids ?n (waiting m) i = Some v" for i v
    by (rule push_waiting_bound [OF _ _ that]) (use inv in \<open>auto dest: subsetD\<close>, fastforce)
  moreover have "\<exists>v. push_waiting ids ?n (waiting m) i = Some v \<and> q \<in> set v"
    if "q < Suc ?n" "i \<in> waiting_on ((responses m @ [response_after ids []]) ! q)" for q i
    using that inv unfolding push_waiting_new
    by (cases "q = ?n") (auto simp: nth_append response_after_def)
  ultimately show ?thesis using inv unfolding async_inv_iff by (auto simp: nth_append)
qed

text \<open>The requests of a sequence of events, each with the blocks that come after it.\<close>

fun histories :: "(block_id list \<times> block list) list \<Rightarrow> async_event list \<Rightarrow> (block_id list \<times> block list) list" where
  "histories hist [] = hist"
| "histories hist (Request ids # es) = histories (hist @ [(ids, [])]) es"
| "histories hist (Arrive b # es) = histories (came b hist) es"

lemma async_run_inv:
  "async_inv hist m \<Longrightarrow> \<exists>m'. async_run es m = Inr m' \<and> async_inv (histories hist es) m'"
proof (induction hist es arbitrary: m rule: histories.induct)
  case (1 hist)
  then show ?case by simp
next
  case (2 hist ids es)
  from get_blocks_begin_inv [OF "2.prems", of ids] "2.IH" show ?case by fastforce
next
  case (3 hist b es)
  from async_process_inv [OF "3.prems", of b] "3.IH" show ?case by fastforce
qed

fun arrivals :: "async_event list \<Rightarrow> block list" where
  "arrivals [] = []"
| "arrivals (Request ids # es) = arrivals es"
| "arrivals (Arrive b # es) = b # arrivals es"

fun requests :: "async_event list \<Rightarrow> nat" where
  "requests [] = 0"
| "requests (Request ids # es) = Suc (requests es)"
| "requests (Arrive b # es) = requests es"

lemma histories_length: "length (histories hist es) = length hist + requests es"
  by (induction hist es rule: histories.induct) auto

lemma histories_old:
  "q < length hist \<Longrightarrow> histories hist es ! q = (fst (hist ! q), snd (hist ! q) @ arrivals es)"
  by (induction hist es rule: histories.induct) (auto simp: nth_append)

lemma histories_append: "histories hist (es @ fs) = histories (histories hist es) fs"
  by (induction hist es rule: histories.induct) auto

text \<open>
  C26. No request is lost and none is answered twice: in any sequence of requests and arriving
  blocks, nothing throws, and the future of a request has its value exactly when every requested id
  has come by since: the first block of each requested id, once for each id however often it was
  asked for, in the order of arrival.
\<close>

theorem async_answers:
  "\<exists>m. async_run (es @ Request ids # fs) async_init = Inr m \<and>
     get_blocks_end (requests es) m =
       (if set ids \<subseteq> get_id ` set (arrivals fs) then Some (firsts (set ids) (arrivals fs)) else None)"
proof -
  have "async_inv [] async_init" by (simp add: async_inv_def async_init_def)
  from async_run_inv [OF this, of "es @ Request ids # fs"] obtain m where
    m: "async_run (es @ Request ids # fs) async_init = Inr m"
    "async_inv (histories [] (es @ Request ids # fs)) m" by blast
  have "histories [] (es @ Request ids # fs) ! requests es = (ids, arrivals fs)"
    using histories_length [of "[]" es] by (simp add: histories_append histories_old nth_append)
  moreover have "requests es < length (histories [] (es @ Request ids # fs))"
    by (simp add: histories_length histories_append)
  ultimately have "responses m ! requests es = response_after ids (arrivals fs)"
    using m(2) by (auto simp: async_inv_iff)
  with m(1) show ?thesis by (simp add: get_blocks_end_def response_after_def)
qed

end
