(* ===== verification/ExampleCodec.thy ===== *)
theory ExampleCodec
  imports BlockData
begin

text \<open>
  A serialisation of blocks to strings and back, for the examples: the protocol-buffer library is
  not part of the program, and what is asked of it, that parsing undoes serialising, holds of this
  one. A block is a list of numbers, and a list of numbers is written in unary.
\<close>

definition enc_nats :: "nat list \<Rightarrow> string" where
  "enc_nats ns = concat (map (\<lambda>n. replicate n CHR ''1'' @ '' '') ns)"

fun dec_nats :: "string \<Rightarrow> nat \<Rightarrow> nat list" where
  "dec_nats [] k = []"
| "dec_nats (c # cs) k = (if c = CHR ''1'' then dec_nats cs (Suc k) else k # dec_nats cs 0)"

lemma dec_nats_replicate: "dec_nats (replicate n CHR ''1'' @ CHR '' '' # s) k = (n + k) # dec_nats s 0"
  by (induction n arbitrary: k) auto

lemma dec_enc_nats [simp]: "dec_nats (enc_nats ns) 0 = ns"
  by (induction ns) (simp_all add: enc_nats_def dec_nats_replicate)

definition enc_words :: "'a::len word list \<Rightarrow> nat list" where "enc_words ws = map unat ws"
definition dec_words :: "nat list \<Rightarrow> 'a::len word list" where "dec_words ns = map word_of_nat ns"

lemma dec_enc_words [simp]: "dec_words (enc_words ws) = ws"
  by (simp add: enc_words_def dec_words_def comp_def)

definition rwe_codes :: "read_write_execute list" where
  "rwe_codes = [READ, WRITE, EXECUTE, READ_WRITE, READ_EXECUTE, WRITE_EXECUTE, READ_WRITE_EXECUTE, NONE]"

fun enc_rwe :: "read_write_execute \<Rightarrow> nat" where
  "enc_rwe READ = 0"
| "enc_rwe WRITE = 1"
| "enc_rwe EXECUTE = 2"
| "enc_rwe READ_WRITE = 3"
| "enc_rwe READ_EXECUTE = 4"
| "enc_rwe WRITE_EXECUTE = 5"
| "enc_rwe READ_WRITE_EXECUTE = 6"
| "enc_rwe NONE = 7"

lemma dec_enc_rwe [simp]: "rwe_codes ! enc_rwe r = r"
  by (cases r) (simp_all add: rwe_codes_def)

definition enc_chars :: "string \<Rightarrow> nat list" where "enc_chars s = map of_char s"
definition dec_chars :: "nat list \<Rightarrow> string" where "dec_chars ns = map char_of ns"

lemma dec_enc_chars [simp]: "dec_chars (enc_chars s) = s"
  by (simp add: enc_chars_def dec_chars_def comp_def)

definition enc_stat :: "stat_data \<Rightarrow> nat list" where
  "enc_stat st =
     [enc_rwe (user_mode (stat_mode st)), enc_rwe (group_mode (stat_mode st)),
      enc_rwe (other_mode (stat_mode st)), (if file_type_of (stat_mode st) = DIR then 0 else 1),
      unat (stat_uid st), unat (stat_gid st), unat (stat_size st), unat (access_time st),
      unat (mod_time st), unat (status_change_time st)]"

definition dec_stat :: "nat list \<Rightarrow> stat_data" where
  "dec_stat ns =
     \<lparr>stat_mode = \<lparr>user_mode = rwe_codes ! (ns ! 0), group_mode = rwe_codes ! (ns ! 1),
                   other_mode = rwe_codes ! (ns ! 2),
                   file_type_of = (if ns ! 3 = 0 then DIR else REGULAR)\<rparr>,
      stat_uid = word_of_nat (ns ! 4), stat_gid = word_of_nat (ns ! 5),
      stat_size = word_of_nat (ns ! 6), access_time = word_of_nat (ns ! 7),
      mod_time = word_of_nat (ns ! 8), status_change_time = word_of_nat (ns ! 9)\<rparr>"

lemma dec_enc_stat [simp]: "dec_stat (enc_stat st) = st" "length (enc_stat st) = 10"
  by (cases st; cases "stat_mode st"; cases "file_type_of (stat_mode st)";
      simp add: dec_stat_def enc_stat_def)+

fun enc_data :: "block_data \<Rightarrow> nat list" where
  "enc_data (DirFileBlockData d) =
     0 # length (df_name d) # enc_chars (df_name d) @ enc_stat (df_stat d) @ enc_words (df_children d)"
| "enc_data (LinkBlockData cs) = 1 # enc_words cs"
| "enc_data (FileContentsBlockData c) = 2 # enc_chars c"

fun dec_data :: "nat list \<Rightarrow> block_data" where
  "dec_data (t # ns) =
     (if t = 0
      then let n = hd ns; name = take n (tl ns); rest = drop n (tl ns)
           in DirFileBlockData \<lparr>df_name = dec_chars name, df_stat = dec_stat (take 10 rest),
                               df_children = dec_words (drop 10 rest)\<rparr>
      else if t = 1 then LinkBlockData (dec_words ns) else FileContentsBlockData (dec_chars ns))"
| "dec_data [] = LinkBlockData []"

lemma dec_enc_data [simp]: "dec_data (enc_data d) = d"
proof (cases d)
  case (DirFileBlockData x)
  have "length (enc_chars (df_name x)) = length (df_name x)" by (simp add: enc_chars_def)
  with DirFileBlockData show ?thesis by simp
qed simp_all

definition example_serialize :: "block_proto \<Rightarrow> string" where
  "example_serialize p =
     (case Block_of_proto p of Inl e \<Rightarrow> [] | Inr b \<Rightarrow> enc_nats (unat (get_id b) # enc_data (get_data b)))"

definition example_parse :: "string \<Rightarrow> block_proto" where
  "example_parse s =
     (case dec_nats s 0 of [] \<Rightarrow> block_gen_proto \<lparr>get_id = 0, get_data = LinkBlockData []\<rparr>
      | n # ns \<Rightarrow> block_gen_proto \<lparr>get_id = word_of_nat n, get_data = dec_data ns\<rparr>)"

lemma example_codec: "example_parse (example_serialize (block_gen_proto b)) = block_gen_proto b"
proof -
  have b: "\<lparr>get_id = get_id b, get_data = get_data b\<rparr> = b" by (cases b) simp
  show ?thesis by (simp add: example_parse_def example_serialize_def block_proto_roundtrip b)
qed

end
