(* ===== verification/PingPacket.thy ===== *)
theory PingPacket
  imports Prelude
begin

unbundle bit_operations_syntax

text \<open>
  The packets on the wire: \<open>EchoRequest\<close> (\<open>echo_request.cc\<close>), \<open>SpoofedIpV4\<close>
  (\<open>spoofed_ip_v4.cc\<close>), and the readers \<open>IpV4Stream\<close>, \<open>IpV4\<close>, \<open>IcmpHeader\<close> and
  \<open>EchoResponse\<close>. A stream of bytes is a \<open>string\<close>. The host is little-endian, so
  \<open>htons\<close> and \<open>ntohs\<close> swap the two bytes of a \<open>uint16_t\<close>. A read past the end of a
  stream leaves the variable it should fill uninitialised, which is undefined.
\<close>

section \<open>Bytes\<close>

text \<open>The bytes of a \<open>uint16_t\<close>, and \<open>htons\<close>, which is also \<open>ntohs\<close>.\<close>

definition high_byte :: "u16 \<Rightarrow> u8" where "high_byte s = ucast (drop_bit 8 s)"
definition low_byte :: "u16 \<Rightarrow> u8" where "low_byte s = ucast s"

definition word_of_bytes :: "u8 \<Rightarrow> u8 \<Rightarrow> u16" where
  "word_of_bytes h l = push_bit 8 (ucast h) OR ucast l"

definition htons :: "u16 \<Rightarrow> u16" where
  "htons s = word_of_bytes (low_byte s) (high_byte s)"

definition put_short :: "u16 \<Rightarrow> string" where
  "put_short s = [char_of_byte (ucast (drop_bit 8 s)), char_of_byte (ucast (s AND 0x00FF))]"

section \<open>EchoRequest\<close>

record echo_request =
  checksum_field :: u16
  req_identifier :: u16
  req_sequence_number :: u16
  req_body :: string

definition ECHO_TYPE :: u8 where "ECHO_TYPE = 8"
definition ECHO_CODE :: u8 where "ECHO_CODE = 0"
definition ICMP_HEADER_SIZE_BYTES :: nat where "ICMP_HEADER_SIZE_BYTES = 8"

text \<open>The loop over the body, from index \<open>i\<close> with the sum so far.\<close>

fun checksum_loop :: "nat \<Rightarrow> string \<Rightarrow> u32 \<Rightarrow> u32" where
  "checksum_loop i [] sum_so_far = sum_so_far"
| "checksum_loop i (c # cs) sum_so_far =
     (let val = byte_of_char c
      in checksum_loop (Suc i) cs
           (sum_so_far + (if i mod 2 = 0 then push_bit 8 (ucast val) else ucast val)))"

definition checksum :: "u16 \<Rightarrow> u16 \<Rightarrow> string \<Rightarrow> u16" where
  "checksum identifier sequence_number body =
     (let sum_so_far = push_bit 8 (ucast ECHO_TYPE) + ucast ECHO_CODE + ucast identifier +
                ucast sequence_number;
          sum_so_far = checksum_loop 0 body sum_so_far;
          sum_so_far = sum_so_far + drop_bit 16 sum_so_far
      in htons (ucast (NOT sum_so_far)))"

definition EchoRequest :: "u16 \<Rightarrow> u16 \<Rightarrow> string \<Rightarrow> echo_request" where
  "EchoRequest identifier sequence_number body =
     \<lparr>checksum_field = checksum identifier sequence_number body, req_identifier = identifier,
      req_sequence_number = sequence_number, req_body = body\<rparr>"

definition request_bytes :: "echo_request \<Rightarrow> string" where
  "request_bytes request =
     [char_of_byte ECHO_TYPE, char_of_byte ECHO_CODE] @ put_short (htons (checksum_field request)) @
     put_short (req_identifier request) @ put_short (req_sequence_number request) @ req_body request"

definition byte_size :: "echo_request \<Rightarrow> nat" where
  "byte_size request = ICMP_HEADER_SIZE_BYTES + length (req_body request)"

definition request_eq :: "echo_request \<Rightarrow> echo_request \<Rightarrow> bool" where
  "request_eq a b \<longleftrightarrow>
     checksum_field a = checksum_field b \<and> req_identifier a = req_identifier b \<and>
     req_sequence_number a = req_sequence_number b \<and> req_body a = req_body b"

section \<open>Reading a stream\<close>

text \<open>A reader takes the stream and returns a value and the rest of the stream.\<close>

type_synonym 'a reader = "string \<Rightarrow> ('a \<times> string) result"

definition read_byte :: "u8 reader" where
  "read_byte s = (case s of
     [] \<Rightarrow> Inl (Undefined_Behaviour ''uninitialised byte'')
   | c # cs \<Rightarrow> Inr (byte_of_char c, cs))"

definition read_unsigned_short :: "u16 reader" where
  "read_unsigned_short s = (case s of
     a # b # cs \<Rightarrow> Inr (htons (word_of_bytes (byte_of_char b) (byte_of_char a)), cs)
   | _ \<Rightarrow> Inl (Undefined_Behaviour ''uninitialised short''))"

text \<open>The bytes are discarded; a stream with fewer of them is left empty.\<close>

definition read_bytes :: "nat \<Rightarrow> string \<Rightarrow> string" where
  "read_bytes num_bytes s = drop num_bytes s"

definition consume_ip_header :: "string \<Rightarrow> string" where
  "consume_ip_header s = read_bytes 20 s"

section \<open>IpV4 and IcmpHeader\<close>

record ip_v4 =
  ip_length :: u16
  ip_proto :: u8

definition MIN_SIZE :: nat where "MIN_SIZE = 20"

definition get_total_length :: "u16 reader" where
  "get_total_length s =
     bind_result (read_unsigned_short s) (\<lambda>(_, s1). read_unsigned_short s1)"

definition get_proto :: "u8 reader" where
  "get_proto s =
     bind_result (read_unsigned_short s) (\<lambda>(_, s1).
     bind_result (read_unsigned_short s1) (\<lambda>(_, s2).
     bind_result (read_byte s2) (\<lambda>(_, s3). read_byte s3)))"

fun skip_shorts :: "nat \<Rightarrow> string \<Rightarrow> string result" where
  "skip_shorts 0 s = Inr s"
| "skip_shorts (Suc n) s = bind_result (read_unsigned_short s) (\<lambda>(_, s1). skip_shorts n s1)"

definition IpV4 :: "nat \<Rightarrow> ip_v4 reader" where
  "IpV4 len s =
     bind_result (get_total_length s) (\<lambda>(total, s1).
     bind_result (get_proto s1) (\<lambda>(proto, s2).
       if len < MIN_SIZE then Inl (Thrown ''Cannot deserialize header; too short'')
       else bind_result (skip_shorts 5 s2) (\<lambda>s3.
              Inr (\<lparr>ip_length = total, ip_proto = proto\<rparr>, s3))))"

definition is_icmp :: "ip_v4 \<Rightarrow> bool" where
  "is_icmp ip \<longleftrightarrow> ip_proto ip = 1"

record icmp_header =
  icmp_type :: u8
  icmp_code :: u8
  icmp_checksum :: u16
  icmp_identifier :: u16
  icmp_sequence_number :: u16

definition IcmpHeader :: "icmp_header reader" where
  "IcmpHeader s =
     bind_result (read_byte s) (\<lambda>(ty, s1).
     bind_result (read_byte s1) (\<lambda>(code, s2).
     bind_result (read_unsigned_short s2) (\<lambda>(check, s3).
     bind_result (read_unsigned_short s3) (\<lambda>(ident, s4).
     bind_result (read_unsigned_short s4) (\<lambda>(seqno, s5).
       Inr (\<lparr>icmp_type = ty, icmp_code = code, icmp_checksum = check, icmp_identifier = ident,
             icmp_sequence_number = seqno\<rparr>, s5))))))"

section \<open>EchoResponse\<close>

record echo_response =
  resp_identifier :: u16
  resp_sequence_number :: u16
  resp_data :: string

definition EchoResponse :: "u16 \<Rightarrow> u16 \<Rightarrow> string \<Rightarrow> echo_response" where
  "EchoResponse identifier sequence_number data =
     \<lparr>resp_identifier = identifier, resp_sequence_number = sequence_number, resp_data = data\<rparr>"

definition EchoResponse_of_stream :: "string \<Rightarrow> echo_response result" where
  "EchoResponse_of_stream s =
     bind_result (read_unsigned_short (read_bytes 4 (consume_ip_header s))) (\<lambda>(ident, s1).
     bind_result (read_unsigned_short s1) (\<lambda>(seqno, s2).
       Inr \<lparr>resp_identifier = ident, resp_sequence_number = seqno, resp_data = s2\<rparr>))"

definition EchoRequest_of_response :: "echo_response \<Rightarrow> echo_request" where
  "EchoRequest_of_response resp =
     EchoRequest (resp_identifier resp) (resp_sequence_number resp) (resp_data resp)"

section \<open>SpoofedIpV4\<close>

text \<open>
  The header is a local \<open>iphdr\<close> written to the stream byte by byte. The code never sets its
  fields \<open>tos\<close>, \<open>id\<close> and \<open>frag_off\<close>, whose bytes are arguments here; \<open>tot_len\<close>
  keeps the host's byte order. An address is its four bytes, and
  \<open>boost_addr_to_binary\<close> places them in memory in that order.
\<close>

type_synonym address_v4 = "u8 \<times> u8 \<times> u8 \<times> u8"

record ip_junk =
  junk_tos :: u8
  junk_id :: u16
  junk_frag_off :: u16

definition boost_addr_to_binary :: "address_v4 \<Rightarrow> u32" where
  "boost_addr_to_binary addr = (case addr of (b0, b1, b2, b3) \<Rightarrow>
     push_bit 24 (ucast b3) OR push_bit 16 (ucast b2) OR push_bit 8 (ucast b1) OR ucast b0)"

text \<open>The bytes of an integer in memory.\<close>

definition memory16 :: "u16 \<Rightarrow> string" where
  "memory16 w = [char_of_byte (ucast w), char_of_byte (ucast (drop_bit 8 w))]"

definition memory32 :: "u32 \<Rightarrow> string" where
  "memory32 w = [char_of_byte (ucast w), char_of_byte (ucast (drop_bit 8 w)),
                 char_of_byte (ucast (drop_bit 16 w)), char_of_byte (ucast (drop_bit 24 w))]"

definition spoofed_bytes :: "ip_junk \<Rightarrow> address_v4 \<Rightarrow> address_v4 \<Rightarrow> echo_request \<Rightarrow> string" where
  "spoofed_bytes junk src dst request =
     (let ihl = 5; version = 4 :: u8
      in [char_of_byte (push_bit 4 version OR ihl), char_of_byte (junk_tos junk)] @
         memory16 (word_of_nat (20 + byte_size request)) @ memory16 (junk_id junk) @
         memory16 (junk_frag_off junk) @ [char_of_byte 148, char_of_byte 1] @ memory16 0 @
         memory32 (boost_addr_to_binary src) @ memory32 (boost_addr_to_binary dst)) @
     request_bytes request"

section \<open>Words and their bytes\<close>

lemma byte_bits: "bit (high_byte s) n \<longleftrightarrow> n < 8 \<and> bit s (n + 8)" "bit (low_byte s) n \<longleftrightarrow> n < 8 \<and> bit s n"
  by (auto simp: high_byte_def low_byte_def bit_simps add.commute)

lemma word_of_bytes_bit:
  "bit (word_of_bytes h l) n \<longleftrightarrow> (if n < 8 then bit l n else n < 16 \<and> bit h (n - 8))"
  by (auto simp: word_of_bytes_def bit_simps dest: bit_imp_le_length)

lemma word_of_high_low [simp]: "word_of_bytes (high_byte s) (low_byte s) = s"
  by (rule bit_word_eqI) (auto simp: word_of_bytes_bit byte_bits)

lemma high_low_word [simp]:
  "high_byte (word_of_bytes h l) = h" "low_byte (word_of_bytes h l) = l"
  by (rule bit_word_eqI; auto simp: word_of_bytes_bit byte_bits dest: bit_imp_le_length)+

lemma htons_word [simp]: "htons (word_of_bytes h l) = word_of_bytes l h"
  by (simp add: htons_def)

lemma htons_htons [simp]: "htons (htons s) = s"
  by (simp add: htons_def)

lemma put_short_bytes: "put_short s = [char_of_byte (high_byte s), char_of_byte (low_byte s)]"
proof -
  have "ucast (s AND 0x00FF) = low_byte s"
  proof -
    have "(0x00FF :: u16) = mask 8" by (simp add: mask_eq_exp_minus_1)
    moreover have "ucast (s AND mask 8) = low_byte s"
      by (rule bit_word_eqI) (auto simp: low_byte_def bit_simps)
    ultimately show ?thesis by (simp only:)
  qed
  then show ?thesis by (simp add: put_short_def high_byte_def)
qed

lemma read_short_Cons [simp]:
  "read_unsigned_short (a # b # s) = Inr (word_of_bytes (byte_of_char a) (byte_of_char b), s)"
  by (simp add: read_unsigned_short_def)

lemma read_byte_Cons [simp]: "read_byte (a # s) = Inr (byte_of_char a, s)"
  by (simp add: read_byte_def)

lemma read_put_short [simp]: "read_unsigned_short (put_short s @ t) = Inr (s, t)"
  by (simp add: put_short_bytes)

text \<open>The parsers on a stream that is long enough.\<close>

lemma length_Cons: "Suc n \<le> length xs \<Longrightarrow> \<exists>y ys. xs = y # ys \<and> n \<le> length ys"
  by (cases xs) auto

definition be16 :: "string \<Rightarrow> nat \<Rightarrow> u16" where
  "be16 s i = word_of_bytes (byte_of_char (s ! i)) (byte_of_char (s ! Suc i))"

lemma nth_drop_split:
  "i < length s \<Longrightarrow> drop i s = s ! i # drop (Suc i) s"
  by (rule Cons_nth_drop_Suc [symmetric])

lemma read_short_drop:
  "Suc (Suc i) \<le> length s \<Longrightarrow> read_unsigned_short (drop i s) = Inr (be16 s i, drop (i + 2) s)"
  by (simp add: nth_drop_split [of i] nth_drop_split [of "Suc i"] be16_def)

lemma read_byte_drop:
  "Suc i \<le> length s \<Longrightarrow> read_byte (drop i s) = Inr (byte_of_char (s ! i), drop (i + 1) s)"
  by (simp add: nth_drop_split [of i])

lemma IpV4_drop:
  assumes "20 \<le> length s"
  shows "IpV4 (length s) s = Inr (\<lparr>ip_length = be16 s 2, ip_proto = byte_of_char (s ! 9)\<rparr>, drop 20 s)"
proof -
  have "IpV4 (length s) (drop 0 s) =
      Inr (\<lparr>ip_length = be16 s 2, ip_proto = byte_of_char (s ! 9)\<rparr>, drop 20 s)"
    using assms unfolding IpV4_def get_total_length_def get_proto_def
    by (simp add: read_short_drop read_byte_drop MIN_SIZE_def numeral_eq_Suc del: drop0 drop_Suc_Cons)
  then show ?thesis by simp
qed

lemma IcmpHeader_drop:
  assumes "i + 8 \<le> length s"
  shows "IcmpHeader (drop i s) =
     Inr (\<lparr>icmp_type = byte_of_char (s ! i), icmp_code = byte_of_char (s ! (i + 1)),
           icmp_checksum = be16 s (i + 2), icmp_identifier = be16 s (i + 4),
           icmp_sequence_number = be16 s (i + 6)\<rparr>, drop (i + 8) s)"
  using assms by (simp add: IcmpHeader_def read_short_drop read_byte_drop numeral_eq_Suc)

section \<open>The checksum\<close>

text \<open>
  The Internet checksum (RFC 1071): the complement of the sum of the 16-bit words, whose carries
  are added back in until none is left. The checksum field itself counts as 0, an odd last byte as
  the high byte of a word.
\<close>

fun body_sum :: "nat \<Rightarrow> string \<Rightarrow> nat" where
  "body_sum i [] = 0"
| "body_sum i (c # cs) = (if even i then 256 * of_char c else of_char c) + body_sum (Suc i) cs"

definition icmp_sum :: "u16 \<Rightarrow> u16 \<Rightarrow> string \<Rightarrow> nat" where
  "icmp_sum identifier sequence_number body =
     2048 + unat identifier + unat sequence_number + body_sum 0 body"

lemma mod_div_less: "65536 \<le> n \<Longrightarrow> n mod 65536 + n div 65536 < n" for n :: nat
proof -
  assume "65536 \<le> n"
  then have "0 < n div 65536" by (simp add: div_greater_zero_iff)
  moreover have "n = 65536 * (n div 65536) + n mod 65536" by simp
  ultimately show ?thesis by linarith
qed

function end_around :: "nat \<Rightarrow> nat" where
  "end_around n = (if n < 65536 then n else end_around (n mod 65536 + n div 65536))"
  by auto
termination
  by (relation "measure id") (auto simp: not_less intro: mod_div_less)

declare end_around.simps [simp del]

lemma end_around_small: "n < 65536 \<Longrightarrow> end_around n = n"
  by (simp add: end_around.simps)

lemma end_around_step: "65536 \<le> n \<Longrightarrow> end_around n = end_around (n mod 65536 + n div 65536)"
  by (simp add: end_around.simps [of n])

definition internet_checksum :: "nat \<Rightarrow> nat" where
  "internet_checksum n = 65535 - end_around n"

lemma of_char_less: "(of_char c :: nat) < 256"
  by simp

lemma unat_byte_of_char: "unat (byte_of_char c) = of_char c"
  using of_char_less [of c] by (simp add: byte_of_char_def unat_of_nat)

lemma unat_shifted_byte: "unat (push_bit 8 (ucast (b :: u8)) :: u32) = 256 * unat b"
proof -
  have "unat b < 256" using unsigned_less [of b] by simp
  then have "unat (ucast b :: u32) * 256 < 2 ^ 32" "unat (ucast b :: u32) = unat b"
    by (simp_all add: unsigned_ucast_eq take_bit_nat_eq_self)
  then show ?thesis by (simp add: push_bit_eq_mult unat_word_ariths)
qed

lemma unat_u8_less: "unat (b :: u8) < 256"
  using unsigned_less [of b] by simp

lemma unat_u16_less: "unat (s :: u16) < 65536"
  using unsigned_less [of s] by simp

lemma unat_ucast_32: "unat (ucast (b :: u8) :: u32) = unat b" "unat (ucast (s :: u16) :: u32) = unat s"
proof -
  have "unat b < 2 ^ 32" "unat s < 2 ^ 32"
    using unat_u8_less [of b] unat_u16_less [of s] by simp_all
  then show "unat (ucast b :: u32) = unat b" "unat (ucast s :: u32) = unat s"
    by (simp_all add: unsigned_ucast_eq take_bit_nat_eq_self)
qed

lemma checksum_loop_sum:
  "unat w + body_sum i cs < 2 ^ 32 \<Longrightarrow> unat (checksum_loop i cs w) = unat w + body_sum i cs"
proof (induction i cs w rule: checksum_loop.induct)
  case (1 i w)
  then show ?case by simp
next
  case (2 i c cs w)
  let ?v = "if i mod 2 = 0 then push_bit 8 (ucast (byte_of_char c)) else ucast (byte_of_char c) :: u32"
  have v: "unat ?v = (if even i then 256 * of_char c else of_char c)"
    by (simp add: unat_shifted_byte unat_ucast_32 unat_byte_of_char even_iff_mod_2_eq_zero)
  then have "unat (w + ?v) = unat w + (if even i then 256 * of_char c else of_char c)"
    using "2.prems" by (simp add: unat_word_ariths)
  with "2.IH" [OF refl] "2.prems"
  have "unat (checksum_loop (Suc i) cs (w + ?v)) =
      unat w + (if even i then 256 * of_char c else of_char c) + body_sum (Suc i) cs"
    by (simp only: body_sum.simps add.assoc)
  then show ?case unfolding checksum_loop.simps Let_def by (simp only: body_sum.simps add.assoc)
qed

lemma body_sum_bound: "body_sum i cs \<le> 65280 * length cs"
proof (induction i cs rule: body_sum.induct)
  case (2 i c cs)
  have "(if even i then 256 * of_char c else of_char c) \<le> (65280 :: nat)"
  proof -
    have "(of_char c :: nat) \<le> 255" using of_char_less [of c] by linarith
    then show ?thesis by simp
  qed
  with "2.IH" show ?case by simp
qed simp

lemma unat_not_16: "unat (NOT w :: u16) = 65535 - unat w"
proof -
  have "NOT w = - w - 1" by (simp add: not_eq_complement)
  then have "NOT w = 0xFFFF - w" by simp
  moreover have "w \<le> 0xFFFF" using unat_u16_less [of w] by (simp add: word_le_nat_alt)
  ultimately show ?thesis by (simp add: unat_sub)
qed

lemma checksum_value:
  assumes "length body \<le> 65507"
  shows "unat (htons (checksum ident seqno body)) =
     65535 - (icmp_sum ident seqno body mod 65536 + icmp_sum ident seqno body div 65536) mod 65536"
proof -
  let ?n = "icmp_sum ident seqno body"
  let ?w = "push_bit 8 (ucast ECHO_TYPE) + ucast ECHO_CODE + ucast ident + ucast seqno :: u32"
  have id: "unat ident < 65536" "unat seqno < 65536"
    using unat_u16_less [of ident] unat_u16_less [of seqno] by simp_all
  have n: "?n < 4276430080" using id body_sum_bound [of 0 body] assms by (simp add: icmp_sum_def)
  have w: "unat ?w = 2048 + unat ident + unat seqno"
    using id by (simp add: ECHO_TYPE_def ECHO_CODE_def unat_word_ariths unat_ucast_32)
  let ?s = "checksum_loop 0 body ?w"
  have s: "unat ?s = ?n" using checksum_loop_sum [of ?w 0 body] n by (simp add: w icmp_sum_def)
  have d: "unat (drop_bit 16 ?s) = ?n div 65536" by (simp add: drop_bit_eq_div unat_div s)
  have "?n + ?n div 65536 < 2 ^ 32" using n by simp
  then have t: "unat (?s + drop_bit 16 ?s) = ?n + ?n div 65536"
    by (simp add: unat_word_ariths s d)
  have "ucast (NOT (?s + drop_bit 16 ?s)) = NOT (ucast (?s + drop_bit 16 ?s) :: u16)"
    by (rule bit_word_eqI) (auto simp: bit_simps)
  then have "unat (htons (checksum ident seqno body)) = 65535 - unat (ucast (?s + drop_bit 16 ?s) :: u16)"
    by (simp add: checksum_def Let_def unat_not_16)
  also have "unat (ucast (?s + drop_bit 16 ?s) :: u16) = (?n + ?n div 65536) mod 65536"
    by (simp add: unsigned_ucast_eq take_bit_eq_mod t)
  also have "\<dots> = (?n mod 65536 + ?n div 65536) mod 65536" by (simp add: mod_add_left_eq)
  finally show ?thesis .
qed

lemma mod_once: "m < 131072 \<Longrightarrow> m mod 65536 = (if m < 65536 then m else m - 65536)" for m :: nat
  by (simp add: le_mod_geq)

lemma end_around_once:
  "m < 131071 \<Longrightarrow> end_around m = (if m < 65536 then m else m - 65535)"
proof (cases "m < 65536")
  case True
  then show ?thesis by (simp add: end_around_small)
next
  case False
  assume m: "m < 131071"
  with False have d: "m div 65536 = 1" "m mod 65536 = m - 65536" by (simp_all add: div_nat_eqI le_mod_geq)
  have "end_around m = end_around (m - 65536 + 1)"
    using end_around_step [of m] False unfolding d by simp
  also have "\<dots> = m - 65535" using m False by (simp add: end_around_small)
  finally show ?thesis using False by simp
qed

lemma complement_eq_iff:
  "m \<le> 131000 \<Longrightarrow> 65535 - (if m < 65536 then m else m - 65536) =
     65535 - (if m < 65536 then m else m - 65535) \<longleftrightarrow> m < (65536 :: nat)"
  by (cases "m < 65536") auto

text \<open>
  C27. The checksum field of an echo request is the Internet checksum of the message exactly
  when adding the carries back in once leaves no new carry; otherwise it is off by one and the
  message is discarded as corrupt.
\<close>

theorem checksum_correct_iff:
  assumes "length body \<le> 65507"
  shows "unat (htons (checksum_field (EchoRequest ident seqno body))) =
       internet_checksum (icmp_sum ident seqno body) \<longleftrightarrow>
     icmp_sum ident seqno body mod 65536 + icmp_sum ident seqno body div 65536 < 65536"
proof -
  let ?n = "icmp_sum ident seqno body"
  let ?m = "?n mod 65536 + ?n div 65536"
  have "unat ident < 65536" "unat seqno < 65536"
    using unat_u16_less [of ident] unat_u16_less [of seqno] by simp_all
  then have n: "?n < 4276430080" using body_sum_bound [of 0 body] assms by (simp add: icmp_sum_def)
  have m: "?m < 131072" using n by linarith
  have e: "end_around ?n = (if ?m < 65536 then ?m else ?m - 65535)"
  proof (cases "?n < 65536")
    case True
    then show ?thesis by (simp add: end_around_small)
  next
    case False
    then have "end_around ?n = end_around ?m" by (intro end_around_step) simp
    also have "\<dots> = (if ?m < 65536 then ?m else ?m - 65535)"
      by (rule end_around_once) (use n in linarith)
    finally show ?thesis .
  qed
  have l: "unat (htons (checksum_field (EchoRequest ident seqno body))) =
      65535 - (if ?m < 65536 then ?m else ?m - 65536)"
    by (simp only: EchoRequest_def echo_request.select_convs checksum_value [OF assms] mod_once [OF m])
  have r: "internet_checksum ?n = 65535 - (if ?m < 65536 then ?m else ?m - 65535)"
    by (simp only: internet_checksum_def e)
  have "?m \<le> 131000" using n by linarith
  then show ?thesis unfolding l r by (rule complement_eq_iff)
qed

theorem checksum_correct_iff_witness:
  "unat (htons (checksum_field (EchoRequest 55 0 ''abc''))) = internet_checksum (icmp_sum 55 0 ''abc'') \<and>
   unat (htons (checksum_field (EchoRequest 0xFFFF 0xF800 []))) \<noteq>
     internet_checksum (icmp_sum 0xFFFF 0xF800 [])"
proof -
  have "icmp_sum 55 0 ''abc'' mod 65536 + icmp_sum 55 0 ''abc'' div 65536 < 65536"
    "\<not> icmp_sum 0xFFFF 0xF800 [] mod 65536 + icmp_sum 0xFFFF 0xF800 [] div 65536 < 65536"
    by (simp_all add: icmp_sum_def)
  with checksum_correct_iff [of "''abc''" 55 0] checksum_correct_iff [of "[]" "0xFFFF" "0xF800"]
  show ?thesis by simp
qed

section \<open>A request and its reply\<close>

text \<open>
  A request survives the trip: from any 20-byte IP header followed by the bytes of the
  request, \<open>EchoResponse\<close> reads back the identifier, the sequence number and the body, and the
  request made from that response is the original one again, byte for byte.
\<close>

theorem request_roundtrip:
  assumes "length ip_header = 20"
  shows "EchoResponse_of_stream (ip_header @ request_bytes (EchoRequest ident seqno body)) =
       Inr (EchoResponse ident seqno body) \<and>
     request_bytes (EchoRequest_of_response (EchoResponse ident seqno body)) =
       request_bytes (EchoRequest ident seqno body)"
proof -
  have "consume_ip_header (ip_header @ request_bytes (EchoRequest ident seqno body)) =
      request_bytes (EchoRequest ident seqno body)"
    by (simp add: consume_ip_header_def read_bytes_def assms)
  moreover have "read_bytes 4 (request_bytes (EchoRequest ident seqno body)) =
      put_short ident @ put_short seqno @ body"
    by (simp add: read_bytes_def request_bytes_def put_short_def EchoRequest_def numeral_eq_Suc)
  ultimately show ?thesis
    by (simp add: EchoResponse_of_stream_def EchoResponse_def EchoRequest_of_response_def)
qed

theorem request_roundtrip_witness:
  "EchoResponse_of_stream (replicate 20 CHR ''x'' @ request_bytes (EchoRequest 55 3 ''abc'')) =
     Inr (EchoResponse 55 3 ''abc'')"
  using request_roundtrip [of "replicate 20 CHR ''x''" 55 3 "''abc''"] by simp

text \<open>
  C31. The packet of a spoofed ping, whatever the bytes of the fields that the code leaves
  unset: \<open>IpV4\<close> reads it as ICMP, with the length's two bytes exchanged, since the code writes
  it in the host's order; the addresses stand in the header in network order, and the bytes of the
  request follow it.
\<close>

theorem spoofed_packet:
  "IpV4 (length (spoofed_bytes junk src dst request)) (spoofed_bytes junk src dst request) =
     Inr (\<lparr>ip_length = htons (word_of_nat (20 + byte_size request)), ip_proto = 1\<rparr>,
          request_bytes request) \<and>
   take 8 (drop 12 (spoofed_bytes junk src dst request)) =
     (case (src, dst) of ((a, b, c, d), (e, f, g, h)) \<Rightarrow> map char_of_byte [a, b, c, d, e, f, g, h])"
proof -
  let ?p = "spoofed_bytes junk src dst request"
  obtain a b c d where src: "src = (a, b, c, d)" by (cases src)
  obtain e f g h where dst: "dst = (e, f, g, h)" by (cases dst)
  have mem: "memory32 (boost_addr_to_binary (a, b, c, d)) = map char_of_byte [a, b, c, d]" for a b c d
  proof -
    have "ucast (boost_addr_to_binary (a, b, c, d)) = a"
      "ucast (drop_bit 8 (boost_addr_to_binary (a, b, c, d))) = b"
      "ucast (drop_bit 16 (boost_addr_to_binary (a, b, c, d))) = c"
      "ucast (drop_bit 24 (boost_addr_to_binary (a, b, c, d))) = d"
      by (rule bit_word_eqI; auto simp: boost_addr_to_binary_def bit_simps dest: bit_imp_le_length)+
    then show ?thesis by (simp add: memory32_def)
  qed
  have shape: "?p = [char_of_byte (push_bit 4 4 OR 5), char_of_byte (junk_tos junk)] @
      memory16 (word_of_nat (20 + byte_size request)) @ memory16 (junk_id junk) @
      memory16 (junk_frag_off junk) @ [char_of_byte 148, char_of_byte 1] @ memory16 0 @
      map char_of_byte [a, b, c, d] @ map char_of_byte [e, f, g, h] @ request_bytes request"
    by (simp add: spoofed_bytes_def src dst mem)
  have "20 \<le> length ?p" unfolding shape by (simp add: memory16_def)
  moreover have "drop 20 ?p = request_bytes request" "?p ! 9 = char_of_byte 1"
    unfolding shape by (simp_all add: memory16_def numeral_eq_Suc)
  moreover have "be16 ?p 2 = htons (word_of_nat (20 + byte_size request))"
    unfolding shape by (simp add: be16_def memory16_def numeral_eq_Suc htons_def low_byte_def high_byte_def)
  moreover have "take 8 (drop 12 ?p) = map char_of_byte [a, b, c, d, e, f, g, h]"
    unfolding shape by (simp add: memory16_def numeral_eq_Suc)
  ultimately show ?thesis by (simp add: IpV4_drop src dst)
qed

end
