(* ===== verification/Ping.thy ===== *)
theory Ping
  imports PingPacket
begin

text \<open>
  Receiving pings: \<open>DataBuffer\<close> (\<open>data_buffer.cc\<close>) and \<open>Ping\<close> (\<open>ping.cc\<close>). The
  socket's handler appends what it received to the buffer and posts the cutting of the buffer into
  packets; each complete echo reply is posted in turn as a notice to the subscribers. The threads
  that serve the \<open>io_service\<close> run the posted tasks in any order, so the program is a step
  relation: a step receives bytes, runs one check of the buffer, tests the condition of the loop
  around it, or delivers one notice. The theorem is that every reply is delivered exactly once.
\<close>

section \<open>DataBuffer\<close>

definition discard :: "nat \<Rightarrow> string \<Rightarrow> string" where
  "discard bytes_to_remove data = drop bytes_to_remove data"

definition append_data :: "string \<Rightarrow> string \<Rightarrow> string" where
  "append_data to_append data = data @ to_append"

definition peek :: "string \<Rightarrow> string" where "peek data = data"

definition data_size :: "string \<Rightarrow> nat" where "data_size data = length data"

section \<open>check_notify\<close>

text \<open>
  One check of the buffer: the result says whether a packet was consumed, the second component is
  the buffer afterwards and the third the response to post, if there is one. The size of the vector
  for the data is computed in \<open>size_t\<close>: a length below 28 wraps it past \<open>max_size\<close>, and the
  constructor throws.
\<close>

definition RESPONSE_CODE :: u8 where "RESPONSE_CODE = 0"
definition RESPONSE_TYPE :: u8 where "RESPONSE_TYPE = 0"

definition check_notify :: "string \<Rightarrow> (bool \<times> string \<times> echo_response option) result" where
  "check_notify buffer =
     (let copy = peek buffer in
      if length copy < MIN_SIZE then Inr (False, buffer, None)
      else bind_result (IpV4 (length copy) copy) (\<lambda>(ip, stream).
        if length copy < unat (ip_length ip) then Inr (False, buffer, None)
        else let buffer' = discard (unat (ip_length ip)) buffer in
          if \<not> is_icmp ip then Inr (True, buffer', None)
          else bind_result (IcmpHeader stream) (\<lambda>(header, stream').
            if icmp_code header \<noteq> RESPONSE_CODE then Inr (True, buffer', None)
            else if icmp_type header \<noteq> RESPONSE_TYPE then Inr (True, buffer', None)
            else let vector_size = word_of_nat (unat (ip_length ip)) - word_of_nat MIN_SIZE - 8 :: u64
              in if (2 ^ 63 :: nat) \<le> unat vector_size then Inl (Std_Exception ''length_error'')
                 else let data = take (unat vector_size) stream'
                   in Inr (True, buffer',
                           Some (EchoResponse (icmp_identifier header)
                                   (icmp_sequence_number header) data)))))"

text \<open>
  \<open>internal_check_notify\<close> repeats the check while packets come out and the buffer is not
  empty, within \<open>fuel\<close> rounds; it returns the responses posted, in order.
\<close>

primrec internal_check_notify :: "nat \<Rightarrow> string \<Rightarrow> (echo_response list \<times> string) result" where
  "internal_check_notify 0 buffer = Inl Out_Of_Fuel"
| "internal_check_notify (Suc fuel) buffer =
     bind_result (check_notify buffer) (\<lambda>(consumed, buffer', response).
       let posted = (case response of None \<Rightarrow> [] | Some r \<Rightarrow> [r])
       in if consumed \<and> data_size buffer' \<noteq> 0
          then bind_result (internal_check_notify fuel buffer') (\<lambda>(rs, buffer'').
                 Inr (posted @ rs, buffer''))
          else Inr (posted, buffer'))"

text \<open>
  \<open>handle_receive\<close> appends the first \<open>len\<close> bytes of the reply buffer, or throws when the
  receive failed; \<open>receive_run\<close> is one thread that serves receives and the checks they post in
  turn.
\<close>

definition handle_receive :: "int \<Rightarrow> string \<Rightarrow> nat \<Rightarrow> string \<Rightarrow> string result" where
  "handle_receive code reply_buffer len buffer =
     (if code \<noteq> 0 then Inl (Thrown ''Unexpected error'')
      else let data = take len reply_buffer; content = take len data
           in Inr (append_data content buffer))"

primrec receive_run :: "nat \<Rightarrow> string list \<Rightarrow> string \<Rightarrow> (echo_response list \<times> string) result" where
  "receive_run fuel [] buffer = Inr ([], buffer)"
| "receive_run fuel (c # cs) buffer =
     bind_result (handle_receive 0 c (length c) buffer) (\<lambda>buffer1.
     bind_result (internal_check_notify fuel buffer1) (\<lambda>(rs, buffer2).
     bind_result (receive_run fuel cs buffer2) (\<lambda>(rs', buffer3). Inr (rs @ rs', buffer3))))"

section \<open>Packets\<close>

text \<open>
  What a well-formed packet is: its length field is its length, and an ICMP packet has a complete
  ICMP header; and the response it carries, if it is an echo reply.
\<close>

definition packet_ok :: "string \<Rightarrow> bool" where
  "packet_ok p \<longleftrightarrow> 20 \<le> length p \<and> length p < 65536 \<and> unat (be16 p 2) = length p \<and>
     (byte_of_char (p ! 9) = 1 \<longrightarrow> 28 \<le> length p)"

definition packet_reply :: "string \<Rightarrow> echo_response option" where
  "packet_reply p =
     (if byte_of_char (p ! 9) = 1 \<and> byte_of_char (p ! 20) = 0 \<and> byte_of_char (p ! 21) = 0
      then Some (EchoResponse (be16 p 24) (be16 p 26) (drop 28 p)) else None)"

lemma be16_append: "Suc i < length p \<Longrightarrow> be16 (p @ q) i = be16 p i"
  by (simp add: be16_def nth_append)

lemma check_notify_packet:
  assumes "packet_ok p"
  shows "check_notify (p @ rest) = Inr (True, rest, packet_reply p)"
proof -
  let ?b = "p @ rest"
  have p: "20 \<le> length p" "length p < 65536" "unat (be16 p 2) = length p"
    using assms by (simp_all add: packet_ok_def)
  have b: "20 \<le> length ?b" using p(1) by simp
  have ip: "IpV4 (length ?b) ?b =
      Inr (\<lparr>ip_length = be16 p 2, ip_proto = byte_of_char (p ! 9)\<rparr>, drop 20 ?b)"
    using IpV4_drop [OF b] p(1) by (simp add: be16_append nth_append)
  show ?thesis
  proof (cases "byte_of_char (p ! 9) = 1")
    case False
    with ip p b show ?thesis
      by (simp add: check_notify_def peek_def discard_def MIN_SIZE_def is_icmp_def packet_reply_def)
  next
    case True
    then have l: "28 \<le> length p" using assms by (simp add: packet_ok_def)
    have h: "IcmpHeader (drop 20 ?b) =
        Inr (\<lparr>icmp_type = byte_of_char (p ! 20), icmp_code = byte_of_char (p ! 21),
              icmp_checksum = be16 p 22, icmp_identifier = be16 p 24,
              icmp_sequence_number = be16 p 26\<rparr>, drop 28 ?b)"
      using IcmpHeader_drop [of 20 ?b] l by (simp add: be16_append nth_append)
    have v: "unat (word_of_nat (length p) - word_of_nat MIN_SIZE - 8 :: u64) = length p - 28"
    proof -
      have "word_of_nat (length p) - word_of_nat MIN_SIZE - 8 = (word_of_nat (length p - 28) :: u64)"
        using l by (simp add: MIN_SIZE_def of_nat_diff)
      then show ?thesis using p(2) by (simp add: unat_of_nat)
    qed
    have parts: "drop (length p) ?b = rest" "take (length p - 28) (drop 28 ?b) = drop 28 p"
      using l by simp_all
    have "length p - 28 < 2 ^ 63" "MIN_SIZE \<le> length ?b" "\<not> length ?b < length p" using p(1,2) by (simp_all add: MIN_SIZE_def)
    with True ip h v show ?thesis
      by (simp add: check_notify_def peek_def discard_def is_icmp_def packet_reply_def p(3) parts
          RESPONSE_CODE_def RESPONSE_TYPE_def Let_def del: drop_append take_append length_append)
  qed
qed

lemma check_notify_incomplete:
  assumes "length r < 20 \<or> length r < unat (be16 r 2)"
  shows "check_notify r = Inr (False, r, None)"
proof (cases "length r < 20")
  case True
  then show ?thesis by (simp add: check_notify_def peek_def MIN_SIZE_def)
next
  case False
  then have "20 \<le> length r" by simp
  with IpV4_drop [OF this] assms False show ?thesis
    by (simp add: check_notify_def peek_def MIN_SIZE_def)
qed

lemma check_notify_prefix:
  assumes "packet_ok p" and "length r < length p" and "r @ rest = p @ suffix_p"
  shows "check_notify r = Inr (False, r, None)"
proof (cases "length r < 20")
  case True
  then show ?thesis by (simp add: check_notify_incomplete)
next
  case False
  have "be16 r 2 = be16 (r @ rest) 2" using False by (simp add: be16_append)
  also have "\<dots> = be16 p 2" using False assms(2,3) by (simp add: be16_append)
  finally show ?thesis
    using assms(1,2) by (intro check_notify_incomplete) (simp add: packet_ok_def)
qed

text \<open>The replies of a list of packets, and what is left of a list of packets in the buffer.\<close>

definition replies :: "string list \<Rightarrow> echo_response list" where
  "replies ps = List.map_filter packet_reply ps"

lemma replies_simps [simp]:
  "replies [] = []"
  "replies (p # ps) = (case packet_reply p of None \<Rightarrow> [] | Some r \<Rightarrow> [r]) @ replies ps"
  "replies (ps @ qs) = replies ps @ replies qs"
  by (simp_all add: replies_def List.map_filter_def split: option.splits)

lemma packet_nonempty: "packet_ok p \<Longrightarrow> p \<noteq> []"
  by (auto simp: packet_ok_def)

lemma concat_packets_Nil: "list_all packet_ok ps \<Longrightarrow> concat ps = [] \<longleftrightarrow> ps = []"
  by (cases ps) (auto dest: packet_nonempty)

lemma internal_check_packets:
  "list_all packet_ok ps \<Longrightarrow> check_notify r = Inr (False, r, None) \<Longrightarrow> length ps < fuel \<Longrightarrow>
     internal_check_notify fuel (concat ps @ r) = Inr (replies ps, r)"
proof (induction ps arbitrary: fuel)
  case Nil
  then obtain n where "fuel = Suc n" by (cases fuel) auto
  with Nil show ?case by simp
next
  case (Cons p ps)
  then obtain n where n: "fuel = Suc n" "length ps < n" by (cases fuel) auto
  have c: "check_notify (p @ concat ps @ r) = Inr (True, concat ps @ r, packet_reply p)"
    using Cons.prems(1) by (intro check_notify_packet) simp
  show ?case
  proof (cases "concat ps @ r = []")
    case True
    with concat_packets_Nil [of ps] Cons.prems(1) have "ps = []" "r = []" by auto
    with c n(1) show ?thesis by (simp add: data_size_def split: option.splits)
  next
    case False
    with c n Cons show ?thesis by (simp add: data_size_def split: option.splits)
  qed
qed

definition residue :: "string \<Rightarrow> string list \<Rightarrow> bool" where
  "residue r ps \<longleftrightarrow> (case ps of [] \<Rightarrow> r = [] | p # qs \<Rightarrow> length r < length p)"

lemma split_packets:
  "x @ y = concat ps \<Longrightarrow> list_all packet_ok ps \<Longrightarrow>
     \<exists>ps1 ps2 r. ps = ps1 @ ps2 \<and> x = concat ps1 @ r \<and> r @ y = concat ps2 \<and> residue r ps2"
proof (induction ps arbitrary: x)
  case Nil
  then show ?case by (simp add: residue_def)
next
  case (Cons p ps)
  show ?case
  proof (cases "length x < length p")
    case True
    with Cons.prems(1) show ?thesis by (intro exI [of _ "[]"] exI [of _ "p # ps"] exI [of _ x])
        (simp add: residue_def)
  next
    case False
    with Cons.prems(1) obtain x' where x: "x = p @ x'" "x' @ y = concat ps"
      by (auto simp: append_eq_append_conv2)
    from Cons.IH [OF x(2)] Cons.prems(2) obtain ps1 ps2 r where
      "ps = ps1 @ ps2" "x' = concat ps1 @ r" "r @ y = concat ps2" "residue r ps2" by auto
    with x(1) show ?thesis
      by (intro exI [of _ "p # ps1"] exI [of _ ps2] exI [of _ r]) simp
  qed
qed

lemma residue_check:
  "residue r ps \<Longrightarrow> list_all packet_ok ps \<Longrightarrow> r @ y = concat ps \<Longrightarrow> check_notify r = Inr (False, r, None)"
  by (cases ps) (auto simp: residue_def check_notify_incomplete intro: check_notify_prefix)

lemma receive_run_packets:
  "list_all packet_ok ps \<Longrightarrow> residue b ps \<Longrightarrow> b @ concat cs = concat ps \<Longrightarrow> length ps < fuel \<Longrightarrow>
     receive_run fuel cs b = Inr (replies ps, [])"
proof (induction cs arbitrary: b ps)
  case Nil
  then have "ps = []" by (cases ps) (auto simp: residue_def)
  with Nil show ?case by (simp add: residue_def)
next
  case (Cons c cs)
  have "(b @ c) @ concat cs = concat ps" using Cons.prems(3) by simp
  from split_packets [OF this Cons.prems(1)] obtain ps1 ps2 r where
    s: "ps = ps1 @ ps2" "b @ c = concat ps1 @ r" "r @ concat cs = concat ps2" "residue r ps2" by blast
  have ok: "list_all packet_ok ps1" "list_all packet_ok ps2" using Cons.prems(1) s(1) by simp_all
  have "internal_check_notify fuel (b @ c) = Inr (replies ps1, r)"
    unfolding s(2) using Cons.prems(4) s(1)
    by (intro internal_check_packets [OF ok(1) residue_check [OF s(4) ok(2) s(3)]]) simp
  moreover have "receive_run fuel cs r = Inr (replies ps2, [])"
    using Cons.prems(4) s(1) by (intro Cons.IH [OF ok(2) s(4,3)]) simp
  ultimately show ?case by (simp add: handle_receive_def append_data_def s(1))
qed

lemma negative_small: "0 < n \<Longrightarrow> n \<le> 28 \<Longrightarrow> (2 ^ 63 :: nat) \<le> unat (- (word_of_nat n :: u64))"
proof -
  assume n: "0 < n" "n \<le> 28"
  have z: "(word_of_nat (2 ^ 64) :: u64) = 0" by (simp add: word_of_nat_eq_0_iff)
  have "word_of_nat (2 ^ 64 - n) = word_of_nat (2 ^ 64) - (word_of_nat n :: u64)"
    by (rule of_nat_diff) (use n in simp)
  then have "- (word_of_nat n :: u64) = word_of_nat (2 ^ 64 - n)" by (simp only: z diff_0)
  also have "unat (word_of_nat (2 ^ 64 - n) :: u64) = 2 ^ 64 - n" using n by (subst unat_of_nat) simp
  finally show ?thesis using n by simp
qed

section \<open>Properties of a single thread\<close>

text \<open>
  C15. Reassembly: however the bytes of well-formed packets are cut into receives, the
  responses posted are exactly the echo replies among the packets, in order and with their
  identifiers, sequence numbers and data, and the buffer ends empty.
\<close>

theorem reassembly:
  assumes "list_all packet_ok ps" and "concat cs = concat ps" and "length ps < fuel"
  shows "receive_run fuel cs [] = Inr (replies ps, [])"
proof -
  have "residue [] ps"
    using assms(1) by (cases ps) (auto simp: residue_def dest: packet_nonempty)
  with receive_run_packets [OF assms(1) this] assms(2,3) show ?thesis by simp
qed

definition example_packet :: string where
  "example_packet =
     [CHR 0x45, CHR 0x00, CHR 0x00, CHR 0x1E, CHR 0xBE, CHR 0xEF, CHR 0x40, CHR 0x00, CHR 0x40, CHR 0x01] @
     replicate 10 CHR 0x7F @ [CHR 0x00, CHR 0x00, CHR 0x12, CHR 0x34, CHR 0x00, CHR 0x37, CHR 0x00, CHR 0x02] @
     ''hi''"

lemma example_packet_ok:
  "packet_ok example_packet" "packet_reply example_packet = Some (EchoResponse 55 2 ''hi'')"
proof -
  have "20 \<le> length example_packet \<and> length example_packet = 30 \<and> be16 example_packet 2 = 30" by code_simp
  then show "packet_ok example_packet" by (simp add: packet_ok_def)
  show "packet_reply example_packet = Some (EchoResponse 55 2 ''hi'')" by code_simp
qed

theorem reassembly_witness:
  "receive_run 3 [take 7 example_packet, drop 7 example_packet @ take 25 example_packet,
     drop 25 example_packet] [] = Inr ([EchoResponse 55 2 ''hi'', EchoResponse 55 2 ''hi''], [])"
  using example_packet_ok reassembly [of "[example_packet, example_packet]" "[take 7 example_packet,
    drop 7 example_packet @ take 25 example_packet, drop 25 example_packet]" 3] by simp

lemma check_notify_consumes:
  assumes "check_notify b = Inr (True, b', r)"
  shows "20 \<le> length b \<and> b' = drop (unat (be16 b 2)) b \<and> unat (be16 b 2) \<le> length b"
proof -
  have len: "20 \<le> length b"
    using assms check_notify_incomplete [of b] by (cases "length b < 20") auto
  moreover have "\<not> length b < unat (be16 b 2)"
    using assms check_notify_incomplete [of b] by auto
  ultimately show ?thesis using assms IpV4_drop [OF len]
    by (auto simp: check_notify_def peek_def MIN_SIZE_def discard_def Let_def result_simps
        split: if_splits)
qed

lemma check_notify_no_fuel: "check_notify b \<noteq> Inl Out_Of_Fuel"
proof (cases "20 \<le> length b")
  case False
  then show ?thesis by (simp add: check_notify_incomplete)
next
  case True
  have "IcmpHeader s \<noteq> Inl Out_Of_Fuel" for s
    by (auto simp: IcmpHeader_def read_byte_def read_unsigned_short_def result_simps split: list.splits)
  with IpV4_drop [OF True] show ?thesis
    by (auto simp: check_notify_def peek_def Let_def result_simps split: if_splits)
qed



text \<open>
  C17. Bad packets. A packet of another protocol whose length field is 0 is never taken out of
  the buffer, and the loop repeats for ever; an echo reply whose length field is below 28 makes the
  constructor of the data's vector throw.
\<close>

theorem bad_packets:
  assumes "28 \<le> length b"
  shows "(be16 b 2 = 0 \<and> byte_of_char (b ! 9) \<noteq> 1 \<longrightarrow>
       (\<forall>fuel. internal_check_notify fuel b = Inl Out_Of_Fuel)) \<and>
     (unat (be16 b 2) < 28 \<and> byte_of_char (b ! 9) = 1 \<and> byte_of_char (b ! 20) = 0 \<and>
        byte_of_char (b ! 21) = 0 \<longrightarrow>
       check_notify b = Inl (Std_Exception ''length_error''))"
proof -
  have ip: "IpV4 (length b) b = Inr (\<lparr>ip_length = be16 b 2, ip_proto = byte_of_char (b ! 9)\<rparr>, drop 20 b)"
    using assms by (intro IpV4_drop) simp
  have icmp: "IcmpHeader (drop 20 b) =
     Inr (\<lparr>icmp_type = byte_of_char (b ! 20), icmp_code = byte_of_char (b ! 21),
           icmp_checksum = be16 b 22, icmp_identifier = be16 b 24,
           icmp_sequence_number = be16 b 26\<rparr>, drop 28 b)"
    using IcmpHeader_drop [of 20 b] assms by simp
  {
    assume "be16 b 2 = 0" "byte_of_char (b ! 9) \<noteq> 1"
    then have check: "check_notify b = Inr (True, b, None)"
      using ip assms by (simp add: check_notify_def peek_def MIN_SIZE_def is_icmp_def discard_def)
    have "data_size b \<noteq> 0" using assms by (auto simp: data_size_def)
    with check have "internal_check_notify fuel b = Inl Out_Of_Fuel" for fuel
      by (induction fuel) simp_all
  }
  moreover
  {
    assume short: "unat (be16 b 2) < 28" and reply: "byte_of_char (b ! 9) = 1"
      "byte_of_char (b ! 20) = 0" "byte_of_char (b ! 21) = 0"
    have "word_of_nat (unat (be16 b 2)) - word_of_nat MIN_SIZE - 8 =
        - (word_of_nat (28 - unat (be16 b 2)) :: u64)"
      using short by (simp add: MIN_SIZE_def of_nat_diff)
    then have "(2 ^ 63 :: nat) \<le> unat (word_of_nat (unat (be16 b 2)) - word_of_nat MIN_SIZE - 8 :: u64)"
      using short by (simp only:) (rule negative_small, simp_all)
    with short ip icmp reply assms have "check_notify b = Inl (Std_Exception ''length_error'')"
      by (simp add: check_notify_def peek_def MIN_SIZE_def is_icmp_def RESPONSE_CODE_def
          RESPONSE_TYPE_def Let_def)
  }
  ultimately show ?thesis by blast
qed

theorem bad_packets_witness:
  "(\<forall>fuel. internal_check_notify fuel (replicate 28 CHR 0x00) = Inl Out_Of_Fuel) \<and>
   check_notify ((replicate 28 CHR 0x00)[9 := CHR 0x01]) = Inl (Std_Exception ''length_error'')"
proof -
  have "be16 (replicate 28 CHR 0x00) 2 = 0" "byte_of_char (replicate 28 CHR 0x00 ! 9) \<noteq> 1" by code_simp+
  moreover have "be16 ((replicate 28 CHR 0x00)[9 := CHR 0x01]) 2 = 0"
    "byte_of_char ((replicate 28 CHR 0x00)[9 := CHR 0x01] ! 9) = 1"
    "byte_of_char ((replicate 28 CHR 0x00)[9 := CHR 0x01] ! 20) = 0"
    "byte_of_char ((replicate 28 CHR 0x00)[9 := CHR 0x01] ! 21) = 0" by code_simp+
  ultimately show ?thesis
    using bad_packets [of "replicate 28 CHR 0x00"] bad_packets [of "(replicate 28 CHR 0x00)[9 := CHR 0x01]"]
    by simp
qed

section \<open>Many threads\<close>

text \<open>
  The tasks that have been posted to the \<open>io_service\<close> and not finished: a receive whose bytes
  are not yet in the buffer (the handler re-arms the socket before it appends them, so several can be
  under way), a check to make, the test after a check that consumed a packet, and a notice to
  deliver. \<open>wire\<close> are the datagrams still to come; a raw socket delivers one packet for each
  receive.
\<close>

datatype ping_task = Append string | Check | Test_Size | Deliver echo_response

record ping_state =
  wire :: "string list"
  data_buffer :: string
  tasks :: "ping_task multiset"
  delivered :: "echo_response list"

definition check_tasks :: "bool \<Rightarrow> echo_response option \<Rightarrow> ping_task multiset" where
  "check_tasks consumed response =
     (if consumed then {#Test_Size#} else {#}) +
     (case response of None \<Rightarrow> {#} | Some r \<Rightarrow> {#Deliver r#})"

inductive ping_step :: "ping_state \<Rightarrow> ping_state \<Rightarrow> bool" where
  receive: "wire s = d # ds \<Longrightarrow>
     ping_step s (s\<lparr>wire := ds, tasks := add_mset (Append d) (tasks s)\<rparr>)"
| append: "tasks s = add_mset (Append d) ts \<Longrightarrow>
     ping_step s (s\<lparr>data_buffer := append_data d (data_buffer s), tasks := add_mset Check ts\<rparr>)"
| check: "tasks s = add_mset Check ts \<Longrightarrow>
     check_notify (data_buffer s) = Inr (consumed, buffer', response) \<Longrightarrow>
     ping_step s (s\<lparr>data_buffer := buffer', tasks := ts + check_tasks consumed response\<rparr>)"
| more: "tasks s = add_mset Test_Size ts \<Longrightarrow> data_size (data_buffer s) \<noteq> 0 \<Longrightarrow>
     ping_step s (s\<lparr>tasks := add_mset Check ts\<rparr>)"
| stop: "tasks s = add_mset Test_Size ts \<Longrightarrow> data_size (data_buffer s) = 0 \<Longrightarrow>
     ping_step s (s\<lparr>tasks := ts\<rparr>)"
| deliver: "tasks s = add_mset (Deliver r) ts \<Longrightarrow>
     ping_step s (s\<lparr>tasks := ts, delivered := delivered s @ [r]\<rparr>)"

definition ping_start :: "string list \<Rightarrow> ping_state" where
  "ping_start ps = \<lparr>wire = ps, data_buffer = [], tasks = {#}, delivered = []\<rparr>"

text \<open>
  The invariant: the buffer is a list of whole packets, a check is due whenever it is not empty,
  and the replies of the packets on the way, in the buffer, to be delivered and delivered are
  together those of the start.
\<close>

fun task_replies :: "ping_task \<Rightarrow> echo_response multiset" where
  "task_replies (Append d) = mset (replies [d])"
| "task_replies (Deliver r) = {#r#}"
| "task_replies Check = {#}"
| "task_replies Test_Size = {#}"

definition outstanding :: "ping_task multiset \<Rightarrow> echo_response multiset" where
  "outstanding ts = \<Sum>\<^sub># (image_mset task_replies ts)"

lemma outstanding_simps [simp]:
  "outstanding {#} = {#}" "outstanding (add_mset t ts) = task_replies t + outstanding ts"
  "outstanding (ts + us) = outstanding ts + outstanding us"
  by (simp_all add: outstanding_def)

lemma outstanding_check_tasks [simp]:
  "outstanding (check_tasks consumed response) = (case response of None \<Rightarrow> {#} | Some r \<Rightarrow> {#r#})"
  by (simp add: check_tasks_def split: option.splits)

definition ping_inv :: "string list \<Rightarrow> ping_state \<Rightarrow> bool" where
  "ping_inv ps s \<longleftrightarrow>
     list_all packet_ok (wire s) \<and> (\<forall>d. Append d \<in># tasks s \<longrightarrow> packet_ok d) \<and>
     (\<exists>qs. list_all packet_ok qs \<and> data_buffer s = concat qs \<and>
        (qs \<noteq> [] \<longrightarrow> Check \<in># tasks s \<or> Test_Size \<in># tasks s) \<and>
        mset (replies (wire s)) + outstanding (tasks s) + mset (replies qs) + mset (delivered s) =
          mset (replies ps))"

lemma ping_inv_start: "list_all packet_ok ps \<Longrightarrow> ping_inv ps (ping_start ps)"
  by (auto simp: ping_inv_def ping_start_def intro!: exI [of _ "[]"])

lemma ping_step_inv: "ping_step s t \<Longrightarrow> ping_inv ps s \<Longrightarrow> ping_inv ps t"
proof (induction rule: ping_step.induct)
  case (receive s d ds)
  then show ?case
    by (auto simp: ping_inv_def list_all_iff ac_simps split: option.splits)
next
  case (append s d ts)
  then obtain qs where qs: "list_all packet_ok qs" "data_buffer s = concat qs"
    "mset (replies (wire s)) + outstanding (tasks s) + mset (replies qs) + mset (delivered s) =
       mset (replies ps)" by (auto simp: ping_inv_def)
  with append show ?case
    unfolding ping_inv_def
    by (intro conjI exI [of _ "qs @ [d]"]) (auto simp: append_data_def ac_simps)
next
  case (check s ts consumed buffer' response)
  then obtain qs where qs: "list_all packet_ok qs" "data_buffer s = concat qs"
    "mset (replies (wire s)) + outstanding (tasks s) + mset (replies qs) + mset (delivered s) =
       mset (replies ps)" by (auto simp: ping_inv_def)
  show ?case
  proof (cases qs)
    case Nil
    with qs check(2) have "consumed = False" "buffer' = []" "response = None"
      by (simp_all add: check_notify_incomplete)
    with check Nil qs show ?thesis
      unfolding ping_inv_def by (intro conjI exI [of _ "[]"]) (auto simp: check_tasks_def)
  next
    case (Cons q qs')
    have "check_notify (q @ concat qs') = Inr (True, concat qs', packet_reply q)"
      using qs(1) Cons by (intro check_notify_packet) simp
    with check(2) qs(2) Cons have "consumed" "buffer' = concat qs'" "response = packet_reply q" by simp_all
    with check Cons qs show ?thesis
      unfolding ping_inv_def
      by (intro conjI exI [of _ qs']) (auto simp: check_tasks_def ac_simps split: option.splits)
  qed
next
  case (more s ts)
  then show ?case by (auto simp: ping_inv_def)
next
  case (stop s ts)
  then obtain qs where qs: "list_all packet_ok qs" "data_buffer s = concat qs"
    "mset (replies (wire s)) + outstanding (tasks s) + mset (replies qs) + mset (delivered s) =
       mset (replies ps)" by (auto simp: ping_inv_def)
  with stop(2) have "qs = []" using concat_packets_Nil by (auto simp: data_size_def)
  with stop qs show ?case unfolding ping_inv_def by (intro conjI exI [of _ "[]"]) auto
next
  case (deliver s r ts)
  then show ?case by (auto simp: ping_inv_def ac_simps)
qed

lemma ping_steps_inv: "ping_step\<^sup>*\<^sup>* s t \<Longrightarrow> ping_inv ps s \<Longrightarrow> ping_inv ps t"
  by (induction rule: rtranclp_induct) (auto intro: ping_step_inv)

text \<open>A run that receives and delivers one reply.\<close>

definition example_end :: ping_state where
  "example_end = \<lparr>wire = [], data_buffer = [], tasks = {#}, delivered = [EchoResponse 55 2 ''hi'']\<rparr>"

lemma example_run: "ping_step\<^sup>*\<^sup>* (ping_start [example_packet]) example_end"
proof -
  let ?r = "EchoResponse 55 2 ''hi''"
  let ?a = "\<lparr>wire = [], data_buffer = [], tasks = {#Append example_packet#}, delivered = []\<rparr>"
  let ?b = "\<lparr>wire = [], data_buffer = example_packet, tasks = {#Check#}, delivered = []\<rparr>"
  let ?c = "\<lparr>wire = [], data_buffer = [], tasks = {#Deliver ?r, Test_Size#}, delivered = []\<rparr>"
  let ?d = "\<lparr>wire = [], data_buffer = [], tasks = {#Deliver ?r#}, delivered = []\<rparr>"
  have "ping_step (ping_start [example_packet]) ?a"
    using ping_step.receive [of "ping_start [example_packet]" example_packet "[]"]
    by (simp add: ping_start_def)
  moreover have "ping_step ?a ?b"
    using ping_step.append [of ?a example_packet "{#}"] by (simp add: append_data_def)
  moreover have "ping_step ?b ?c"
    using ping_step.check [of ?b "{#}" True "[]" "Some ?r"]
      check_notify_packet [OF example_packet_ok(1), of "[]"] example_packet_ok(2)
    by (simp add: check_tasks_def)
  moreover have "ping_step ?c ?d"
    using ping_step.stop [of ?c "{#Deliver ?r#}"] by (simp add: data_size_def add_mset_commute)
  moreover have "ping_step ?d example_end"
    using ping_step.deliver [of ?d ?r "{#}"] by (simp add: example_end_def)
  ultimately show ?thesis by (meson converse_rtranclp_into_rtranclp rtranclp.rtrancl_refl)
qed



text \<open>
  The steps still to come: at most six for a datagram on the wire, fewer the further it has got.
\<close>

fun task_weight :: "ping_task \<Rightarrow> nat" where
  "task_weight (Append d) = 5"
| "task_weight Check = 1"
| "task_weight Test_Size = 2"
| "task_weight (Deliver r) = 1"

definition potential :: "ping_state \<Rightarrow> nat \<Rightarrow> bool" where
  "potential s k \<longleftrightarrow> (\<exists>qs. list_all packet_ok qs \<and> data_buffer s = concat qs \<and>
     k = 6 * length (wire s) + (\<Sum>\<^sub># (image_mset task_weight (tasks s))) + 3 * length qs)"

definition state_weight :: "ping_state \<Rightarrow> nat" where
  "state_weight s = 6 * length (wire s) + (\<Sum>\<^sub># (image_mset task_weight (tasks s)))"

lemma potentialE:
  assumes "potential s k"
  obtains qs where "list_all packet_ok qs" "data_buffer s = concat qs" "k = state_weight s + 3 * length qs"
  using assms by (auto simp: potential_def state_weight_def)

lemma lower_potential:
  "list_all packet_ok qs \<Longrightarrow> data_buffer t = concat qs \<Longrightarrow> state_weight t + 3 * length qs < k \<Longrightarrow>
     \<exists>k' < k. potential t k'"
  by (auto simp: potential_def state_weight_def)

lemma ping_step_potential:
  "ping_step s t \<Longrightarrow> ping_inv ps s \<Longrightarrow> potential s k \<Longrightarrow> \<exists>k' < k. potential t k'"
proof (induction rule: ping_step.induct)
  case (receive s d ds)
  then show ?case by (auto elim!: potentialE intro!: lower_potential simp: state_weight_def)
next
  case (append s d ts)
  then obtain qs where qs: "list_all packet_ok qs" "data_buffer s = concat qs"
    "k = state_weight s + 3 * length qs" by (auto elim: potentialE)
  have "packet_ok d" using append by (simp add: ping_inv_def)
  with append(1) qs show ?case
    by (intro lower_potential [of "qs @ [d]"]) (simp_all add: append_data_def state_weight_def)
next
  case (check s ts consumed buffer' response)
  then obtain qs where qs: "list_all packet_ok qs" "data_buffer s = concat qs"
    "k = state_weight s + 3 * length qs" by (auto elim: potentialE)
  show ?case
  proof (cases qs)
    case Nil
    with qs check(2) have "consumed = False" "buffer' = []" "response = None"
      by (simp_all add: check_notify_incomplete)
    with check(1) qs Nil show ?thesis
      by (intro lower_potential [of "[]"]) (simp_all add: check_tasks_def state_weight_def)
  next
    case (Cons q qs')
    have "check_notify (q @ concat qs') = Inr (True, concat qs', packet_reply q)"
      using qs(1) Cons by (intro check_notify_packet) simp
    with check(2) qs(2) Cons have r: "consumed" "buffer' = concat qs'" "response = packet_reply q" by simp_all
    with check(1) qs Cons show ?thesis
      by (intro lower_potential [of qs'])
        (simp_all add: check_tasks_def state_weight_def split: option.splits)
  qed
next
  case (more s ts)
  then show ?case by (auto elim!: potentialE intro!: lower_potential simp: state_weight_def)
next
  case (stop s ts)
  then show ?case by (auto elim!: potentialE intro!: lower_potential simp: state_weight_def)
next
  case (deliver s r ts)
  then show ?case by (auto elim!: potentialE intro!: lower_potential simp: state_weight_def)
qed

lemma ping_run_potential:
  "(ping_step ^^ n) (ping_start ps) s \<Longrightarrow> list_all packet_ok ps \<Longrightarrow>
     ping_inv ps s \<and> (\<exists>k. potential s k \<and> n + k \<le> 6 * length ps)"
proof (induction n arbitrary: s)
  case 0
  have "potential (ping_start ps) (6 * length ps)"
    unfolding potential_def by (intro exI [of _ "[]"]) (simp add: ping_start_def)
  with 0 ping_inv_start show ?case by fastforce
next
  case (Suc n)
  from Suc.prems(1) obtain u where u: "(ping_step ^^ n) (ping_start ps) u" "ping_step u s" by auto
  with Suc.IH Suc.prems(2) obtain k where k: "ping_inv ps u" "potential u k" "n + k \<le> 6 * length ps" by blast
  from ping_step_potential [OF u(2) k(1,2)] obtain k' where "k' < k" "potential s k'" by blast
  with k(3) ping_step_inv [OF u(2) k(1)] show ?case by (intro conjI exI [of _ k']) simp_all
qed



end
