(* ===== verification/PingService.thy ===== *)
theory PingService
  imports Async ExampleCodec Ping
begin

text \<open>
  Blocks stored in the network: the publisher template (\<open>publisher.hpp\<close>), the translators
  between blocks and pings (\<open>block_ping_translator.hpp\<close>, \<open>pass_through_translator.cc\<close>),
  \<open>PingBlockService\<close> (\<open>ping_block_service.cc\<close>) with \<open>TrackFreedService\<close>
  (\<open>track_freed_service.cc\<close>), and the managers over them, \<open>PingBlockManager\<close>
  (\<open>ping_block_manager.cc\<close>) and \<open>DuplicatePingBlockManager\<close>
  (\<open>duplicate_ping_block_manager.cc\<close>). A block lives in the echo requests under way to the
  remote host, which answers each with its identifier, sequence number and data; the service sends
  the content of every answer again until the block has been freed. Protocol-buffer
  serialisation is a parameter, \<open>serialize\<close> and \<open>parse\<close>; that parsing undoes serialising is
  a hypothesis where it is used.
\<close>

section \<open>Publisher\<close>

text \<open>
  Subscribers are pointers; \<open>process_of\<close> is the virtual \<open>process\<close> of the object behind one. A
  notice goes to a copy of the list, so that a subscriber may unsubscribe while it is processed.
\<close>

definition subscribe :: "'p \<Rightarrow> 'p list \<Rightarrow> 'p list" where
  "subscribe subscriber subscribers = subscribers @ [subscriber]"

definition unsubscribe :: "'p \<Rightarrow> 'p list \<Rightarrow> 'p list" where
  "unsubscribe subscriber subscribers = filter (\<lambda>x. x \<noteq> subscriber) subscribers"

primrec notify :: "('p \<Rightarrow> 'n \<Rightarrow> 's \<Rightarrow> 's result) \<Rightarrow> 'p list \<Rightarrow> 'n \<Rightarrow> 's \<Rightarrow> 's result" where
  "notify process_of [] notice s = Inr s"
| "notify process_of (p # ps) notice s =
     bind_result (process_of p notice s) (\<lambda>s'. notify process_of ps notice s')"

section \<open>Translators\<close>

record translator =
  to_request :: "block \<Rightarrow> u16 \<Rightarrow> u16 \<Rightarrow> echo_request"
  from_response :: "echo_response \<Rightarrow> block result"

definition PassThroughTranslator :: "(block_proto \<Rightarrow> string) \<Rightarrow> (string \<Rightarrow> block_proto) \<Rightarrow> translator" where
  "PassThroughTranslator serialize parse =
     \<lparr>to_request = (\<lambda>block identifier sequence_number.
        let proto = block_gen_proto block; serialized = serialize proto
        in EchoRequest identifier sequence_number serialized),
      from_response = (\<lambda>response. let proto = parse (resp_data response) in Block_of_proto proto)\<rparr>"

section \<open>PingBlockService and TrackFreedService\<close>

record ping_service =
  fs_id :: u16
  service_id :: u16
  freed_ids :: "block_id set"

text \<open>The static \<open>id_generator_\<close> is the second argument and result.\<close>

definition PingBlockService_init :: "u16 \<Rightarrow> u16 \<Rightarrow> ping_service \<times> u16" where
  "PingBlockService_init fs id_generator =
     (\<lparr>fs_id = fs, service_id = id_generator, freed_ids = {}\<rparr>, id_generator + 1)"

definition translate :: "translator \<Rightarrow> block \<Rightarrow> ping_service \<Rightarrow> echo_request" where
  "translate tr b sv = to_request tr b (fs_id sv) (service_id sv)"

text \<open>What a call sends to the endpoint is returned as a list of requests.\<close>

definition register_block :: "translator \<Rightarrow> block \<Rightarrow> ping_service \<Rightarrow> echo_request list" where
  "register_block tr b sv = [translate tr b sv]"

definition track_free_block :: "block_id \<Rightarrow> ping_service \<Rightarrow> ping_service" where
  "track_free_block block_id sv = sv\<lparr>freed_ids := insert block_id (freed_ids sv)\<rparr>"

definition should_recycle :: "block_id \<Rightarrow> ping_service \<Rightarrow> bool \<times> ping_service" where
  "should_recycle block_id sv =
     (if block_id \<notin> freed_ids sv then (True, sv)
      else (False, sv\<lparr>freed_ids := freed_ids sv - {block_id}\<rparr>))"

text \<open>\<open>process\<close>, with the subscribers' reaction to a block as an argument.\<close>

definition service_process ::
  "translator \<Rightarrow> (block \<Rightarrow> 'a \<Rightarrow> 'a result) \<Rightarrow> echo_response \<Rightarrow> ping_service \<Rightarrow> 'a \<Rightarrow>
     (echo_request list \<times> ping_service \<times> 'a) result" where
  "service_process tr notify_subscribers resp sv a =
     (if resp_identifier resp \<noteq> fs_id sv then Inr ([], sv, a)
      else if resp_sequence_number resp \<noteq> service_id sv then Inr ([], sv, a)
      else bind_result (from_response tr resp) (\<lambda>block.
           bind_result (notify_subscribers block a) (\<lambda>a'.
             let (recycle, sv') = should_recycle (get_id block) sv
             in Inr (if recycle then [EchoRequest_of_response resp] else [], sv', a'))))"

section \<open>PingBlockManager and the network\<close>

text \<open>
  The manager, its service, and the requests under way. The remote host and the network answer each
  request once.
\<close>

record 'i ping_system =
  sys_ids :: 'i
  service :: ping_service
  async :: async_manager
  in_flight :: "echo_request multiset"

definition system_start :: "'i \<Rightarrow> ping_service \<Rightarrow> 'i ping_system" where
  "system_start ids sv = \<lparr>sys_ids = ids, service = sv, async = async_init, in_flight = {#}\<rparr>"

definition ping_create_block ::
  "'i id_supplier \<Rightarrow> translator \<Rightarrow> block_data \<Rightarrow> 'i ping_system \<Rightarrow> (block \<times> 'i ping_system) result" where
  "ping_create_block supplier tr data s =
     bind_result (supply_next supplier (sys_ids s)) (\<lambda>(next_id, ids').
       let block = mk_block next_id data
       in Inr (block, s\<lparr>sys_ids := ids',
                        in_flight := in_flight s + mset (register_block tr block (service s))\<rparr>))"

definition ping_free_block :: "block_id \<Rightarrow> 'i ping_system \<Rightarrow> 'i ping_system" where
  "ping_free_block block_id s = s\<lparr>service := track_free_block block_id (service s)\<rparr>"

definition ping_get_begin :: "block_request \<Rightarrow> 'i ping_system \<Rightarrow> (nat \<times> 'i ping_system) result" where
  "ping_get_begin request s =
     bind_result (get_blocks_begin request (async s)) (\<lambda>(p, a). Inr (p, s\<lparr>async := a\<rparr>))"

text \<open>\<open>delayed_send\<close>, which \<open>DuplicatePingBlockManager\<close> runs a while after \<open>create_block\<close>.\<close>

definition delayed_send :: "translator \<Rightarrow> block \<Rightarrow> 'i ping_system \<Rightarrow> 'i ping_system" where
  "delayed_send tr block s =
     s\<lparr>in_flight := in_flight s + mset (register_block tr block (service s))\<rparr>"

text \<open>
  \<open>DuplicatePingBlockManager::create_block\<close>: the block, and what the detached thread does to the
  system once it has slept.
\<close>

definition duplicate_create_block ::
  "'i id_supplier \<Rightarrow> translator \<Rightarrow> block_data \<Rightarrow> 'i ping_system \<Rightarrow>
     ((block \<times> ('i ping_system \<Rightarrow> 'i ping_system)) \<times> 'i ping_system) result" where
  "duplicate_create_block supplier tr data s =
     bind_result (ping_create_block supplier tr data s) (\<lambda>(ptr, s').
       Inr ((ptr, delayed_send tr ptr), s'))"

definition echo_reply :: "echo_request \<Rightarrow> echo_response" where
  "echo_reply req = EchoResponse (req_identifier req) (req_sequence_number req) (req_body req)"

text \<open>A request under way comes back as a response, and the service processes it.\<close>

definition pass :: "translator \<Rightarrow> echo_request \<Rightarrow> 'i ping_system \<Rightarrow> 'i ping_system result" where
  "pass tr req s =
     bind_result
       (service_process tr (notify (\<lambda>(_ :: unit) b a. async_process b a) (subscribe () []))
          (echo_reply req) (service s) (async s)) (\<lambda>(sent, sv, a).
       Inr (s\<lparr>service := sv, async := a, in_flight := in_flight s - {#req#} + mset sent\<rparr>))"

section \<open>Blocks under way\<close>

text \<open>What is used of a translator: a block is the body of its request, and is read back from it.\<close>

definition translator_ok :: "translator \<Rightarrow> (block \<Rightarrow> string) \<Rightarrow> bool" where
  "translator_ok tr body \<longleftrightarrow>
     (\<forall>b x y. to_request tr b x y = EchoRequest x y (body b)) \<and>
     (\<forall>b x y. from_response tr (EchoResponse x y (body b)) = Inr b)"

lemma PassThroughTranslator_ok:
  "\<forall>b. parse (serialize (block_gen_proto b)) = block_gen_proto b \<Longrightarrow>
     translator_ok (PassThroughTranslator serialize parse) (\<lambda>b. serialize (block_gen_proto b))"
  by (simp add: translator_ok_def PassThroughTranslator_def EchoResponse_def block_proto_roundtrip)

text \<open>\<open>circulating body M s\<close>: the blocks under way are \<open>M\<close>.\<close>

definition request_for :: "(block \<Rightarrow> string) \<Rightarrow> ping_service \<Rightarrow> block \<Rightarrow> echo_request" where
  "request_for body sv b = EchoRequest (fs_id sv) (service_id sv) (body b)"

definition circulating :: "(block \<Rightarrow> string) \<Rightarrow> block multiset \<Rightarrow> 'i ping_system \<Rightarrow> bool" where
  "circulating body M s \<longleftrightarrow>
     in_flight s = image_mset (request_for body (service s)) M \<and> (\<exists>hist. async_inv hist (async s))"

lemma translate_request: "translator_ok tr body \<Longrightarrow> translate tr b sv = request_for body sv b"
  by (simp add: translate_def request_for_def translator_ok_def)

lemma echo_reply_request:
  "echo_reply (request_for body sv b) = EchoResponse (fs_id sv) (service_id sv) (body b)"
  "EchoRequest_of_response (EchoResponse x y d) = EchoRequest x y d"
  by (simp_all add: echo_reply_def request_for_def EchoRequest_def EchoRequest_of_response_def EchoResponse_def)

lemma request_for_same_ids:
  "fs_id sv' = fs_id sv \<Longrightarrow> service_id sv' = service_id sv \<Longrightarrow> request_for body sv' = request_for body sv"
  by (rule ext) (simp add: request_for_def)

lemma request_for_freed [simp]: "request_for body (sv\<lparr>freed_ids := X\<rparr>) = request_for body sv"
  by (rule request_for_same_ids) simp_all

lemma request_for_inject:
  assumes "translator_ok tr body" and "request_for body sv b = request_for body sv c"
  shows "b = c"
proof -
  have "body b = body c" using assms(2) by (simp add: request_for_def EchoRequest_def)
  then have "from_response tr (EchoResponse 0 0 (body b)) = from_response tr (EchoResponse 0 0 (body c))"
    by simp
  then show ?thesis using assms(1) by (simp add: translator_ok_def)
qed

lemma should_recycle_ids:
  "should_recycle i sv = (r, sv') \<Longrightarrow> fs_id sv' = fs_id sv \<and> service_id sv' = service_id sv \<and>
     r = (i \<notin> freed_ids sv) \<and> freed_ids sv' = freed_ids sv - {i}"
  by (auto simp: should_recycle_def split: if_splits)

text \<open>A block that comes by goes to the waiting requests and is sent again unless it was freed.\<close>

lemma pass_block:
  assumes tr: "translator_ok tr body" and M: "circulating body (add_mset b M) s"
    and hist: "async_inv hist (async s)"
  shows "\<exists>s'. pass tr (request_for body (service s) b) s = Inr s' \<and>
     circulating body (if get_id b \<in> freed_ids (service s) then M else add_mset b M) s' \<and>
     sys_ids s' = sys_ids s \<and> freed_ids (service s') = freed_ids (service s) - {get_id b} \<and>
     fs_id (service s') = fs_id (service s) \<and> service_id (service s') = service_id (service s) \<and>
     async_inv (came b hist) (async s')"
proof -
  let ?sv = "service s"
  obtain a where a: "async_process b (async s) = Inr a" "async_inv (came b hist) a"
    using async_process_inv [OF hist] by blast
  obtain r sv' where r: "should_recycle (get_id b) ?sv = (r, sv')" by (cases "should_recycle (get_id b) ?sv")
  note ids = should_recycle_ids [OF r]
  have resp: "from_response tr (EchoResponse (fs_id ?sv) (service_id ?sv) (body b)) = Inr b"
    using tr by (simp add: translator_ok_def)
  have same: "request_for body sv' = request_for body ?sv" by (rule request_for_same_ids) (use ids in auto)
  let ?s = "s\<lparr>service := sv', async := a, in_flight := in_flight s - {#request_for body ?sv b#} +
      (if r then {#request_for body ?sv b#} else {#})\<rparr>"
  have "pass tr (request_for body ?sv b) s = Inr ?s"
    using resp a(1) r
    by (simp add: pass_def service_process_def echo_reply_request subscribe_def)
      (simp add: EchoResponse_def EchoRequest_of_response_def request_for_def)
  moreover have "circulating body (if get_id b \<in> freed_ids ?sv then M else add_mset b M) ?s"
    using M ids a(2) by (auto simp: circulating_def same)
  ultimately show ?thesis using ids a(2) by (intro exI [of _ ?s]) auto
qed

section \<open>A use of the manager\<close>

text \<open>
  What clients do, and requests under way that come back; \<open>Resend\<close> puts a block under way once
  more, as \<open>DuplicatePingBlockManager\<close> does and as other nodes do with theirs.
\<close>

datatype ping_event =
    Create_Block block_data
  | Free_Block block_id
  | Get_Blocks block_request
  | Pass echo_request
  | Resend block

fun ping_event_step ::
  "'i id_supplier \<Rightarrow> translator \<Rightarrow> ping_event \<Rightarrow> 'i ping_system \<Rightarrow> 'i ping_system result" where
  "ping_event_step supplier tr (Create_Block data) s =
     bind_result (ping_create_block supplier tr data s) (\<lambda>(b, s'). Inr s')"
| "ping_event_step supplier tr (Free_Block i) s = Inr (ping_free_block i s)"
| "ping_event_step supplier tr (Get_Blocks ids) s =
     bind_result (ping_get_begin ids s) (\<lambda>(p, s'). Inr s')"
| "ping_event_step supplier tr (Pass req) s = (if req \<in># in_flight s then pass tr req s else Inr s)"
| "ping_event_step supplier tr (Resend b) s = Inr (delayed_send tr b s)"

primrec ping_run ::
  "'i id_supplier \<Rightarrow> translator \<Rightarrow> ping_event list \<Rightarrow> 'i ping_system \<Rightarrow> 'i ping_system result" where
  "ping_run supplier tr [] s = Inr s"
| "ping_run supplier tr (e # es) s =
     bind_result (ping_event_step supplier tr e s) (\<lambda>s'. ping_run supplier tr es s')"

text \<open>How many copies of a block with the id are under way.\<close>

definition copies :: "translator \<Rightarrow> block_id \<Rightarrow> 'i ping_system \<Rightarrow> nat" where
  "copies tr i s = size (filter_mset (\<lambda>req. case from_response tr (echo_reply req) of
     Inl e \<Rightarrow> False | Inr b \<Rightarrow> get_id b = i) (in_flight s))"

definition id_copies :: "block_id \<Rightarrow> block multiset \<Rightarrow> nat" where
  "id_copies i M = size (filter_mset (\<lambda>b. get_id b = i) M)"

lemma id_copies_simps [simp]:
  "id_copies i {#} = 0" "id_copies i (add_mset b M) = (if get_id b = i then 1 else 0) + id_copies i M"
  by (simp_all add: id_copies_def)

lemma copies_circulating:
  assumes "translator_ok tr body" and "circulating body M s"
  shows "copies tr i s = id_copies i M"
proof -
  have "(case from_response tr (echo_reply (request_for body (service s) b)) of
      Inl e \<Rightarrow> False | Inr b \<Rightarrow> get_id b = i) \<longleftrightarrow> get_id b = i" for b
    using assms(1) by (simp add: echo_reply_request translator_ok_def)
  then show ?thesis
    using assms(2) by (simp add: copies_def circulating_def id_copies_def filter_mset_image_mset comp_def)
qed

lemma pass_in_flight:
  assumes "translator_ok tr body" and "circulating body M s" and "req \<in># in_flight s"
  obtains b N where "M = add_mset b N" "req = request_for body (service s) b"
  using assms by (auto simp: circulating_def dest!: multi_member_split)

fun frees :: "block_id \<Rightarrow> ping_event list \<Rightarrow> nat" where
  "frees i [] = 0"
| "frees i (Free_Block j # es) = (if j = i then 1 else 0) + frees i es"
| "frees i (_ # es) = frees i es"

fun resends :: "block_id \<Rightarrow> ping_event list \<Rightarrow> nat" where
  "resends i [] = 0"
| "resends i (Resend b # es) = (if get_id b = i then 1 else 0) + resends i es"
| "resends i (_ # es) = resends i es"

text \<open>One event keeps the blocks under way, but for one copy of a freed block.\<close>

lemma event_circulating:
  assumes tr: "translator_ok tr body" and M: "circulating body M s"
    and step: "ping_event_step supplier tr e s = Inr s'"
  shows "\<exists>M'. circulating body M' s' \<and>
     id_copies i M + resends i [e] + (if i \<in> freed_ids (service s') then 1 else 0) \<le>
       id_copies i M' + frees i [e] + (if i \<in> freed_ids (service s) then 1 else 0)"
proof (cases e)
  case (Create_Block data)
  with step obtain x ids' where "supply_next supplier (sys_ids s) = Inr (x, ids')"
    "s' = s\<lparr>sys_ids := ids', in_flight := in_flight s + {#translate tr (mk_block x data) (service s)#}\<rparr>"
    by (auto simp: ping_create_block_def register_block_def Let_def result_simps)
  with M have "circulating body (add_mset (mk_block x data) M) s'" "service s' = service s"
    by (auto simp: circulating_def translate_request [OF tr])
  with Create_Block show ?thesis by (intro exI [of _ "add_mset (mk_block x data) M"]) simp
next
  case (Free_Block j)
  with step M show ?thesis
    by (intro exI [of _ M]) (auto simp: ping_free_block_def track_free_block_def circulating_def)
next
  case (Get_Blocks ids)
  with step obtain p a where a: "get_blocks_begin ids (async s) = Inr (p, a)" "s' = s\<lparr>async := a\<rparr>"
    by (auto simp: ping_get_begin_def result_simps)
  obtain hist where "async_inv hist (async s)" using M by (auto simp: circulating_def)
  from get_blocks_begin_inv [OF this, of ids] a(1) have "async_inv (hist @ [(ids, [])]) a" by auto
  with M a(2) have "circulating body M s'" by (auto simp: circulating_def)
  with a(2) show ?thesis using Get_Blocks by (intro exI [of _ M]) simp
next
  case (Resend b)
  with step M have "circulating body (add_mset b M) s'" "service s' = service s"
    by (auto simp: delayed_send_def register_block_def circulating_def translate_request [OF tr])
  with Resend show ?thesis by (intro exI [of _ "add_mset b M"]) simp
next
  case (Pass req)
  show ?thesis
  proof (cases "req \<in># in_flight s")
    case False
    with Pass step M show ?thesis by (intro exI [of _ M]) simp
  next
    case True
    obtain b N where b: "M = add_mset b N" "req = request_for body (service s) b"
      using pass_in_flight [OF tr M True] by blast
    obtain hist where "async_inv hist (async s)" using M by (auto simp: circulating_def)
    from pass_block [OF tr M [unfolded b(1)] this] obtain s1 where s1:
      "pass tr req s = Inr s1" "freed_ids (service s1) = freed_ids (service s) - {get_id b}"
      "circulating body (if get_id b \<in> freed_ids (service s) then N else add_mset b N) s1"
      using b(2) by blast
    then have "s' = s1" using True Pass step by simp
    with s1 Pass show ?thesis
      by (intro exI [of _ "if get_id b \<in> freed_ids (service s) then N else add_mset b N"])
        (simp add: b(1))
  qed
qed

lemma run_circulating:
  "translator_ok tr body \<Longrightarrow> circulating body M s \<Longrightarrow> ping_run supplier tr es s = Inr s' \<Longrightarrow>
     \<exists>M'. circulating body M' s' \<and>
       id_copies i M + resends i es + (if i \<in> freed_ids (service s') then 1 else 0) \<le>
         id_copies i M' + frees i es + (if i \<in> freed_ids (service s) then 1 else 0)"
proof (induction es arbitrary: s M)
  case Nil
  then show ?case by auto
next
  case (Cons e es)
  then obtain t where t: "ping_event_step supplier tr e s = Inr t" "ping_run supplier tr es t = Inr s'"
    by (auto simp: result_simps)
  from event_circulating [OF Cons.prems(1,2) t(1), of i] obtain M1 where M1: "circulating body M1 t"
    "id_copies i M + resends i [e] + (if i \<in> freed_ids (service t) then 1 else 0) \<le>
       id_copies i M1 + frees i [e] + (if i \<in> freed_ids (service s) then 1 else 0)" by blast
  from Cons.IH [OF Cons.prems(1) M1(1) t(2)] obtain M2 where "circulating body M2 s'"
    "id_copies i M1 + resends i es + (if i \<in> freed_ids (service s') then 1 else 0) \<le>
       id_copies i M2 + frees i es + (if i \<in> freed_ids (service t) then 1 else 0)" by blast
  moreover have "frees i (e # es) = frees i [e] + frees i es" "resends i (e # es) = resends i [e] + resends i es"
    by (cases e; simp)+
  ultimately show ?case using M1(2) by (intro exI [of _ M2]) linarith
qed

text \<open>
  C25. No block is lost: over any events, the copies of a block under way become at most as
  many fewer as the block was freed (before, and not yet taken out, or in these events), and as many
  more as it was put under way again. A block that is never freed goes round for ever; and a block under way twice, as
  \<open>DuplicatePingBlockManager\<close> makes them, is still under way after one call of
  \<open>free_block\<close>.
\<close>

theorem no_block_lost:
  assumes "\<forall>b. parse (serialize (block_gen_proto b)) = block_gen_proto b"
    and "ping_run supplier (PassThroughTranslator serialize parse) es (system_start ids sv) = Inr s"
    and "ping_run supplier (PassThroughTranslator serialize parse) fs s = Inr t"
  shows "copies (PassThroughTranslator serialize parse) i s + resends i fs \<le>
     copies (PassThroughTranslator serialize parse) i t + frees i fs + (if i \<in> freed_ids (service s) then 1 else 0)"
proof -
  let ?body = "\<lambda>b. serialize (block_gen_proto b)"
  have tr: "translator_ok (PassThroughTranslator serialize parse) ?body"
    using assms(1) by (rule PassThroughTranslator_ok)
  have start: "circulating ?body {#} (system_start ids sv)"
    by (auto simp: circulating_def system_start_def async_inv_def async_init_def intro!: exI [of _ "[]"])
  obtain M where M: "circulating ?body M s" using run_circulating [OF tr start assms(2)] by blast
  obtain N where N: "circulating ?body N t"
    "id_copies i M + resends i fs + (if i \<in> freed_ids (service t) then 1 else 0) \<le>
       id_copies i N + frees i fs + (if i \<in> freed_ids (service s) then 1 else 0)"
    using run_circulating [OF tr M assms(3), of i] by blast
  with copies_circulating [OF tr M, of i] copies_circulating [OF tr N(1), of i]
  show ?thesis by linarith
qed

section \<open>An example\<close>

definition example_service :: ping_service where
  "example_service = fst (PingBlockService_init 55 0)"

definition example_translator :: translator where
  "example_translator = PassThroughTranslator example_serialize example_parse"

definition example_block :: block where
  "example_block = mk_block 1 (FileContentsBlockData ''x'')"

text \<open>A block created, sent twice and freed once: a copy is left when both have come back.\<close>

lemma example_translator_ok:
  "translator_ok example_translator (\<lambda>b. example_serialize (block_gen_proto b))"
  unfolding example_translator_def by (rule PassThroughTranslator_ok) (simp add: example_codec)

definition example_sent :: "counter ping_system" where
  "example_sent = \<lparr>sys_ids = 2, service = example_service, async = async_init,
     in_flight = {#translate example_translator example_block example_service,
                   translate example_translator example_block example_service#}\<rparr>"

lemma example_sent_run:
  "ping_run CounterSupplier example_translator
     [Create_Block (FileContentsBlockData ''x''), Resend example_block]
     (system_start counter_init example_service) = Inr example_sent"
  by (simp add: ping_create_block_def system_start_def delayed_send_def register_block_def
      CounterSupplier_def counter_next_id_def Let_def counter_init_def example_sent_def example_block_def)

lemma example_sent_circulating:
  "circulating (\<lambda>b. example_serialize (block_gen_proto b)) {#example_block, example_block#} example_sent"
  by (auto simp: circulating_def example_sent_def async_inv_def async_init_def
      translate_request [OF example_translator_ok] intro!: exI [of _ "[]"])

lemma example_freed_run:
  "\<exists>t. ping_run CounterSupplier example_translator
     [Free_Block 1, Pass (translate example_translator example_block example_service),
      Pass (translate example_translator example_block example_service)] example_sent = Inr t"
proof -
  let ?body = "\<lambda>b. example_serialize (block_gen_proto b)"
  note tr = example_translator_ok
  let ?s = "ping_free_block 1 example_sent"
  have sv: "service example_sent = example_service" "freed_ids (service ?s) = {1}"
    "fs_id (service ?s) = fs_id example_service" "service_id (service ?s) = service_id example_service"
    by (simp_all add: example_sent_def ping_free_block_def track_free_block_def example_service_def
        PingBlockService_init_def)
  have s: "circulating ?body (add_mset example_block {#example_block#}) ?s"
    using example_sent_circulating by (auto simp: circulating_def ping_free_block_def track_free_block_def)
  then obtain hist where "async_inv hist (async ?s)" by (auto simp: circulating_def)
  from pass_block [OF tr s this] obtain s1 where s1:
    "pass example_translator (request_for ?body (service ?s) example_block) ?s = Inr s1"
    "circulating ?body {#example_block#} s1" "freed_ids (service s1) = {}"
    "fs_id (service s1) = fs_id example_service" "service_id (service s1) = service_id example_service"
    using sv by (auto simp: example_block_def)
  then obtain hist1 where "async_inv hist1 (async s1)" by (auto simp: circulating_def)
  from pass_block [OF tr s1(2) this] obtain s2 where s2:
    "pass example_translator (request_for ?body (service s1) example_block) s1 = Inr s2"
    by blast
  have same: "request_for ?body (service ?s) = request_for ?body example_service"
    "request_for ?body (service s1) = request_for ?body example_service"
    using sv s1(4,5) by (intro request_for_same_ids; simp)+
  have "request_for ?body example_service example_block \<in># in_flight ?s"
    "request_for ?body example_service example_block \<in># in_flight s1"
    using s s1(2) same by (auto simp: circulating_def)
  then show ?thesis using s1(1) s2 same by (simp add: translate_request [OF tr])
qed

theorem no_block_lost_witness:
  "\<exists>t. bind_result (duplicate_create_block CounterSupplier example_translator (FileContentsBlockData ''x'')
       (system_start counter_init example_service)) (\<lambda>((b, thread), s). Inr (thread s)) = Inr example_sent \<and>
     copies example_translator 1 example_sent = 2 \<and> ping_run CounterSupplier example_translator
     [Free_Block 1, Pass (translate example_translator example_block example_service),
      Pass (translate example_translator example_block example_service)] example_sent = Inr t \<and>
     1 \<le> copies example_translator 1 t"
proof -
  obtain t where t: "ping_run CounterSupplier example_translator
     [Free_Block 1, Pass (translate example_translator example_block example_service),
      Pass (translate example_translator example_block example_service)] example_sent = Inr t"
    using example_freed_run by blast
  have two: "copies example_translator 1 example_sent = 2"
    using copies_circulating [OF example_translator_ok example_sent_circulating, of 1]
    by (simp add: example_block_def)
  have dup: "bind_result (duplicate_create_block CounterSupplier example_translator (FileContentsBlockData ''x'')
       (system_start counter_init example_service)) (\<lambda>((b, thread), s). Inr (thread s)) = Inr example_sent"
    using example_sent_run
    by (auto simp: duplicate_create_block_def ping_create_block_def CounterSupplier_def counter_next_id_def
        counter_init_def example_block_def system_start_def Let_def)
  have "1 \<notin> freed_ids (service example_sent)"
    by (simp add: example_sent_def example_service_def PingBlockService_init_def)
  with no_block_lost [OF _ example_sent_run [unfolded example_translator_def]
      t [unfolded example_translator_def], of 1] example_codec two t dup show ?thesis
    by (auto simp: example_translator_def)
qed

section \<open>The network as a store\<close>

text \<open>
  The abstract store: the next id of a \<open>CounterSupplier\<close> and the blocks that have been created
  and not freed. \<open>net_ok\<close> are the uses of a \<open>PingBlockManager\<close> that free only blocks there
  are, and do not use up the ids.
\<close>

type_synonym net_store = "counter \<times> (block_id \<rightharpoonup> block_data)"

fun net_spec_step :: "ping_event \<Rightarrow> net_store \<Rightarrow> net_store" where
  "net_spec_step (Create_Block data) (n, L) = (n + 1, L(n \<mapsto> data))"
| "net_spec_step (Free_Block i) (n, L) = (n, L(i := None))"
| "net_spec_step (Get_Blocks ids) x = x"
| "net_spec_step (Pass req) x = x"
| "net_spec_step (Resend b) x = x"

fun net_ok_step :: "ping_event \<Rightarrow> net_store \<Rightarrow> bool" where
  "net_ok_step (Create_Block data) (n, L) \<longleftrightarrow> n \<noteq> 0"
| "net_ok_step (Free_Block i) (n, L) \<longleftrightarrow> L i \<noteq> None"
| "net_ok_step (Resend b) x \<longleftrightarrow> False"
| "net_ok_step (Get_Blocks ids) x \<longleftrightarrow> True"
| "net_ok_step (Pass req) x \<longleftrightarrow> True"

fun net_spec :: "ping_event list \<Rightarrow> net_store \<Rightarrow> net_store" where
  "net_spec [] x = x"
| "net_spec (e # es) x = net_spec es (net_spec_step e x)"

fun net_ok :: "ping_event list \<Rightarrow> net_store \<Rightarrow> bool" where
  "net_ok [] x \<longleftrightarrow> True"
| "net_ok (e # es) x \<longleftrightarrow> net_ok_step e x \<and> net_ok es (net_spec_step e x)"

definition net_start :: net_store where "net_start = (counter_init, Map.empty)"

text \<open>A system represents a store: what is under way and not freed is exactly what is stored.\<close>

definition net_rel :: "(block \<Rightarrow> string) \<Rightarrow> counter ping_system \<Rightarrow> net_store \<Rightarrow> bool" where
  "net_rel body s x \<longleftrightarrow> (\<exists>M. circulating body M s \<and> sys_ids s = fst x \<and>
     (\<forall>i. id_copies i M \<le> 1) \<and>
     (\<forall>i d. snd x i = Some d \<longleftrightarrow> mk_block i d \<in># M \<and> i \<notin> freed_ids (service s)) \<and>
     (fst x \<noteq> 0 \<longrightarrow> (\<forall>b \<in># M. get_id b < fst x) \<and> (\<forall>i \<in> freed_ids (service s). i < fst x)))"

lemma id_copies_member: "b \<in># M \<Longrightarrow> 1 \<le> id_copies (get_id b) M"
  by (auto dest!: multi_member_split)

lemma id_copies_unique: "id_copies (get_id b) (add_mset b N) \<le> 1 \<Longrightarrow> c \<in># N \<Longrightarrow> get_id c \<noteq> get_id b"
  using id_copies_member [of c N] by auto

lemma less_Suc_id: "i < n \<Longrightarrow> n + 1 \<noteq> 0 \<Longrightarrow> i < n + (1 :: u64)"
  by (simp add: word_less_nat_alt unat_u64_Suc)

lemma Suc_id_less: "n + 1 \<noteq> 0 \<Longrightarrow> n < n + (1 :: u64)"
  by (simp add: word_less_nat_alt unat_u64_Suc)

lemma net_step:
  assumes tr: "translator_ok tr body" and rel: "net_rel body s x" and ok: "net_ok_step e x"
  shows "\<exists>s'. ping_event_step CounterSupplier tr e s = Inr s' \<and> net_rel body s' (net_spec_step e x)"
proof -
  obtain n L where x: "x = (n, L)" by (cases x)
  obtain M where M: "circulating body M s" "sys_ids s = n" "\<forall>i. id_copies i M \<le> 1"
    "\<forall>i d. L i = Some d \<longleftrightarrow> mk_block i d \<in># M \<and> i \<notin> freed_ids (service s)"
    "n \<noteq> 0 \<longrightarrow> (\<forall>b \<in># M. get_id b < n) \<and> (\<forall>i \<in> freed_ids (service s). i < n)"
    using rel x by (auto simp: net_rel_def)
  obtain hist where hist: "async_inv hist (async s)" using M(1) by (auto simp: circulating_def)
  show ?thesis
  proof (cases e)
    case (Create_Block data)
    then have n: "n \<noteq> 0" using ok x by simp
    let ?b = "mk_block n data"
    let ?s = "s\<lparr>sys_ids := n + 1, in_flight := in_flight s + {#translate tr ?b (service s)#}\<rparr>"
    have "ping_event_step CounterSupplier tr e s = Inr ?s"
      using Create_Block n M(2)
      by (simp add: ping_create_block_def CounterSupplier_def counter_next_id_def register_block_def Let_def)
    moreover have "circulating body (add_mset ?b M) ?s"
      using M(1) by (auto simp: circulating_def translate_request [OF tr])
    moreover have fresh: "\<forall>b \<in># M. get_id b \<noteq> n" "n \<notin> freed_ids (service s)" using M(5) n by auto
    moreover have "id_copies n M = 0" using fresh(1) by (auto simp: id_copies_def filter_mset_eq_conv)
    then have "\<forall>i. id_copies i (add_mset ?b M) \<le> 1" using M(3) by auto
    moreover have "mk_block n d \<notin># M" for d using fresh(1) by fastforce
    then have "\<forall>i d. (L(n \<mapsto> data)) i = Some d \<longleftrightarrow>
        mk_block i d \<in># add_mset ?b M \<and> i \<notin> freed_ids (service ?s)"
      using M(4) fresh(2) by auto
    ultimately show ?thesis
      using Create_Block x n M(5) less_Suc_id Suc_id_less unfolding net_rel_def
      by (intro exI [of _ ?s] conjI exI [of _ "add_mset ?b M"]) auto
  next
    case (Free_Block j)
    then obtain d where "L j = Some d" using ok x by auto
    then have "mk_block j d \<in># M" using M(4) by simp
    then have j: "n \<noteq> 0 \<longrightarrow> j < n" using M(5) by fastforce
    show ?thesis
      unfolding net_rel_def
      by (intro exI [of _ "ping_free_block j s"] conjI exI [of _ M])
        (use Free_Block x M j in \<open>auto simp: ping_free_block_def track_free_block_def circulating_def\<close>)
  next
    case (Get_Blocks ids)
    from get_blocks_begin_inv [OF hist, of ids] obtain a where
      a: "get_blocks_begin ids (async s) = Inr (length hist, a)" "async_inv (hist @ [(ids, [])]) a" by blast
    show ?thesis
      unfolding net_rel_def
      by (intro exI [of _ "s\<lparr>async := a\<rparr>"] conjI exI [of _ M])
        (use Get_Blocks x M a in \<open>auto simp: ping_get_begin_def circulating_def\<close>)
  next
    case (Resend b)
    with ok show ?thesis by simp
  next
    case (Pass req)
    show ?thesis
    proof (cases "req \<in># in_flight s")
      case False
      with Pass rel x show ?thesis by simp
    next
      case True
      obtain b N where b: "M = add_mset b N" "req = request_for body (service s) b"
        using pass_in_flight [OF tr M(1) True] by blast
      let ?M = "if get_id b \<in> freed_ids (service s) then N else add_mset b N"
      from pass_block [OF tr M(1) [unfolded b(1)] hist] b(2) obtain s1 where s1:
        "pass tr req s = Inr s1" "circulating body ?M s1" "sys_ids s1 = sys_ids s"
        "freed_ids (service s1) = freed_ids (service s) - {get_id b}" by blast
      have uniq: "get_id c \<noteq> get_id b" if "c \<in># N" for c
        using M(3) b(1) id_copies_unique [OF _ that, of b] by blast
      have "net_rel body s1 (n, L)"
      proof (cases "get_id b \<in> freed_ids (service s)")
        case True
        have "L i = Some d \<longleftrightarrow> mk_block i d \<in># N \<and> i \<notin> freed_ids (service s1)" for i d
          using M(4) uniq [of "mk_block i d"] True unfolding b(1) s1(4)
          by (cases "i = get_id b") auto
        moreover have "id_copies i N \<le> 1" for i
          using M(3) unfolding b(1) by (metis add_leD2 id_copies_simps(2))
        ultimately show ?thesis
          using True s1 M(2,5) unfolding net_rel_def b(1) by (intro exI [of _ N]) auto
      next
        case False
        with s1 M(2-5) show ?thesis unfolding net_rel_def b(1) by (intro exI [of _ "add_mset b N"]) auto
      qed
      with Pass True x s1(1) show ?thesis by simp
    qed
  qed
qed

lemma net_run:
  "translator_ok tr body \<Longrightarrow> net_rel body s x \<Longrightarrow> net_ok es x \<Longrightarrow>
     \<exists>s'. ping_run CounterSupplier tr es s = Inr s' \<and> net_rel body s' (net_spec es x)"
proof (induction es arbitrary: s x)
  case Nil
  then show ?case by simp
next
  case (Cons e es)
  from net_step [OF Cons.prems(1,2), of e] Cons.prems(3) obtain t where
    t: "ping_event_step CounterSupplier tr e s = Inr t" "net_rel body t (net_spec_step e x)" by auto
  with Cons.IH [OF Cons.prems(1) t(2)] Cons.prems(3) show ?case by auto
qed

lemma net_rel_start: "net_rel body (system_start counter_init sv) net_start" if "freed_ids sv = {}"
  unfolding net_rel_def using that
  by (intro exI [of _ "{#}"])
    (auto simp: circulating_def system_start_def net_start_def async_inv_def async_init_def
      intro!: exI [of _ "[]"])

definition ping_holds :: "translator \<Rightarrow> 'i ping_system \<Rightarrow> block_id \<Rightarrow> block_data \<Rightarrow> bool" where
  "ping_holds tr s i d \<longleftrightarrow> i \<notin> freed_ids (service s) \<and>
     (\<exists>req \<in># in_flight s. from_response tr (echo_reply req) = Inr (mk_block i d))"

lemma ping_holds_circulating:
  assumes "translator_ok tr body" and "circulating body M s"
  shows "ping_holds tr s i d \<longleftrightarrow> mk_block i d \<in># M \<and> i \<notin> freed_ids (service s)"
  using assms by (auto simp: ping_holds_def circulating_def echo_reply_request translator_ok_def)

text \<open>
  C24. The pings under way are a store: whatever its clients create, free and ask for and in
  whatever order the pings come back, the manager throws nothing, and a block is under way and not
  marked as freed exactly when it was created and not freed since, with the data it was created with;
  no id is under way more than once.
\<close>

theorem pings_are_a_store:
  assumes "\<forall>b. parse (serialize (block_gen_proto b)) = block_gen_proto b"
    and "freed_ids sv = {}" and "net_ok es net_start"
  shows "\<exists>s. ping_run CounterSupplier (PassThroughTranslator serialize parse) es (system_start counter_init sv) = Inr s \<and>
     (\<forall>i d. ping_holds (PassThroughTranslator serialize parse) s i d \<longleftrightarrow> snd (net_spec es net_start) i = Some d) \<and>
     (\<forall>i. copies (PassThroughTranslator serialize parse) i s \<le> 1)"
proof -
  note tr = PassThroughTranslator_ok [OF assms(1)]
  from net_run [OF tr net_rel_start [OF assms(2)] assms(3)] obtain s where
    s: "ping_run CounterSupplier (PassThroughTranslator serialize parse) es (system_start counter_init sv) = Inr s"
    "net_rel (\<lambda>b. serialize (block_gen_proto b)) s (net_spec es net_start)" by blast
  then obtain M where M: "circulating (\<lambda>b. serialize (block_gen_proto b)) M s" "\<forall>i. id_copies i M \<le> 1"
    "\<forall>i d. snd (net_spec es net_start) i = Some d \<longleftrightarrow> mk_block i d \<in># M \<and> i \<notin> freed_ids (service s)"
    by (auto simp: net_rel_def)
  with s(1) ping_holds_circulating [OF tr M(1)] copies_circulating [OF tr M(1)]
  show ?thesis by auto
qed

definition example_events :: "ping_event list" where
  "example_events =
     [Create_Block (FileContentsBlockData ''x''), Create_Block (FileContentsBlockData ''y''),
      Pass (translate example_translator example_block example_service), Free_Block 2]"

lemma example_net:
  "net_ok example_events net_start \<and>
     map (snd (net_spec example_events net_start)) [1, 2] = [Some (FileContentsBlockData ''x''), None]"
  by (simp add: example_events_def net_start_def counter_init_def)

lemma example_service_fresh: "freed_ids example_service = {}"
  by (simp add: example_service_def PingBlockService_init_def)

theorem pings_are_a_store_witness:
  "\<exists>s. ping_run CounterSupplier (PassThroughTranslator example_serialize example_parse) example_events
     (system_start counter_init example_service) = Inr s \<and>
   ping_holds (PassThroughTranslator example_serialize example_parse) s 1 (FileContentsBlockData ''x'')"
  using pings_are_a_store [OF _ example_service_fresh, of example_parse example_serialize example_events]
    example_codec example_net by auto

lemma passing_run:
  assumes tr: "translator_ok tr body"
  shows "circulating body M s \<Longrightarrow> async_inv hist (async s) \<Longrightarrow>
     \<forall>b \<in> set bs. b \<in># M \<and> get_id b \<notin> freed_ids (service s) \<Longrightarrow>
     \<exists>s'. ping_run supplier tr (map (\<lambda>b. Pass (translate tr b (service s))) bs) s = Inr s' \<and>
       async_inv (histories hist (map Arrive bs)) (async s')"
proof (induction bs arbitrary: s hist)
  case Nil
  then show ?case by simp
next
  case (Cons b bs)
  then obtain N where N: "M = add_mset b N" by (auto dest: multi_member_split)
  from pass_block [OF tr Cons.prems(1) [unfolded N] Cons.prems(2)] Cons.prems(3) obtain t where
    t: "pass tr (request_for body (service s) b) s = Inr t" "circulating body M t"
    "freed_ids (service t) = freed_ids (service s) - {get_id b}"
    "fs_id (service t) = fs_id (service s)" "service_id (service t) = service_id (service s)"
    "async_inv (came b hist) (async t)"
    by (auto simp: N)
  have "request_for body (service s) b \<in># in_flight s"
    using Cons.prems(1) N by (simp add: circulating_def)
  then have "ping_event_step supplier tr (Pass (translate tr b (service s))) s = Inr t"
    using t(1) by (simp add: translate_request [OF tr])
  moreover have "translate tr c (service t) = translate tr c (service s)" for c
    using t(4,5) by (simp add: translate_def)
  moreover have "\<forall>c \<in> set bs. c \<in># M \<and> get_id c \<notin> freed_ids (service t)"
    using Cons.prems(3) t(3) by auto
  ultimately show ?case using Cons.IH [OF t(2,6)] by simp
qed

lemma arrivals_Arrive [simp]: "arrivals (map Arrive bs) = bs"
  by (induction bs) simp_all

text \<open>
  Reading from the network: a request for stored blocks is answered once the pings of all
  of them have come by, with the data that was stored, each block once, in the order in which they
  came by.
\<close>

theorem pings_answer:
  assumes codec: "\<forall>b. parse (serialize (block_gen_proto b)) = block_gen_proto b"
    and "freed_ids sv = {}" and "net_ok es net_start"
    and run: "ping_run CounterSupplier (PassThroughTranslator serialize parse) es
       (system_start counter_init sv) = Inr s"
    and bs: "\<forall>b \<in> set bs. snd (net_spec es net_start) (get_id b) = Some (get_data b)"
    and ids: "set ids \<subseteq> get_id ` set bs"
  shows "\<exists>p s1 s2. ping_get_begin ids s = Inr (p, s1) \<and>
     ping_run CounterSupplier (PassThroughTranslator serialize parse)
       (map (\<lambda>b. Pass (translate (PassThroughTranslator serialize parse) b (service s))) bs) s1 = Inr s2 \<and>
     get_blocks_end p (async s2) = Some (firsts (set ids) bs)"
proof -
  let ?body = "\<lambda>b. serialize (block_gen_proto b)"
  note tr = PassThroughTranslator_ok [OF codec]
  from net_run [OF tr net_rel_start [OF assms(2)] assms(3)] run
  have "net_rel ?body s (net_spec es net_start)" by auto
  then obtain M hist where M: "circulating ?body M s" "async_inv hist (async s)"
    "\<forall>i d. snd (net_spec es net_start) i = Some d \<longleftrightarrow> mk_block i d \<in># M \<and> i \<notin> freed_ids (service s)"
    by (auto simp: net_rel_def circulating_def)
  from get_blocks_begin_inv [OF M(2), of ids] obtain a where
    a: "get_blocks_begin ids (async s) = Inr (length hist, a)" "async_inv (hist @ [(ids, [])]) a" by blast
  let ?s = "s\<lparr>async := a\<rparr>"
  have c: "circulating ?body M ?s" using M(1) a(2) by (auto simp: circulating_def)
  have "\<forall>b \<in> set bs. b \<in># M \<and> get_id b \<notin> freed_ids (service ?s)"
  proof
    fix b assume "b \<in> set bs"
    then have "mk_block (get_id b) (get_data b) \<in># M \<and> get_id b \<notin> freed_ids (service s)"
      using bs M(3) by blast
    moreover have "mk_block (get_id b) (get_data b) = b" by (cases b) simp
    ultimately show "b \<in># M \<and> get_id b \<notin> freed_ids (service ?s)" by simp
  qed
  from passing_run [OF tr c _ this, of "hist @ [(ids, [])]" CounterSupplier] a(2) obtain t where
    t: "ping_run CounterSupplier (PassThroughTranslator serialize parse)
       (map (\<lambda>b. Pass (translate (PassThroughTranslator serialize parse) b (service s))) bs) ?s = Inr t"
    "async_inv (histories (hist @ [(ids, [])]) (map Arrive bs)) (async t)" by auto
  have "responses (async t) ! length hist = response_after ids bs"
    using t(2) histories_old [of "length hist" "hist @ [(ids, [])]" "map Arrive bs"]
    by (simp add: async_inv_iff histories_length nth_append)
  then have "get_blocks_end (length hist) (async t) = Some (firsts (set ids) bs)"
    using ids by (simp add: get_blocks_end_def response_after_def)
  moreover have "ping_get_begin ids s = Inr (length hist, ?s)" using a(1) by (simp add: ping_get_begin_def)
  ultimately show ?thesis using t(1) by blast
qed

theorem pings_answer_witness:
  "\<exists>s p s1 s2. ping_run CounterSupplier (PassThroughTranslator example_serialize example_parse) example_events
       (system_start counter_init example_service) = Inr s \<and> ping_get_begin [1] s = Inr (p, s1) \<and>
     ping_run CounterSupplier (PassThroughTranslator example_serialize example_parse)
       [Pass (translate (PassThroughTranslator example_serialize example_parse) example_block (service s))] s1 =
       Inr s2 \<and> get_blocks_end p (async s2) = Some [example_block]"
proof -
  have codec: "\<forall>b. example_parse (example_serialize (block_gen_proto b)) = block_gen_proto b"
    by (simp add: example_codec)
  have ok: "net_ok example_events net_start" using example_net by simp
  from net_run [OF PassThroughTranslator_ok [OF codec] net_rel_start [OF example_service_fresh] ok] obtain s where
    s: "ping_run CounterSupplier (PassThroughTranslator example_serialize example_parse) example_events
      (system_start counter_init example_service) = Inr s" by blast
  have "\<forall>b \<in> set [example_block]. snd (net_spec example_events net_start) (get_id b) = Some (get_data b)"
    "set [1] \<subseteq> get_id ` set [example_block]" "firsts (set [1]) [example_block] = [example_block]"
    using example_net by (simp_all add: example_block_def)
  with pings_answer [OF codec example_service_fresh ok s, of "[example_block]" "[1]"] s show ?thesis by auto
qed

end
