(* ===== verification/FsUtil.thy ===== *)
theory FsUtil
  imports Prelude
begin

text \<open>
  Path strings: \<open>FsUtil::separate_path\<close> and \<open>FsUtil::join\<close> (\<open>fs_util.cc\<close>), the index
  loops as the code has them, with a structural specification (\<open>split_at_sep\<close>,
  \<open>join_parts\<close>) that the loops are proved equal to, and the two round trips.
\<close>

definition PATH_SEPARATOR :: string where "PATH_SEPARATOR = ''/''"

section \<open>Separating a path\<close>

text \<open>
  The loop of \<open>separate_path\<close> from \<open>from_index\<close>: each \<open>find\<close> that is not \<open>npos\<close>
  pushes the part before the separator and moves past it; the code after the loop pushes the
  suffix, which throws when \<open>from_index\<close> is past the end of the string.
\<close>

lemma find_char_from_decreases:
  "find_char_from c s from = Some i \<Longrightarrow> length s - Suc i < length s - from"
  using find_char_from_Some [of c s "from" i] by linarith

function separate_loop :: "string \<Rightarrow> nat \<Rightarrow> string list \<Rightarrow> string list result" where
  "separate_loop abs_path from_index split_path =
     (case find_char_from (CHR ''/'') abs_path from_index of
        None \<Rightarrow>
          bind_result (substr_from abs_path from_index) (\<lambda>suffix. Inr (split_path @ [suffix]))
      | Some index \<Rightarrow>
          bind_result (substr abs_path from_index (index - from_index)) (\<lambda>part.
            separate_loop abs_path (index + 1) (split_path @ [part])))"
  by pat_completeness auto
termination
  by (relation "measure (\<lambda>(s, from, _). length s - from)")
     (auto dest: find_char_from_decreases)

declare separate_loop.simps [simp del]

definition separate_path :: "string \<Rightarrow> string list result" where
  "separate_path abs_path =
     (if abs_path = PATH_SEPARATOR then Inr [PATH_SEPARATOR]
      else separate_loop abs_path 1 [PATH_SEPARATOR])"

section \<open>Joining parts\<close>

text \<open>
  The loop of \<open>join\<close> runs for \<open>i < paths.size() - 1\<close> in \<open>size_t\<close>: for the empty
  vector the bound wraps to the largest \<open>size_t\<close> and the first access is out of range.
\<close>

fun join_loop :: "string list \<Rightarrow> string \<Rightarrow> string" where
  "join_loop [] joined = joined"
| "join_loop [p] joined = joined @ p"
| "join_loop (p # q # ps) joined =
     (if p = PATH_SEPARATOR then join_loop (q # ps) (joined @ p)
      else join_loop (q # ps) (joined @ p @ PATH_SEPARATOR))"

definition join_paths :: "string list \<Rightarrow> string result" where
  "join_paths paths =
     (if paths = [] then Inl (Undefined_Behaviour ''paths[0] of an empty vector'')
      else Inr (join_loop paths ''''))"

section \<open>The structural specification\<close>

fun split_at_sep :: "string \<Rightarrow> string list" where
  "split_at_sep [] = [[]]"
| "split_at_sep (c # s) =
     (if c = CHR ''/'' then [] # split_at_sep s
      else (case split_at_sep s of [] \<Rightarrow> [[c]] | p # ps \<Rightarrow> (c # p) # ps))"

fun join_parts :: "string list \<Rightarrow> string" where
  "join_parts [] = []"
| "join_parts [p] = p"
| "join_parts (p # q # ps) = p @ CHR ''/'' # join_parts (q # ps)"

lemma split_at_sep_not_Nil [simp]: "split_at_sep s \<noteq> []"
  by (induction s) (auto split: list.splits)

lemma split_at_sep_no_sep: "CHR ''/'' \<notin> set s \<Longrightarrow> split_at_sep s = [s]"
  by (induction s) auto

lemma split_at_sep_append:
  "CHR ''/'' \<notin> set p \<Longrightarrow> split_at_sep (p @ CHR ''/'' # s) = p # split_at_sep s"
  by (induction p) auto

lemma join_parts_split [simp]: "join_parts (split_at_sep s) = s"
proof (induction s)
  case Nil
  then show ?case by simp
next
  case (Cons c s)
  then show ?case
    by (cases "split_at_sep s"; cases "tl (split_at_sep s)") auto
qed

lemma split_join_parts:
  "ps \<noteq> [] \<Longrightarrow> \<forall>p \<in> set ps. CHR ''/'' \<notin> set p \<Longrightarrow> split_at_sep (join_parts ps) = ps"
  by (induction ps rule: join_parts.induct) (simp_all add: split_at_sep_no_sep split_at_sep_append)

lemma split_at_sep_parts: "p \<in> set (split_at_sep s) \<Longrightarrow> CHR ''/'' \<notin> set p"
proof (induction s arbitrary: p)
  case Nil
  then show ?case by simp
next
  case (Cons c s)
  show ?case
  proof (cases "split_at_sep s")
    case Nil
    then show ?thesis by simp
  next
    case (Cons q qs)
    with Cons.prems Cons.IH show ?thesis by (auto split: if_splits)
  qed
qed

section \<open>The loops meet the specification\<close>

lemma take_find_decomp:
  assumes "find_index (\<lambda>x. x = c) s = Some k"
  shows "s = take k s @ c # drop (Suc k) s" and "c \<notin> set (take k s)"
  using find_index_Some [OF assms] id_take_nth_drop [of k s] by auto

lemma separate_loop_spec:
  assumes "from \<le> length s"
  shows "separate_loop s from acc = Inr (acc @ split_at_sep (drop from s))"
  using assms
proof (induction s "from" acc rule: separate_loop.induct)
  case (1 s "from" acc)
  show ?case
  proof (cases "find_index (\<lambda>x. x = CHR ''/'') (drop from s)")
    case None
    then have "CHR ''/'' \<notin> set (drop from s)" by (auto simp: find_index_None)
    with None "1.prems" show ?thesis
      by (simp add: separate_loop.simps [of s "from" acc] find_char_from_def substr_from_def
          split_at_sep_no_sep)
  next
    case (Some k)
    let ?part = "take k (drop from s)"
    have find: "find_char_from (CHR ''/'') s from = Some (from + k)"
      using Some by (simp add: find_char_from_def)
    have bound: "from + k < length s" using find_char_from_Some [OF find] by simp
    have sub: "substr s from k = Inr ?part" using "1.prems" by (simp add: substr_def)
    have split: "split_at_sep (drop from s) = ?part # split_at_sep (drop (from + k + 1) s)"
    proof -
      have "drop from s = ?part @ CHR ''/'' # drop (from + k + 1) s"
        using take_find_decomp(1) [OF Some] by (simp add: add.commute)
      then have "split_at_sep (drop from s)
          = split_at_sep (?part @ CHR ''/'' # drop (from + k + 1) s)"
        by simp
      also have "\<dots> = ?part # split_at_sep (drop (from + k + 1) s)"
        by (rule split_at_sep_append) (rule take_find_decomp(2) [OF Some])
      finally show ?thesis .
    qed
    have "separate_loop s (from + k + 1) (acc @ [?part])
        = Inr (acc @ ?part # split_at_sep (drop (from + k + 1) s))"
      using "1.IH" [OF find] sub bound by simp
    then show ?thesis
      by (simp add: separate_loop.simps [of s "from" acc] find sub split)
  qed
qed

text \<open>
  C38. \<open>separate_path\<close> on every input: the empty string throws \<open>out_of_range\<close>; any other
  string gives "/" followed by the pieces of the string after its first character, cut at every
  separator (the first character is skipped without being looked at), and only "/" itself gives
  a single part.
\<close>

theorem separate_path_spec:
  "separate_path s =
     (if s = [] then Inl (Std_Exception ''out_of_range'')
      else if s = ''/'' then Inr [''/'']
      else Inr (''/'' # split_at_sep (tl s)))"
proof (cases "s = []")
  case True
  then show ?thesis
    by (simp add: separate_path_def PATH_SEPARATOR_def separate_loop.simps find_char_from_def
        substr_from_def)
next
  case False
  then have "1 \<le> length s" by (cases s) auto
  then show ?thesis
    using False separate_loop_spec [of 1 s "[PATH_SEPARATOR]"]
    by (simp add: separate_path_def PATH_SEPARATOR_def drop_Suc)
qed

lemma join_loop_acc: "join_loop ps acc = acc @ join_loop ps []"
proof (induction ps arbitrary: acc rule: induct_list012)
  case (3 p q ps)
  show ?case
    using "3.IH"(2) [of "acc @ p"] "3.IH"(2) [of "acc @ p @ PATH_SEPARATOR"]
      "3.IH"(2) [of p] "3.IH"(2) [of "p @ PATH_SEPARATOR"] by (cases "p = PATH_SEPARATOR") auto
qed simp_all

lemma join_loop_parts:
  "ps \<noteq> [] \<Longrightarrow> \<forall>p \<in> set ps. CHR ''/'' \<notin> set p \<Longrightarrow> join_loop ps [] = join_parts ps"
  by (induction ps rule: join_parts.induct)
     (auto simp: PATH_SEPARATOR_def join_loop_acc [of _ "_ # _"] join_loop_acc [of _ "_ @ _"])

lemma join_paths_root:
  "ps \<noteq> [] \<Longrightarrow> \<forall>p \<in> set ps. CHR ''/'' \<notin> set p \<Longrightarrow>
     join_paths (''/'' # ps) = Inr (CHR ''/'' # join_parts ps)"
  by (cases ps) (simp_all add: join_paths_def PATH_SEPARATOR_def join_loop_acc [of _ "''/''"]
      join_loop_parts)

lemma join_paths_only_root: "join_paths [''/''] = Inr ''/''"
  by (simp add: join_paths_def)

text \<open>
  Joining the parts of an absolute path gives the path back, whatever its parts are
  (empty parts from repeated or trailing separators included).
\<close>

theorem join_separate_path:
  assumes "s \<noteq> []" and "hd s = CHR ''/''"
  shows "bind_result (separate_path s) join_paths = Inr s"
proof (cases "s = ''/''")
  case True
  then show ?thesis by (simp add: separate_path_spec join_paths_only_root)
next
  case False
  obtain r where s: "s = CHR ''/'' # r" using assms by (cases s) auto
  have "join_paths (''/'' # split_at_sep r) = Inr (CHR ''/'' # join_parts (split_at_sep r))"
    by (rule join_paths_root) (auto dest: split_at_sep_parts)
  with False s show ?thesis by (simp add: separate_path_spec)
qed

theorem join_separate_path_witness:
  "bind_result (separate_path ''/a//b.txt'') join_paths = Inr ''/a//b.txt''"
  by (rule join_separate_path) simp_all

lemma separate_join_path:
  assumes "\<forall>p \<in> set ps. CHR ''/'' \<notin> set p" and "ps \<noteq> [[]]"
  shows "bind_result (join_paths (''/'' # ps)) separate_path = Inr (''/'' # ps)"
proof (cases "ps = []")
  case True
  then show ?thesis by (simp add: join_paths_only_root separate_path_spec)
next
  case False
  have ne: "join_parts ps \<noteq> []"
    using False assms(2) by (cases ps rule: join_parts.cases) auto
  show ?thesis
    using join_paths_root [OF False assms(1)] split_join_parts [OF False assms(1)] ne
    by (simp add: separate_path_spec)
qed

end
