(* ===== verification/BlockUtil.thy ===== *)
theory BlockUtil
  imports BlockManager
begin

text \<open>
  The tree operations on blocks, \<open>block_util.cc\<close>, over any block manager \<open>bm\<close> and its
  state \<open>s\<close>: the casts, the search for a path through retrieved blocks, reading a file's
  contents, replacing a chain of blocks, freeing the descendants of a block, and splitting contents
  into leaves under layers of links. The recursive functions follow child ids through the store, so
  nothing in the code bounds their depth: they take a \<open>fuel\<close>, one unit per level, and
  \<open>Out_Of_Fuel\<close> stands for a recursion that is not done. \<open>FsTree\<close> shows that the height of
  the tree is enough. Lengths of strings and vectors are \<open>nat\<close>: they are at most
  \<open>max_size()\<close>, so \<open>size_t\<close> arithmetic on them does not wrap.
\<close>

section \<open>Casts\<close>

definition try_cast_dir_file :: "block \<Rightarrow> dir_file_data option" where
  "try_cast_dir_file b = (case get_data b of DirFileBlockData d \<Rightarrow> Some d | _ \<Rightarrow> None)"

definition try_cast_link :: "block \<Rightarrow> block_id list option" where
  "try_cast_link b = (case get_data b of LinkBlockData cs \<Rightarrow> Some cs | _ \<Rightarrow> None)"

definition try_cast_contents :: "block \<Rightarrow> string option" where
  "try_cast_contents b = (case get_data b of FileContentsBlockData c \<Rightarrow> Some c | _ \<Rightarrow> None)"

lemmas try_cast_defs = try_cast_dir_file_def try_cast_link_def try_cast_contents_def

section \<open>find_path\<close>

text \<open>
  The vector \<open>block_path\<close> is passed through and returned with the flag. The loop over the
  children is the second function.
\<close>

fun find_path ::
    "nat \<Rightarrow> (block_id \<rightharpoonup> block) \<Rightarrow> block \<Rightarrow> block \<Rightarrow> block list \<Rightarrow> (bool \<times> block list) result"
  and find_path_children ::
    "nat \<Rightarrow> (block_id \<rightharpoonup> block) \<Rightarrow> block_id list \<Rightarrow> block \<Rightarrow> block list \<Rightarrow> (bool \<times> block list) result"
where
  "find_path 0 retrieved_blocks from_block target_block block_path = Inl Out_Of_Fuel"
| "find_path (Suc fuel) retrieved_blocks from_block target_block block_path =
     (if get_id from_block = get_id target_block then Inr (True, block_path)
      else (case try_cast_link from_block of
              Some children \<Rightarrow>
                find_path_children fuel retrieved_blocks children target_block block_path
            | None \<Rightarrow>
                (case try_cast_dir_file from_block of
                   Some dir_file \<Rightarrow>
                     find_path_children fuel retrieved_blocks (df_children dir_file)
                       target_block block_path
                 | None \<Rightarrow> Inr (False, block_path))))"
| "find_path_children fuel retrieved_blocks [] target_block block_path = Inr (False, block_path)"
| "find_path_children fuel retrieved_blocks (c # cs) target_block block_path =
     (case retrieved_blocks c of
        None \<Rightarrow> find_path_children fuel retrieved_blocks cs target_block block_path
      | Some child \<Rightarrow>
          bind_result (find_path fuel retrieved_blocks child target_block block_path)
            (\<lambda>(found, path). if found then Inr (True, path @ [child])
              else find_path_children fuel retrieved_blocks cs target_block path))"

definition get_children :: "block \<Rightarrow> block_id list option" where
  "get_children b =
     (case try_cast_link b of
        Some children \<Rightarrow> Some children
      | None \<Rightarrow> (case try_cast_dir_file b of Some d \<Rightarrow> Some (df_children d) | None \<Rightarrow> None))"

section \<open>Reading a file\<close>

fun file_blocks_to_contents :: "string list \<Rightarrow> string \<Rightarrow> string" where
  "file_blocks_to_contents [] contents = contents"
| "file_blocks_to_contents (data # bs) contents = file_blocks_to_contents bs (contents @ data)"

fun get_file_contents ::
    "nat \<Rightarrow> 's block_manager \<Rightarrow> block_id list \<Rightarrow> string list \<Rightarrow> 's \<Rightarrow> (string list \<times> 's) result"
  and get_file_contents_loop ::
    "nat \<Rightarrow> 's block_manager \<Rightarrow> block_response \<Rightarrow> string list \<Rightarrow> 's \<Rightarrow> (string list \<times> 's) result"
where
  "get_file_contents 0 bm blocks_to_check file_blocks s = Inl Out_Of_Fuel"
| "get_file_contents (Suc fuel) bm blocks_to_check file_blocks s =
     bind_result (bm_get bm blocks_to_check s) (\<lambda>(response, s').
       get_file_contents_loop fuel bm response file_blocks s')"
| "get_file_contents_loop fuel bm [] file_blocks s = Inr (file_blocks, s)"
| "get_file_contents_loop fuel bm (p # ps) file_blocks s =
     bind_result (deref p) (\<lambda>b.
       case try_cast_contents b of
         Some contents \<Rightarrow> get_file_contents_loop fuel bm ps (file_blocks @ [contents]) s
       | None \<Rightarrow>
           (case try_cast_link b of
              Some children \<Rightarrow>
                bind_result (get_file_contents fuel bm children file_blocks s) (\<lambda>(fbs, s').
                  get_file_contents_loop fuel bm ps fbs s')
            | None \<Rightarrow> get_file_contents_loop fuel bm ps file_blocks s))"

definition read_file_contents ::
  "nat \<Rightarrow> 's block_manager \<Rightarrow> dir_file_data \<Rightarrow> 's \<Rightarrow> (string \<times> 's) result" where
  "read_file_contents fuel bm file_inode s =
     bind_result (assert_that (\<not> df_is_dir file_inode)) (\<lambda>_.
     bind_result (get_file_contents fuel bm (df_children file_inode) [] s) (\<lambda>(file_blocks, s').
       Inr (file_blocks_to_contents file_blocks '''', s')))"

section \<open>Replacing a chain of blocks\<close>

fun remove_ids :: "block_id list \<Rightarrow> block_id list \<Rightarrow> block_id list result" where
  "remove_ids to_remove_from [] = Inr to_remove_from"
| "remove_ids to_remove_from (i # to_remove) =
     bind_result (assert_that (i \<in> set to_remove_from)) (\<lambda>_.
       remove_ids (remove1 i to_remove_from) to_remove)"

definition replace_block_with_diff_children ::
  "'s block_manager \<Rightarrow> block \<Rightarrow> block_id list \<Rightarrow> 's \<Rightarrow> (block \<times> 's) result" where
  "replace_block_with_diff_children bm block_to_replace new_children s =
     (case try_cast_link block_to_replace of
        Some _ \<Rightarrow> bm_create bm (LinkBlockData new_children) s
      | None \<Rightarrow>
          (case try_cast_dir_file block_to_replace of
             Some dir_file \<Rightarrow>
               bm_create bm (DirFileBlockData (dir_file_with_children dir_file new_children)) s
           | None \<Rightarrow> Inl (Thrown ''Unexpected block type'')))"

text \<open>
  The loop of \<open>replace_chain\<close> over the blocks from \<open>begin\<close> to \<open>end\<close> (reverse
  iterators, so the last block of the path comes first).
\<close>

fun replace_chain_loop ::
  "'s block_manager \<Rightarrow> block list \<Rightarrow> block_id list \<Rightarrow> block_id list \<Rightarrow> block option \<Rightarrow> 's \<Rightarrow>
     (block option \<times> 's) result" where
  "replace_chain_loop bm [] children_to_remove children_to_add last_replaced_block s =
     Inr (last_replaced_block, s)"
| "replace_chain_loop bm (block_to_replace # bs) children_to_remove children_to_add
     last_replaced_block s =
     bind_result
       (remove_ids (case get_children block_to_replace of Some cs \<Rightarrow> cs | None \<Rightarrow> [])
          children_to_remove) (\<lambda>kept.
     bind_result
       (replace_block_with_diff_children bm block_to_replace
          (case last_replaced_block of
             Some b \<Rightarrow> kept @ [get_id b]
           | None \<Rightarrow> kept @ children_to_add) s) (\<lambda>(new_block, s').
       replace_chain_loop bm bs [get_id block_to_replace] children_to_add (Some new_block) s'))"

definition replace_chain ::
  "'s block_manager \<Rightarrow> block list \<Rightarrow> block_id list \<Rightarrow> block_id list \<Rightarrow> 's \<Rightarrow>
     (block option \<times> 's) result" where
  "replace_chain bm blocks children_to_remove children_to_add s =
     replace_chain_loop bm blocks children_to_remove children_to_add None s"

section \<open>Freeing descendants\<close>

fun free_all :: "'s block_manager \<Rightarrow> block_id list \<Rightarrow> 's \<Rightarrow> 's" where
  "free_all bm [] s = s"
| "free_all bm (i # is) s = free_all bm is (bm_free bm i s)"

fun recursive_free_children_blocks :: "nat \<Rightarrow> 's block_manager \<Rightarrow> block \<Rightarrow> 's \<Rightarrow> 's result"
  and recursive_free_loop :: "nat \<Rightarrow> 's block_manager \<Rightarrow> block_response \<Rightarrow> 's \<Rightarrow> 's result"
where
  "recursive_free_children_blocks 0 bm b s = Inl Out_Of_Fuel"
| "recursive_free_children_blocks (Suc fuel) bm b s =
     (case get_children b of
        None \<Rightarrow> Inr s
      | Some children \<Rightarrow>
          bind_result (bm_get bm children s) (\<lambda>(response, s').
            recursive_free_loop fuel bm response (free_all bm children s')))"
| "recursive_free_loop fuel bm [] s = Inr s"
| "recursive_free_loop fuel bm (p # ps) s =
     bind_result (deref p) (\<lambda>b.
     bind_result (recursive_free_children_blocks fuel bm b s) (\<lambda>s'.
       recursive_free_loop fuel bm ps s'))"

section \<open>Building a file's tree\<close>

text \<open>The inner loop over \<open>j\<close>, with its \<open>break\<close> at the end of the vector.\<close>

fun child_links_loop :: "block list \<Rightarrow> nat \<Rightarrow> nat list \<Rightarrow> block_id list \<Rightarrow> block_id list" where
  "child_links_loop blocks_to_link_to base [] child_links = child_links"
| "child_links_loop blocks_to_link_to base (j # js) child_links =
     (if length blocks_to_link_to \<le> base + j then child_links
      else child_links_loop blocks_to_link_to base js
             (child_links @ [get_id (blocks_to_link_to ! (base + j))]))"

fun add_link_layer_loop ::
  "'s block_manager \<Rightarrow> block list \<Rightarrow> nat \<Rightarrow> nat list \<Rightarrow> block list \<Rightarrow> 's \<Rightarrow>
     (block list \<times> 's) result" where
  "add_link_layer_loop bm blocks_to_link_to branching_factor [] new_layer s = Inr (new_layer, s)"
| "add_link_layer_loop bm blocks_to_link_to branching_factor (i # is) new_layer s =
     bind_result
       (bm_create bm (LinkBlockData
          (child_links_loop blocks_to_link_to (i * branching_factor) [0..<branching_factor] [])) s)
       (\<lambda>(b, s'). add_link_layer_loop bm blocks_to_link_to branching_factor is (new_layer @ [b]) s')"

text \<open>
  The number of links is \<open>ceil(n / branching_factor)\<close> in \<open>double\<close>. For the program's
  branching factor 4 the quotient of a vector's size is exact in \<open>double\<close>, so it is the
  integer ceiling.
\<close>

definition add_link_layer ::
  "'s block_manager \<Rightarrow> block list \<Rightarrow> block list \<Rightarrow> nat \<Rightarrow> 's \<Rightarrow> (block list \<times> 's) result" where
  "add_link_layer bm blocks_to_link_to new_layer branching_factor s =
     (let blocks_over_branching_factor =
            (length blocks_to_link_to + branching_factor - 1) div branching_factor
      in add_link_layer_loop bm blocks_to_link_to branching_factor
           [0..<blocks_over_branching_factor] new_layer s)"

fun leaf_data_loop :: "string \<Rightarrow> nat \<Rightarrow> nat list \<Rightarrow> string list \<Rightarrow> string list result" where
  "leaf_data_loop file_contents bytes_per_block [] leaf_data = Inr leaf_data"
| "leaf_data_loop file_contents bytes_per_block (i # is) leaf_data =
     (let end_index = max ((i + 1) * bytes_per_block) (length file_contents)
      in bind_result (substr file_contents (i * bytes_per_block) end_index) (\<lambda>leaf.
           leaf_data_loop file_contents bytes_per_block is (leaf_data @ [leaf])))"

fun create_leaves ::
  "'s block_manager \<Rightarrow> string list \<Rightarrow> block list \<Rightarrow> 's \<Rightarrow> (block list \<times> 's) result" where
  "create_leaves bm [] blocks_to_link_to s = Inr (blocks_to_link_to, s)"
| "create_leaves bm (leaf # leaves) blocks_to_link_to s =
     bind_result (bm_create bm (FileContentsBlockData leaf) s) (\<lambda>(b, s').
       create_leaves bm leaves (blocks_to_link_to @ [b]) s')"

fun link_layers ::
  "'s block_manager \<Rightarrow> nat \<Rightarrow> nat \<Rightarrow> block list \<Rightarrow> 's \<Rightarrow> (block list \<times> 's) result" where
  "link_layers bm branching_factor 0 blocks_to_link_to s = Inr (blocks_to_link_to, s)"
| "link_layers bm branching_factor (Suc depth) blocks_to_link_to s =
     bind_result (add_link_layer bm blocks_to_link_to [] branching_factor s) (\<lambda>(links, s').
       link_layers bm branching_factor depth links s')"

definition num_leaves_of :: "nat \<Rightarrow> nat \<Rightarrow> nat" where
  "num_leaves_of len bytes_per_block =
     (let n = len div bytes_per_block
      in if n * bytes_per_block \<noteq> len then n + 1 else n)"

text \<open>
  \<open>depth\<close> is \<open>ceil(log(num_leaves) / log(branching_factor))\<close>, computed by the C
  library in \<open>double\<close>: the function is the argument \<open>ceil_log\<close>.
\<close>

definition replace_blocks_for_contents ::
  "(nat \<Rightarrow> nat \<Rightarrow> nat) \<Rightarrow> 's block_manager \<Rightarrow> block list \<Rightarrow> string \<Rightarrow> block_id list \<Rightarrow> nat \<Rightarrow> nat \<Rightarrow>
     's \<Rightarrow> (block_id list \<times> 's) result" where
  "replace_blocks_for_contents ceil_log bm blocks file_contents ids_to_add bytes_per_block
     branching_factor s =
     bind_result (assert_that (blocks \<noteq> [])) (\<lambda>_.
     bind_result (assert_that (file_contents \<noteq> '''')) (\<lambda>_.
     let num_leaves = num_leaves_of (length file_contents) bytes_per_block;
         depth = ceil_log branching_factor num_leaves
     in bind_result (leaf_data_loop file_contents bytes_per_block [0..<num_leaves] []) (\<lambda>leaf_data.
        bind_result (create_leaves bm leaf_data [] s) (\<lambda>(leaves, s1).
        bind_result (link_layers bm branching_factor depth leaves s1) (\<lambda>(tops, s2).
          Inr (ids_to_add @ map get_id tops, s2))))))"

end
