(* ===== verification/BlockFuse.thy ===== *)
theory BlockFuse
  imports FsUtil BlockUtil
begin

text \<open>
  The file system, \<open>BlockFuse\<close> (\<open>block_fuse.hpp\<close>, \<open>block_fuse.cc\<close>): its state and every
  operation FUSE calls, over any block manager \<open>bm\<close>. The object is the record
  \<open>block_fuse\<close>; subclasses extend the record, and the two virtual methods they override
  (\<open>free_block\<close>, \<open>set_root_block\<close>) are an argument, \<open>fuse_methods\<close>. What the
  operations ask of the operating system (\<open>time\<close>, \<open>getuid\<close>, \<open>getgid\<close>) and of the C
  mathematics library is the argument \<open>os_env\<close>. Each operation is one atomic step: the code
  itself leaves concurrent calls open ("FIXME: add some concurrency checks here"). An operation
  returns its \<open>int\<close>, its output parameters and the new state, or how it failed.
\<close>

section \<open>State and environment\<close>

record 's block_fuse =
  store :: 's
  root_block :: "block option"
  dev :: dev_t
  errno :: int

record ('s, 'm) fuse_methods =
  free_block :: "block_id \<Rightarrow> ('s, 'm) block_fuse_scheme \<Rightarrow> ('s, 'm) block_fuse_scheme result"
  set_root_block :: "block option \<Rightarrow> ('s, 'm) block_fuse_scheme \<Rightarrow> ('s, 'm) block_fuse_scheme result"

definition base_free_block ::
  "'s block_manager \<Rightarrow> block_id \<Rightarrow> ('s, 'm) block_fuse_scheme \<Rightarrow> ('s, 'm) block_fuse_scheme result"
where
  "base_free_block bm block_id f = Inr (f\<lparr>store := bm_free bm block_id (store f)\<rparr>)"

definition base_set_root_block ::
  "block option \<Rightarrow> ('s, 'm) block_fuse_scheme \<Rightarrow> ('s, 'm) block_fuse_scheme result" where
  "base_set_root_block new_root f = Inr (f\<lparr>root_block := new_root\<rparr>)"

definition BlockFuse_methods :: "'s block_manager \<Rightarrow> ('s, 'm) fuse_methods" where
  "BlockFuse_methods bm = \<lparr>free_block = base_free_block bm, set_root_block = base_set_root_block\<rparr>"

record os_env =
  cur_time :: time_t
  uid :: u32
  gid :: u32
  ceil_log :: "nat \<Rightarrow> nat \<Rightarrow> nat"

definition ENOENT :: int where "ENOENT = 2"
definition EEXIST :: int where "EEXIST = 17"
definition EISDIR :: int where "EISDIR = 21"

definition set_no_such_file_or_dir ::
  "('s, 'm) block_fuse_scheme \<Rightarrow> int \<times> ('s, 'm) block_fuse_scheme" where
  "set_no_such_file_or_dir f = (- ENOENT, f\<lparr>errno := ENOENT\<rparr>)"

definition set_file_exists ::
  "('s, 'm) block_fuse_scheme \<Rightarrow> int \<times> ('s, 'm) block_fuse_scheme" where
  "set_file_exists f = (- EEXIST, f\<lparr>errno := EEXIST\<rparr>)"

definition set_error_because_dir ::
  "('s, 'm) block_fuse_scheme \<Rightarrow> int \<times> ('s, 'm) block_fuse_scheme" where
  "set_error_because_dir f = (- EISDIR, f\<lparr>errno := EISDIR\<rparr>)"

section \<open>Construction\<close>

definition make_root_block_data :: "os_env \<Rightarrow> block_data" where
  "make_root_block_data env =
     DirFileBlockData
       \<lparr>df_name = PATH_SEPARATOR,
        df_stat =
          \<lparr>stat_mode = \<lparr>user_mode = READ_WRITE_EXECUTE, group_mode = READ_EXECUTE,
                        other_mode = EXECUTE, file_type_of = DIR\<rparr>,
           stat_uid = uid env, stat_gid = gid env, stat_size = 0,
           access_time = cur_time env, mod_time = cur_time env,
           status_change_time = cur_time env\<rparr>,
        df_children = []\<rparr>"

definition BlockFuse_init :: "'s block_manager \<Rightarrow> os_env \<Rightarrow> dev_t \<Rightarrow> 's \<Rightarrow> 's block_fuse result" where
  "BlockFuse_init bm env d s =
     bind_result (bm_create bm (make_root_block_data env) s) (\<lambda>(b, s').
       Inr \<lparr>store = s', root_block = Some b, dev = d, errno = 0\<rparr>)"

section \<open>Resolving a path\<close>

fun get_path_part_helper ::
  "block_response \<Rightarrow> string \<Rightarrow> block_id list \<Rightarrow> (block_id \<rightharpoonup> block) \<Rightarrow>
     (block option \<times> block_id list \<times> (block_id \<rightharpoonup> block)) result" where
  "get_path_part_helper [] target_name blocks_to_check retrieved_blocks =
     Inr (None, blocks_to_check, retrieved_blocks)"
| "get_path_part_helper (p # ps) target_name blocks_to_check retrieved_blocks =
     bind_result (deref p) (\<lambda>b.
       let retrieved = retrieved_blocks(get_id b \<mapsto> b)
       in if (case try_cast_dir_file b of Some d \<Rightarrow> df_name d = target_name | None \<Rightarrow> False)
          then Inr (Some b, blocks_to_check, retrieved)
          else get_path_part_helper ps target_name
                 (case try_cast_link b of Some children \<Rightarrow> blocks_to_check @ children
                  | None \<Rightarrow> blocks_to_check) retrieved)"

fun get_path_part_loop ::
  "nat \<Rightarrow> 's block_manager \<Rightarrow> string \<Rightarrow> block_id list \<Rightarrow> (block_id \<rightharpoonup> block) \<Rightarrow> 's \<Rightarrow>
     (block option \<times> (block_id \<rightharpoonup> block) \<times> 's) result" where
  "get_path_part_loop 0 bm name blocks_to_check retrieved_blocks s =
     (if blocks_to_check = [] then Inr (None, retrieved_blocks, s) else Inl Out_Of_Fuel)"
| "get_path_part_loop (Suc fuel) bm name blocks_to_check retrieved_blocks s =
     (if blocks_to_check = [] then Inr (None, retrieved_blocks, s)
      else bind_result (bm_get bm blocks_to_check s) (\<lambda>(response, s').
           bind_result (get_path_part_helper response name [] retrieved_blocks)
             (\<lambda>(target_inode, to_check, retrieved).
               case target_inode of
                 Some t \<Rightarrow> Inr (Some t, retrieved, s')
               | None \<Rightarrow> get_path_part_loop fuel bm name to_check retrieved s')))"

text \<open>The first argument after \<open>bm\<close> is the root block, \<open>get_root_block()\<close>.\<close>

definition get_path_part ::
  "nat \<Rightarrow> 's block_manager \<Rightarrow> block option \<Rightarrow> string \<Rightarrow> block option \<Rightarrow> block list \<Rightarrow> 's \<Rightarrow>
     (block list \<times> 's) result" where
  "get_path_part fuel bm root rel_file_dir_name from_block block_path s =
     (if rel_file_dir_name = PATH_SEPARATOR
      then bind_result (deref root) (\<lambda>r.
             Inr (block_path @ [mk_block (get_id r) (get_data r)], s))
      else bind_result (deref from_block) (\<lambda>fb.
           bind_result (assert_that (try_cast_dir_file fb \<noteq> None)) (\<lambda>_.
           bind_result (deref (try_cast_dir_file fb)) (\<lambda>d.
           bind_result (get_path_part_loop fuel bm rel_file_dir_name (df_children d) Map.empty s)
             (\<lambda>(target_inode, retrieved_blocks, s').
               case target_inode of
                 None \<Rightarrow> Inr (block_path, s')
               | Some t \<Rightarrow>
                   bind_result (find_path fuel retrieved_blocks fb t block_path)
                     (\<lambda>(found, path). Inr (path, s')))))))"

fun get_path_loop ::
  "nat \<Rightarrow> 's block_manager \<Rightarrow> block option \<Rightarrow> string list \<Rightarrow> block option \<Rightarrow> block list \<Rightarrow> 's \<Rightarrow>
     (block list \<times> 's) result" where
  "get_path_loop fuel bm root [] from_block blocks s = Inr (blocks, s)"
| "get_path_loop fuel bm root (part # parts) from_block blocks s =
     bind_result (get_path_part fuel bm root part from_block [] s) (\<lambda>(block_path, s').
       if block_path = [] then Inr ([], s')
       else get_path_loop fuel bm root parts (Some (last block_path)) (blocks @ block_path) s')"

definition get_path ::
  "nat \<Rightarrow> 's block_manager \<Rightarrow> string \<Rightarrow> ('s, 'm) block_fuse_scheme \<Rightarrow>
     (block list \<times> ('s, 'm) block_fuse_scheme) result" where
  "get_path fuel bm path f =
     bind_result (separate_path path) (\<lambda>parts.
     bind_result (get_path_loop fuel bm (root_block f) parts None [] (store f)) (\<lambda>(blocks, s').
       Inr (blocks, f\<lparr>store := s'\<rparr>)))"

definition resolve_inode ::
  "nat \<Rightarrow> 's block_manager \<Rightarrow> string \<Rightarrow> ('s, 'm) block_fuse_scheme \<Rightarrow>
     (block option \<times> ('s, 'm) block_fuse_scheme) result" where
  "resolve_inode fuel bm path f =
     bind_result (get_path fuel bm path f) (\<lambda>(blocks, f').
       Inr (if blocks = [] then None else Some (last blocks), f'))"

section \<open>getattr\<close>

definition getattr ::
  "nat \<Rightarrow> 's block_manager \<Rightarrow> string \<Rightarrow> stat_buf \<Rightarrow> ('s, 'm) block_fuse_scheme \<Rightarrow>
     ((int \<times> stat_buf) \<times> ('s, 'm) block_fuse_scheme) result" where
  "getattr fuel bm path stbuf f =
     bind_result (resolve_inode fuel bm path f) (\<lambda>(resolved, f').
       case resolved of
         None \<Rightarrow> (case set_no_such_file_or_dir f' of (r, f'') \<Rightarrow> Inr ((r, stbuf), f''))
       | Some b \<Rightarrow>
           bind_result (assert_that (try_cast_dir_file b \<noteq> None)) (\<lambda>_.
           bind_result (deref (try_cast_dir_file b)) (\<lambda>d.
             Inr ((0, update_stat (df_stat d) (dev f') 1 stbuf), f'))))"

section \<open>mkdir\<close>

text \<open>
  A local \<open>struct stat\<close> before it is written: its contents are indeterminate, and every
  modelled field is written before it is read.
\<close>

definition local_stbuf :: stat_buf where
  "local_stbuf =
     \<lparr>st_ino = 0, st_dev = 0, st_mode = 0, st_uid = 0, st_gid = 0, st_size = 0, st_atime = 0,
      st_mtime = 0, st_ctime = 0, st_nlink = 0\<rparr>"

definition mkdir_valid ::
  "nat \<Rightarrow> 's block_manager \<Rightarrow> string \<Rightarrow> ('s, 'm) block_fuse_scheme \<Rightarrow>
     ((bool \<times> block list \<times> string) \<times> ('s, 'm) block_fuse_scheme) result" where
  "mkdir_valid fuel bm path f =
     bind_result (separate_path path) (\<lambda>parts.
       if length parts \<le> 1 then Inr ((False, [], ''''), f)
       else bind_result (getattr fuel bm path local_stbuf f) (\<lambda>((r, _), f1).
         if r = 0 then Inr ((False, [], ''''), f1)
         else bind_result (join_paths (butlast parts)) (\<lambda>parent_path.
              bind_result (get_path fuel bm parent_path f1) (\<lambda>(blocks, f2).
                if blocks = [] then Inr ((False, [], last parts), f2)
                else if try_cast_dir_file (last blocks) = None
                then Inr ((False, blocks, last parts), f2)
                else Inr ((True, blocks, last parts), f2)))))"

fun free_blocks ::
  "('s, 'm) fuse_methods \<Rightarrow> block list \<Rightarrow> ('s, 'm) block_fuse_scheme \<Rightarrow>
     ('s, 'm) block_fuse_scheme result" where
  "free_blocks vm [] f = Inr f"
| "free_blocks vm (b # bs) f =
     bind_result (free_block vm (get_id b) f) (\<lambda>f'. free_blocks vm bs f')"

unbundle bit_operations_syntax

definition mkdir ::
  "nat \<Rightarrow> 's block_manager \<Rightarrow> ('s, 'm) fuse_methods \<Rightarrow> os_env \<Rightarrow> string \<Rightarrow> mode_t \<Rightarrow>
     ('s, 'm) block_fuse_scheme \<Rightarrow> (int \<times> ('s, 'm) block_fuse_scheme) result" where
  "mkdir fuel bm vm env path m f =
     bind_result (mkdir_valid fuel bm path f) (\<lambda>((valid, blocks, dir_to_make), f1).
       if \<not> valid then Inr (1, f1)
       else bind_result (Mode_of_mode_t (m OR S_IFDIR)) (\<lambda>md.
         let st = \<lparr>stat_mode = md, stat_uid = uid env, stat_gid = gid env, stat_size = 1,
                   access_time = cur_time env, mod_time = cur_time env,
                   status_change_time = cur_time env\<rparr>;
             new_dir = \<lparr>df_name = dir_to_make, df_stat = st, df_children = []\<rparr>
         in bind_result (bm_create bm (DirFileBlockData new_dir) (store f1)) (\<lambda>(new_block, s2).
            bind_result (replace_chain bm (rev blocks) [] [get_id new_block] s2) (\<lambda>(new_root, s3).
            bind_result (set_root_block vm new_root (f1\<lparr>store := s3\<rparr>)) (\<lambda>f2.
            bind_result (free_blocks vm blocks f2) (\<lambda>f3. Inr (0, f3)))))))"

section \<open>rmdir and unlink\<close>

text \<open>
  The loop that looks for the last block of the path, before its end, that is not a link. The
  condition \<open>i >= 0\<close> always holds for \<open>size_t\<close>: below 0 the index wraps and the access is
  out of range.
\<close>

fun last_dir_file_loop :: "block list \<Rightarrow> nat \<Rightarrow> nat result" where
  "last_dir_file_loop blocks 0 =
     (if try_cast_link (blocks ! 0) = None then Inr 0
      else Inl (Undefined_Behaviour ''blocks[-1]''))"
| "last_dir_file_loop blocks (Suc i) =
     (if try_cast_link (blocks ! Suc i) = None then Inr (Suc i) else last_dir_file_loop blocks i)"

definition rmdir ::
  "nat \<Rightarrow> 's block_manager \<Rightarrow> ('s, 'm) fuse_methods \<Rightarrow> string \<Rightarrow> ('s, 'm) block_fuse_scheme \<Rightarrow>
     (int \<times> ('s, 'm) block_fuse_scheme) result" where
  "rmdir fuel bm vm path f =
     bind_result (get_path fuel bm path f) (\<lambda>(blocks, f1).
       if blocks = [] then Inr (1, f1)
       else if length blocks = 1 then Inr (1, f1)
       else bind_result (last_dir_file_loop blocks (length blocks - 2)) (\<lambda>last_dir_file_index.
         let child_id_to_remove = get_id (blocks ! (last_dir_file_index + 1))
         in bind_result (replace_chain bm
                (drop (length blocks - last_dir_file_index - 1) (rev blocks))
                [child_id_to_remove] [] (store f1)) (\<lambda>(new_root, s2).
            bind_result (set_root_block vm new_root (f1\<lparr>store := s2\<rparr>)) (\<lambda>f2.
            bind_result (free_blocks vm blocks f2) (\<lambda>f3.
            bind_result (recursive_free_children_blocks fuel bm (last blocks) (store f3)) (\<lambda>s4.
              Inr (0, f3\<lparr>store := s4\<rparr>)))))))"

text \<open>\<open>unlink\<close> calls \<open>rmdir\<close>, which is virtual.\<close>

definition unlink ::
  "(string \<Rightarrow> 'f \<Rightarrow> (int \<times> 'f) result) \<Rightarrow> string \<Rightarrow> 'f \<Rightarrow> (int \<times> 'f) result" where
  "unlink virtual_rmdir path f = virtual_rmdir path f"

section \<open>readdir\<close>

fun collect_dir_files ::
  "block_response \<Rightarrow> dir_file_data list \<Rightarrow> block_id list \<Rightarrow>
     (dir_file_data list \<times> block_id list) result" where
  "collect_dir_files [] children blocks_to_trace = Inr (children, blocks_to_trace)"
| "collect_dir_files (p # ps) children blocks_to_trace =
     bind_result (deref p) (\<lambda>b.
       case try_cast_dir_file b of
         Some child \<Rightarrow> collect_dir_files ps (children @ [child]) blocks_to_trace
       | None \<Rightarrow>
           collect_dir_files ps children
             (case try_cast_link b of Some cs \<Rightarrow> blocks_to_trace @ cs | None \<Rightarrow> blocks_to_trace))"

fun get_dir_files_loop ::
  "nat \<Rightarrow> 's block_manager \<Rightarrow> block_id list \<Rightarrow> dir_file_data list \<Rightarrow> 's \<Rightarrow>
     (dir_file_data list \<times> 's) result" where
  "get_dir_files_loop 0 bm blocks_to_trace children s =
     (if blocks_to_trace = [] then Inr (children, s) else Inl Out_Of_Fuel)"
| "get_dir_files_loop (Suc fuel) bm blocks_to_trace children s =
     (if blocks_to_trace = [] then Inr (children, s)
      else bind_result (bm_get bm blocks_to_trace s) (\<lambda>(resp, s').
           bind_result (collect_dir_files resp children []) (\<lambda>(children', to_trace).
             get_dir_files_loop fuel bm to_trace children' s')))"

definition get_dir_files_from_dir ::
  "nat \<Rightarrow> 's block_manager \<Rightarrow> dir_file_data \<Rightarrow> 's \<Rightarrow> (dir_file_data list \<times> 's) result" where
  "get_dir_files_from_dir fuel bm dir_file s =
     get_dir_files_loop fuel bm (df_children dir_file) [] s"

text \<open>
  FUSE's callback \<open>filler\<close> is an argument: it takes the buffer, a name and a
  \<open>struct stat\<close> or null, and returns its result and the buffer. The results for the children
  are ignored.
\<close>

type_synonym 'b filler = "'b \<Rightarrow> string \<Rightarrow> stat_buf option \<Rightarrow> int \<times> 'b"

fun fill_children :: "'b filler \<Rightarrow> dev_t \<Rightarrow> dir_file_data list \<Rightarrow> stat_buf \<Rightarrow> 'b \<Rightarrow> 'b" where
  "fill_children filler d [] stbuf buf = buf"
| "fill_children filler d (c # cs) stbuf buf =
     (let st = update_stat (df_stat c) d 1 stbuf
      in fill_children filler d cs st (snd (filler buf (df_name c) (Some st))))"

definition readdir ::
  "nat \<Rightarrow> 's block_manager \<Rightarrow> string \<Rightarrow> 'b \<Rightarrow> 'b filler \<Rightarrow> ('s, 'm) block_fuse_scheme \<Rightarrow>
     ((int \<times> 'b) \<times> ('s, 'm) block_fuse_scheme) result" where
  "readdir fuel bm path buf filler f =
     bind_result (get_path fuel bm path f) (\<lambda>(blocks, f1).
       if blocks = [] then (case set_no_such_file_or_dir f1 of (r, f2) \<Rightarrow> Inr ((r, buf), f2))
       else (case try_cast_dir_file (last blocks) of
          None \<Rightarrow> Inr ((1, buf), f1)
        | Some dir_file \<Rightarrow>
            let stbuf = update_stat (df_stat dir_file) (dev f1) 1 local_stbuf;
                (filler_result, buf1) = filler buf ''.'' (Some stbuf)
            in if filler_result \<noteq> 0 then Inr ((filler_result, buf1), f1)
               else let (filler_result2, buf2) = filler buf1 ''..'' None
                    in if filler_result2 \<noteq> 0 then Inr ((filler_result2, buf2), f1)
                       else bind_result (get_dir_files_from_dir fuel bm dir_file (store f1))
                              (\<lambda>(children, s').
                                Inr ((0, fill_children filler (dev f1) children stbuf buf2),
                                     f1\<lparr>store := s'\<rparr>))))"

section \<open>read\<close>

text \<open>The conversion of a 64-bit size to the returned \<open>int\<close>.\<close>

definition int_of_size :: "u64 \<Rightarrow> int" where
  "int_of_size w = sint (ucast w :: u32)"

text \<open>
  \<open>size\<close> is a \<open>size_t\<close> and \<open>offset\<close> an \<open>off_t\<close>, both 64 bits wide; the sum is
  taken in \<open>size_t\<close>. The result is the returned \<open>int\<close> and the bytes copied to the buffer;
  a copy that runs past the end of the contents is undefined.
\<close>

definition read_range :: "string \<Rightarrow> u64 \<Rightarrow> u64 \<Rightarrow> (int \<times> string) result" where
  "read_range contents sz offset =
     (if length contents < unat offset then Inr (0, [])
      else let actual_size =
                 (if unat (offset + sz) \<le> length contents then sz
                  else word_of_nat (length contents) - offset)
           in if length contents - unat offset < unat actual_size
              then Inl (Undefined_Behaviour ''memcpy past the end of contents'')
              else Inr (int_of_size actual_size,
                        take (unat actual_size) (drop (unat offset) contents)))"

definition read ::
  "nat \<Rightarrow> 's block_manager \<Rightarrow> string \<Rightarrow> u64 \<Rightarrow> u64 \<Rightarrow> ('s, 'm) block_fuse_scheme \<Rightarrow>
     ((int \<times> string) \<times> ('s, 'm) block_fuse_scheme) result" where
  "read fuel bm path sz offset f =
     bind_result (get_path fuel bm path f) (\<lambda>(blocks, f1).
       if blocks = [] then (case set_no_such_file_or_dir f1 of (r, f2) \<Rightarrow> Inr ((r, []), f2))
       else (case try_cast_dir_file (last blocks) of
          None \<Rightarrow> Inr ((-1, []), f1)
        | Some dir_file \<Rightarrow>
            if df_is_dir dir_file then Inr ((-1, []), f1)
            else bind_result (read_file_contents fuel bm dir_file (store f1)) (\<lambda>(contents, s').
                 bind_result (read_range contents sz offset) (\<lambda>r.
                   Inr (r, f1\<lparr>store := s'\<rparr>)))))"

section \<open>create\<close>

definition gen_file_stat :: "os_env \<Rightarrow> mode \<Rightarrow> nat \<Rightarrow> stat_data" where
  "gen_file_stat env md sz =
     \<lparr>stat_mode = md, stat_uid = uid env, stat_gid = gid env, stat_size = word_of_nat sz,
      access_time = cur_time env, mod_time = cur_time env, status_change_time = cur_time env\<rparr>"

definition create_file_block ::
  "nat \<Rightarrow> 's block_manager \<Rightarrow> ('s, 'm) fuse_methods \<Rightarrow> os_env \<Rightarrow> string \<Rightarrow> nat \<Rightarrow> mode \<Rightarrow>
     ('s, 'm) block_fuse_scheme \<Rightarrow> ((bool \<times> block list) \<times> ('s, 'm) block_fuse_scheme) result" where
  "create_file_block fuel bm vm env path file_size md f =
     bind_result (get_path fuel bm path f) (\<lambda>(existing, f1).
       if existing \<noteq> [] then Inr ((False, existing), f1)
       else bind_result (separate_path path) (\<lambda>separated_path.
            bind_result (join_paths (butlast separated_path)) (\<lambda>parent_path.
            bind_result (get_path fuel bm parent_path f1) (\<lambda>(blocks, f2).
              if blocks = [] then Inr ((False, []), f2)
              else let new_file = \<lparr>df_name = last separated_path,
                                   df_stat = gen_file_stat env md file_size, df_children = []\<rparr>
                in bind_result (bm_create bm (DirFileBlockData new_file) (store f2)) (\<lambda>(new_block, s3).
                   bind_result (replace_chain bm (rev blocks) [] [get_id new_block] s3) (\<lambda>(new_root, s4).
                   bind_result (set_root_block vm new_root (f2\<lparr>store := s4\<rparr>)) (\<lambda>f3.
                   bind_result (free_blocks vm blocks f3) (\<lambda>f4.
                   bind_result (get_path fuel bm path f4) (\<lambda>(updated, f5).
                   bind_result (assert_that (updated \<noteq> [])) (\<lambda>_.
                     Inr ((True, updated), f5)))))))))))"

definition create ::
  "nat \<Rightarrow> 's block_manager \<Rightarrow> ('s, 'm) fuse_methods \<Rightarrow> os_env \<Rightarrow> string \<Rightarrow> mode_t \<Rightarrow>
     ('s, 'm) block_fuse_scheme \<Rightarrow> (int \<times> ('s, 'm) block_fuse_scheme) result" where
  "create fuel bm vm env path m f =
     bind_result (get_path fuel bm path f) (\<lambda>(blocks, f1).
       if blocks \<noteq> [] then Inr (set_file_exists f1)
       else bind_result (Mode_of_mode_t m) (\<lambda>md.
            bind_result (create_file_block fuel bm vm env path 0 md f1) (\<lambda>((succeeded, _), f2).
              if \<not> succeeded then Inr (set_no_such_file_or_dir f2) else Inr (0, f2))))"

section \<open>write\<close>

definition BYTES_PER_BLOCK :: nat where "BYTES_PER_BLOCK = 1000"
definition BRANCHING_FACTOR :: nat where "BRANCHING_FACTOR = 4"

definition write_file_starting_at_node ::
  "nat \<Rightarrow> 's block_manager \<Rightarrow> ('s, 'm) fuse_methods \<Rightarrow> os_env \<Rightarrow> block list \<Rightarrow> string \<Rightarrow>
     ('s, 'm) block_fuse_scheme \<Rightarrow> ('s, 'm) block_fuse_scheme result" where
  "write_file_starting_at_node fuel bm vm env blocks file_contents f =
     bind_result (assert_that (blocks \<noteq> [])) (\<lambda>_.
     bind_result
       (if file_contents \<noteq> []
        then replace_blocks_for_contents (ceil_log env) bm blocks file_contents []
               BYTES_PER_BLOCK BRANCHING_FACTOR (store f)
        else Inr ([], store f)) (\<lambda>(ids_to_add, s1).
     bind_result (deref (try_cast_dir_file (last blocks))) (\<lambda>file_inode.
       let updated_file =
             \<lparr>df_name = df_name file_inode,
              df_stat = stat_with_times (df_stat file_inode) (word_of_nat (length file_contents))
                          (cur_time env) (cur_time env) (cur_time env),
              df_children = df_children file_inode\<rparr>;
           blocks' = butlast blocks @ [mk_block (get_id (last blocks)) (DirFileBlockData updated_file)]
       in bind_result (replace_chain bm (rev blocks') (df_children file_inode) ids_to_add s1)
            (\<lambda>(new_root, s2).
          bind_result (set_root_block vm new_root (f\<lparr>store := s2\<rparr>)) (\<lambda>f2.
            free_blocks vm blocks' f2)))))"

text \<open>
  \<open>write\<close>: the caller's buffer must hold at least \<open>size\<close> bytes. \<open>std::string::replace\<close>
  at \<open>offset\<close> drops at most \<open>size\<close> characters and inserts the \<open>size\<close> bytes.
\<close>

definition fuse_write ::
  "nat \<Rightarrow> 's block_manager \<Rightarrow> ('s, 'm) fuse_methods \<Rightarrow> os_env \<Rightarrow> string \<Rightarrow> string \<Rightarrow> u64 \<Rightarrow> u64 \<Rightarrow>
     ('s, 'm) block_fuse_scheme \<Rightarrow> (int \<times> ('s, 'm) block_fuse_scheme) result" where
  "fuse_write fuel bm vm env path buffer sz offset f =
     bind_result (get_path fuel bm path f) (\<lambda>(blocks, f1).
       if blocks = [] then Inr (set_no_such_file_or_dir f1)
       else let file_inode = last blocks
         in bind_result (deref (try_cast_dir_file file_inode)) (\<lambda>resolved_data.
           if df_is_dir resolved_data then Inr (set_error_because_dir f1)
           else bind_result (read_file_contents fuel bm resolved_data (store f1)) (\<lambda>(contents, s2).
             if length contents < unat offset then Inr (-1, f1\<lparr>store := s2\<rparr>)
             else if length buffer < unat sz
             then Inl (Undefined_Behaviour ''buffer shorter than size'')
             else let file_contents = take (unat offset) contents @ take (unat sz) buffer @
                                        drop (unat offset + unat sz) contents
               in bind_result (recursive_free_children_blocks fuel bm file_inode s2) (\<lambda>s3.
                  bind_result (write_file_starting_at_node fuel bm vm env blocks file_contents
                                 (f1\<lparr>store := s3\<rparr>)) (\<lambda>f4.
                    Inr (int_of_size sz, f4))))))"

end
