(* ===== verification/FsTree.thy ===== *)
theory FsTree
  imports BlockFuse
begin

text \<open>
  The abstract file system. A store of blocks represents a tree (\<open>btree\<close>): every node has its
  block id, what kind of block it is, and its children in order; \<open>stored L t\<close> says that the map
  \<open>L\<close> from ids to data holds every block of \<open>t\<close>. Forgetting the ids gives an \<open>ftree\<close>,
  the abstract state, on which lookup by path, insertion and removal are ordinary recursive
  functions. \<open>FsWalk\<close> shows that the code's searches follow the tree, \<open>FsChain\<close> that its
  reads, frees and updates of the store are the tree's.
\<close>

section \<open>Trees\<close>

datatype kind = KDir string stat_data | KLink | KLeaf string

datatype ftree = FNode (fkind: kind) (fkids: "ftree list")

datatype btree = Node (tid: block_id) (tkind: kind) (kids: "btree list")

fun node_data :: "kind \<Rightarrow> block_id list \<Rightarrow> block_data" where
  "node_data (KDir n st) cs = DirFileBlockData \<lparr>df_name = n, df_stat = st, df_children = cs\<rparr>"
| "node_data KLink cs = LinkBlockData cs"
| "node_data (KLeaf c) cs = FileContentsBlockData c"

fun strip :: "btree \<Rightarrow> ftree" where
  "strip (Node i k ts) = FNode k (map strip ts)"

fun tids :: "btree \<Rightarrow> block_id list" where
  "tids (Node i k ts) = i # concat (map tids ts)"

definition tdata :: "btree \<Rightarrow> block_data" where
  "tdata t = node_data (tkind t) (map tid (kids t))"

definition tblock :: "btree \<Rightarrow> block" where
  "tblock t = mk_block (tid t) (tdata t)"

fun stored :: "(block_id \<rightharpoonup> block_data) \<Rightarrow> btree \<Rightarrow> bool" where
  "stored L (Node i k ts) \<longleftrightarrow>
     L i = Some (node_data k (map tid ts)) \<and> (\<forall>t \<in> set ts. stored L t)"

fun fheight :: "ftree \<Rightarrow> nat" where
  "fheight (FNode k ts) = Suc (foldr max (map fheight ts) 0)"

fun is_dir_file :: "kind \<Rightarrow> bool" where
  "is_dir_file (KDir n st) = True"
| "is_dir_file _ = False"

fun kind_named :: "string \<Rightarrow> kind \<Rightarrow> bool" where
  "kind_named p (KDir n st) = (n = p)"
| "kind_named p _ = False"

fun dir_names :: "ftree list \<Rightarrow> string list" where
  "dir_names [] = []"
| "dir_names (FNode (KDir n st) cs # ts) = n # dir_names ts"
| "dir_names (_ # ts) = dir_names ts"

text \<open>
  Well-formed trees: leaves have no children, no directory or file sits under a link, and the
  directories and files directly under one block have different names.
\<close>

fun fshape :: "ftree \<Rightarrow> bool" where
  "fshape (FNode k ts) \<longleftrightarrow>
     (case k of
        KLeaf c \<Rightarrow> ts = []
      | KLink \<Rightarrow> (\<forall>t \<in> set ts. \<not> is_dir_file (fkind t) \<and> fshape t)
      | KDir n st \<Rightarrow> (\<forall>t \<in> set ts. fshape t) \<and> distinct (dir_names ts))"

definition ffind :: "string \<Rightarrow> ftree list \<Rightarrow> ftree option" where
  "ffind p ts = find (\<lambda>t. kind_named p (fkind t)) ts"

fun flookup :: "string list \<Rightarrow> ftree \<Rightarrow> ftree option" where
  "flookup [] t = Some t"
| "flookup (p # ps) t =
     (case ffind p (fkids t) of None \<Rightarrow> None | Some c \<Rightarrow> flookup ps c)"

text \<open>
  Updating the node at a path: the changed child goes to the end of its parent's children, at
  every level, as the code's chain replacement puts it.
\<close>

fun fupdate :: "string list \<Rightarrow> (ftree \<Rightarrow> ftree) \<Rightarrow> ftree \<Rightarrow> ftree" where
  "fupdate [] g t = g t"
| "fupdate (p # ps) g (FNode k ts) =
     (case ffind p ts of
        None \<Rightarrow> FNode k ts
      | Some c \<Rightarrow> FNode k (remove_first (\<lambda>t. kind_named p (fkind t)) ts @ [fupdate ps g c]))"

text \<open>The contents of a file: its leaves from left to right, through links only.\<close>

fun fleaves :: "ftree \<Rightarrow> string list" where
  "fleaves (FNode (KLeaf c) ts) = [c]"
| "fleaves (FNode KLink ts) = concat (map fleaves ts)"
| "fleaves (FNode (KDir n st) ts) = []"

definition fcontents :: "ftree \<Rightarrow> string" where
  "fcontents t = concat (concat (map fleaves (fkids t)))"

fun fsize :: "ftree \<Rightarrow> nat" where
  "fsize (FNode k ts) = Suc (sum_list (map fsize ts))"

section \<open>Basic facts\<close>

lemma fkind_strip [simp]: "fkind (strip t) = tkind t"
  by (cases t) simp

lemma fkids_strip [simp]: "fkids (strip t) = map strip (kids t)"
  by (cases t) simp

lemma tids_eq: "tids t = tid t # concat (map tids (kids t))"
  by (cases t) simp

lemma strip_eq: "strip t = FNode (tkind t) (map strip (kids t))"
  by (cases t) simp

lemma stored_iff: "stored L t \<longleftrightarrow> L (tid t) = Some (tdata t) \<and> (\<forall>c \<in> set (kids t). stored L c)"
  by (cases t) (simp add: tdata_def)

lemma tid_in_tids [simp]: "tid t \<in> set (tids t)"
  by (cases t) simp

lemma tblock_simps [simp]: "get_id (tblock t) = tid t" "get_data (tblock t) = tdata t"
  by (simp_all add: tblock_def)

lemma try_cast_tblock:
  "try_cast_dir_file (tblock t) =
     (case tkind t of KDir n st \<Rightarrow> Some \<lparr>df_name = n, df_stat = st, df_children = map tid (kids t)\<rparr>
      | _ \<Rightarrow> None)"
  "try_cast_link (tblock t) = (if tkind t = KLink then Some (map tid (kids t)) else None)"
  "try_cast_contents (tblock t) = (case tkind t of KLeaf c \<Rightarrow> Some c | _ \<Rightarrow> None)"
  by (cases "tkind t"; simp add: try_cast_defs tdata_def)+

lemma fheight_le_iff: "fheight (FNode k ts) \<le> Suc n \<longleftrightarrow> (\<forall>t \<in> set ts. fheight t \<le> n)"
proof -
  have "foldr max xs 0 \<le> n \<longleftrightarrow> (\<forall>x \<in> set xs. x \<le> n)" for xs :: "nat list"
    by (induction xs) auto
  then show ?thesis by simp
qed

lemma length_tids: "length (tids t) = fsize (strip t)"
proof (induction t)
  case (Node i k ts)
  then have "map (\<lambda>t. length (tids t)) ts = map (\<lambda>t. fsize (strip t)) ts" by simp
  then have "(\<Sum>t\<leftarrow>ts. length (tids t)) = (\<Sum>t\<leftarrow>ts. fsize (strip t))" by (rule arg_cong)
  then show ?case by (simp add: length_concat comp_def del: map_eq_conv)
qed

lemma fheight_pos: "0 < fheight t"
  by (cases t) simp

lemma height_kids: "fheight (strip t) \<le> Suc n \<longleftrightarrow> (\<forall>c \<in> set (kids t). fheight (strip c) \<le> n)"
  by (simp add: strip_eq [of t] fheight_le_iff del: fheight.simps)

lemma stored_mono: "stored L t \<Longrightarrow> \<forall>i \<in> set (tids t). L' i = L i \<Longrightarrow> stored L' t"
  by (induction t) auto

lemma stored_map_le: "stored L t \<Longrightarrow> L \<subseteq>\<^sub>m L' \<Longrightarrow> stored L' t"
  by (induction t) (auto simp: map_le_def dom_def)

lemma stored_dom: "stored L t \<Longrightarrow> set (tids t) \<subseteq> dom L"
  by (induction t) auto

lemma kid_ids_subset: "c \<in> set (kids t) \<Longrightarrow> set (tids c) \<subseteq> set (tids t)"
  by (cases t) auto

lemma distinct_tids_kid: "distinct (tids t) \<Longrightarrow> c \<in> set (kids t) \<Longrightarrow> distinct (tids c)"
  by (cases t) (auto simp: distinct_concat_iff)

lemma distinct_kid_ids: "distinct (concat (map tids ts)) \<Longrightarrow> distinct (map tid ts)"
proof (induction ts)
  case Nil
  then show ?case by simp
next
  case (Cons t ts)
  have "tid t \<notin> tid ` set ts"
  proof
    assume "tid t \<in> tid ` set ts"
    then obtain u where "u \<in> set ts" "tid u = tid t" by auto
    then have "tid t \<in> set (concat (map tids ts))" using tid_in_tids [of u] by auto
    moreover have "set (tids t) \<inter> set (concat (map tids ts)) = {}" using Cons.prems by simp
    ultimately show False using tid_in_tids [of t] by blast
  qed
  with Cons show ?case by simp
qed

end
