(* ===== verification/FsWalk.thy ===== *)
theory FsWalk
  imports FsTree
begin

text \<open>
  Resolving a path. \<open>bwalk\<close> follows names down a stored tree; this theory shows that the
  code's search, \<open>get_path\<close>, is that walk: the breadth-first search through links finds the
  child with the name, \<open>find_path\<close> rebuilds the one-block path to it, and \<open>fuel\<close> equal to the
  height of the tree is enough.
\<close>

section \<open>Walking a tree\<close>

definition bfind :: "string \<Rightarrow> btree \<Rightarrow> btree option" where
  "bfind p t = find (\<lambda>c. kind_named p (tkind c)) (kids t)"

fun bwalk :: "string list \<Rightarrow> btree \<Rightarrow> btree list option" where
  "bwalk [] t = Some []"
| "bwalk (p # ps) t =
     (case bfind p t of None \<Rightarrow> None | Some c \<Rightarrow> map_option (\<lambda>cs. c # cs) (bwalk ps c))"

definition link_kids :: "btree \<Rightarrow> btree list" where
  "link_kids t = (if tkind t = KLink then kids t else [])"

lemma ffind_strip: "ffind p (map strip ts) = map_option strip (find (\<lambda>c. kind_named p (tkind c)) ts)"
  by (simp add: ffind_def find_map)

lemma flookup_strip:
  "flookup ps (strip t) = map_option (\<lambda>cs. strip (last (t # cs))) (bwalk ps t)"
proof (induction ps arbitrary: t)
  case Nil
  then show ?case by simp
next
  case (Cons p ps)
  show ?case
  proof (cases "bfind p t")
    case None
    then show ?thesis by (simp add: ffind_strip bfind_def)
  next
    case (Some c)
    with Cons.IH [of c] show ?thesis
      by (cases "bwalk ps c") (simp_all add: ffind_strip bfind_def)
  qed
qed

lemma bfind_kid: "bfind p t = Some c \<Longrightarrow> c \<in> set (kids t) \<and> kind_named p (tkind c)"
  unfolding bfind_def by (rule find_Some_in)

lemma kind_namedD: "kind_named p k \<Longrightarrow> \<exists>st. k = KDir p st"
  by (cases k) auto

lemma fshape_kid: "fshape (strip t) \<Longrightarrow> c \<in> set (kids t) \<Longrightarrow> fshape (strip c)"
  by (cases t) (auto split: kind.splits)

lemma fshape_link_kid:
  "fshape (strip t) \<Longrightarrow> c \<in> set (link_kids t) \<Longrightarrow> fshape (strip c) \<and> \<not> is_dir_file (tkind c)"
  by (cases t) (auto simp: link_kids_def)

lemma kind_named_is_dir_file: "kind_named p k \<Longrightarrow> is_dir_file k"
  by (cases k) auto

lemma stored_kid: "stored L t \<Longrightarrow> c \<in> set (kids t) \<Longrightarrow> stored L c"
  by (cases t) auto

section \<open>The search\<close>

lemma try_cast_named:
  "(case try_cast_dir_file (tblock c) of Some d \<Rightarrow> df_name d = p | None \<Rightarrow> False) =
     kind_named p (tkind c)"
  by (cases "tkind c") (auto simp: try_cast_tblock)

lemma helper_none:
  "\<forall>c \<in> set ts. \<not> kind_named p (tkind c) \<Longrightarrow>
     \<exists>r'. get_path_part_helper (map (\<lambda>c. Some (tblock c)) ts) p acc r =
       Inr (None, acc @ map tid (concat (map link_kids ts)), r')"
proof (induction ts arbitrary: acc r)
  case Nil
  then show ?case by simp
next
  case (Cons c ts)
  let ?acc = "case try_cast_link (tblock c) of None \<Rightarrow> acc | Some children \<Rightarrow> acc @ children"
  have acc: "?acc = acc @ map tid (link_kids c)"
    by (simp add: try_cast_tblock(2) link_kids_def)
  obtain r' where "get_path_part_helper (map (\<lambda>c. Some (tblock c)) ts) p ?acc (r(tid c \<mapsto> tblock c)) =
      Inr (None, ?acc @ map tid (concat (map link_kids ts)), r')"
    using Cons.IH [of ?acc "r(tid c \<mapsto> tblock c)"] Cons.prems unfolding list.set ball_simps by blast
  with Cons.prems acc show ?case by (simp add: try_cast_named)
qed

lemma helper_found:
  "find (\<lambda>c. kind_named p (tkind c)) ts = Some c \<Longrightarrow>
     \<exists>acc' r'. get_path_part_helper (map (\<lambda>c. Some (tblock c)) ts) p acc r =
         Inr (Some (tblock c), acc', r') \<and> r' (tid c) = Some (tblock c) \<and>
       (\<forall>i b. r' i = Some b \<longrightarrow> r i = Some b \<or> (\<exists>u \<in> set ts. i = tid u \<and> b = tblock u))"
proof (induction ts arbitrary: acc r)
  case Nil
  then show ?case by simp
next
  case (Cons t ts)
  show ?case
  proof (cases "kind_named p (tkind t)")
    case True
    with Cons.prems show ?thesis by (auto simp: try_cast_named)
  next
    case False
    with Cons.prems have f: "find (\<lambda>c. kind_named p (tkind c)) ts = Some c" by simp
    let ?acc = "case try_cast_link (tblock t) of None \<Rightarrow> acc | Some children \<Rightarrow> acc @ children"
    from Cons.IH [OF f, of ?acc "r(tid t \<mapsto> tblock t)"] obtain acc' r' where
      r: "get_path_part_helper (map (\<lambda>c. Some (tblock c)) ts) p ?acc (r(tid t \<mapsto> tblock t)) =
         Inr (Some (tblock c), acc', r')" "r' (tid c) = Some (tblock c)"
      "\<forall>i b. r' i = Some b \<longrightarrow> (r(tid t \<mapsto> tblock t)) i = Some b \<or>
         (\<exists>u \<in> set ts. i = tid u \<and> b = tblock u)"
      by blast
    have "get_path_part_helper (map (\<lambda>c. Some (tblock c)) (t # ts)) p acc r =
         Inr (Some (tblock c), acc', r')"
      using False r(1) by (simp add: try_cast_named)
    moreover have "r i = Some b \<or> (\<exists>u \<in> set (t # ts). i = tid u \<and> b = tblock u)"
      if "r' i = Some b" for i b
      using r(3) that by (auto simp: fun_upd_apply split: if_splits)
    ultimately show ?thesis using r(2) by blast
  qed
qed

lemma find_path_children_none:
  "\<forall>i \<in> set cs. r i = None \<Longrightarrow> find_path_children n r cs target acc = Inr (False, acc)"
  by (induction cs) auto

lemma hd_tids: "hd (tids t) = tid t"
  by (cases t) simp

lemma distinct_kids_disjoint:
  assumes "distinct (tids t)" and "u \<in> set (kids t)" and "v \<in> set (kids t)"
    and "i \<in> set (tids u)" and "i \<in> set (tids v)"
  shows "u = v"
proof (rule ccontr)
  assume "u \<noteq> v"
  from assms(1) have d: "distinct (map tids (kids t) )" "distinct (concat (map tids (kids t)))"
  proof -
    from assms(1) show c: "distinct (concat (map tids (kids t)))" by (simp add: tids_eq [of t])
    have "distinct (map tid (kids t))" by (rule distinct_kid_ids [OF c])
    moreover have "map tid (kids t) = map hd (map tids (kids t))"
      by (simp add: hd_tids)
    ultimately have "distinct (map hd (map tids (kids t)))" by simp
    then show "distinct (map tids (kids t))" unfolding distinct_map [of hd] by simp
  qed
  have "tids u \<noteq> tids v"
  proof
    assume "tids u = tids v"
    with d(1) assms(2,3) \<open>u \<noteq> v\<close> show False by (auto simp: distinct_map inj_on_def)
  qed
  with d(2) assms show False unfolding distinct_concat_iff by auto
qed

lemma kid_in_concat: "c \<in> set ts \<Longrightarrow> tid c \<in> set (concat (map tids ts))"
  by (auto intro!: bexI [of _ c])

lemma find_path_other:
  assumes "distinct (tids t)" and "u \<in> set (kids t)" and "c \<in> set (kids t)" and "u \<noteq> c"
    and r: "\<forall>i b. r i = Some b \<longrightarrow> (\<exists>v \<in> set (kids t). i = tid v \<and> b = tblock v)"
  shows "find_path (Suc n) r (tblock u) (tblock c) acc = Inr (False, acc)"
proof -
  have ne: "tid u \<noteq> tid c"
    using distinct_kids_disjoint [OF assms(1-3), of "tid u"] assms(4) by auto
  have none: "r i = None" if i: "i \<in> tid ` set (kids u)" for i
  proof (rule ccontr)
    assume "r i \<noteq> None"
    with r obtain v where v: "v \<in> set (kids t)" "i = tid v" by blast
    from i obtain w where w: "w \<in> set (kids u)" "i = tid w" by auto
    have iu: "i \<in> set (concat (map tids (kids u)))" using kid_in_concat [OF w(1)] w(2) by simp
    then have "i \<in> set (tids u)" by (simp add: tids_eq [of u])
    with v distinct_kids_disjoint [OF assms(1,2) v(1), of i] have "u = v" by simp
    with v have "i = tid u" by simp
    moreover have "distinct (tids u)" using assms(1,2) by (rule distinct_tids_kid)
    ultimately show False using iu by (simp add: tids_eq [of u])
  qed
  then show ?thesis
    using ne by (cases "tkind u") (simp_all add: try_cast_tblock find_path_children_none)
qed

lemma find_path_kid:
  assumes "distinct (tids t)" and "is_dir_file (tkind t)" and "c \<in> set (kids t)"
    and "r (tid c) = Some (tblock c)"
    and r: "\<forall>i b. r i = Some b \<longrightarrow> (\<exists>v \<in> set (kids t). i = tid v \<and> b = tblock v)"
  shows "find_path (Suc (Suc n)) r (tblock t) (tblock c) acc = Inr (True, acc @ [tblock c])"
proof -
  have "tid c \<in> set (concat (map tids (kids t)))" by (rule kid_in_concat [OF assms(3)])
  with assms(1) have ne: "tid t \<noteq> tid c" by (auto simp: tids_eq [of t])
  have "find_path_children (Suc n) r (map tid us) (tblock c) acc = Inr (True, acc @ [tblock c])"
    if "set us \<subseteq> set (kids t)" "c \<in> set us" for us
    using that
  proof (induction us)
    case Nil
    then show ?case by simp
  next
    case (Cons u us)
    show ?case
    proof (cases "u = c")
      case True
      with assms(4) show ?thesis by simp
    next
      case False
      then have IH: "find_path_children (Suc n) r (map tid us) (tblock c) acc = Inr (True, acc @ [tblock c])"
        using Cons by simp
      have u: "u \<in> set (kids t)" using Cons.prems by simp
      show ?thesis
      proof (cases "r (tid u)")
        case None
        with IH show ?thesis by simp
      next
        case (Some b)
        with r obtain v where v: "v \<in> set (kids t)" "tid u = tid v" "b = tblock v" by blast
        have "u = v"
          using distinct_kids_disjoint [OF assms(1) u v(1) tid_in_tids] v(2) by simp
        with Some v IH find_path_other [OF assms(1) u assms(3) False r, of n acc]
        show ?thesis by simp
      qed
    qed
  qed
  from this [of "kids t"] assms(2,3) ne show ?thesis
    by (cases "tkind t") (simp_all add: try_cast_tblock)
qed

text \<open>The level below a level of trees without common ids.\<close>

lemma distinct_link_kids:
  "distinct (concat (map tids ts)) \<Longrightarrow> distinct (concat (map tids (concat (map link_kids ts))))"
proof (induction ts)
  case (Cons t ts)
  have sub: "set (concat (map tids (link_kids t))) \<subseteq> set (tids t)" for t
    by (auto simp: link_kids_def tids_eq [of t] split: if_splits)
  have "distinct (concat (map tids (link_kids t)))"
    using Cons.prems by (simp add: link_kids_def tids_eq [of t])
  moreover have "set (concat (map tids (concat (map link_kids ts)))) \<subseteq> set (concat (map tids ts))"
    using sub by fastforce
  then have "set (concat (map tids (link_kids t))) \<inter> set (concat (map tids (concat (map link_kids ts)))) = {}"
    using sub [of t] Cons.prems by fastforce
  ultimately show ?case using Cons by (simp del: set_concat)
qed simp

lemma mset_map_order:
  assumes "mset is = mset (map f ts)"
  shows "\<exists>us. is = map f us \<and> mset us = mset ts"
  using assms
proof (induction "is" arbitrary: ts)
  case (Cons i "is")
  then have "i \<in> set (map f ts)" by (metis list.set_intros(1) mset_eq_setD)
  then obtain t where t: "t \<in> set ts" "i = f t" by auto
  then have "mset (map f ts) = add_mset i (mset (map f (remove1 t ts)))"
    by (simp add: image_mset_Diff)
  with Cons.prems have "mset is = mset (map f (remove1 t ts))" by simp
  from Cons.IH [OF this] obtain us where "is = map f us" "mset us = mset (remove1 t ts)" by blast
  with t show ?case by (intro exI [of _ "t # us"]) simp
qed simp

lemma mset_concat_order:
  assumes "mset us = mset ts"
  shows "mset (concat (map f us)) = mset (concat (map f ts))"
proof -
  have "mset (concat (map f us)) = sum_mset (image_mset (\<lambda>t. mset (f t)) (mset us))" for us
    by (induction us) simp_all
  with assms show ?thesis by simp
qed

lemma named_once:
  assumes "distinct (dir_names (map strip ts))" and "u \<in> set ts" "v \<in> set ts"
    and "kind_named p (tkind u)" "kind_named p (tkind v)"
  shows "u = v"
  using assms
proof (induction ts)
  case (Cons t ts)
  have names: "kind_named p (tkind x) \<Longrightarrow> x \<in> set ts \<Longrightarrow> p \<in> set (dir_names (map strip ts))" for x
  proof (induction ts)
    case (Cons y ys)
    then show ?case by (cases y; cases "tkind y") auto
  qed simp
  show ?case
  proof (cases "kind_named p (tkind t)")
    case True
    then obtain st where "tkind t = KDir p st" using kind_namedD by blast
    then have "strip t = FNode (KDir p st) (map strip (kids t))" by (simp add: strip_eq)
    with Cons.prems(1) have "p \<notin> set (dir_names (map strip ts))" by simp
    with names Cons.prems show ?thesis by auto
  next
    case False
    have "distinct (dir_names (map strip ts))"
      using Cons.prems(1) by (cases t; cases "tkind t") auto
    with Cons False show ?thesis by auto
  qed
qed simp

lemma find_order:
  assumes "mset us = mset ts" and "distinct (dir_names (map strip ts))"
  shows "find (\<lambda>c. kind_named p (tkind c)) us = find (\<lambda>c. kind_named p (tkind c)) ts"
proof -
  let ?P = "\<lambda>c. kind_named p (tkind c)"
  have us: "set us = set ts" using assms(1) by (rule mset_eq_setD)
  show ?thesis
  proof (cases "find ?P us")
    case None
    with us show ?thesis using find_None_iff [of ?P us] find_None_iff [of ?P ts] by auto
  next
    case (Some c)
    then have c: "c \<in> set ts" "?P c" using find_Some_in [OF Some] us by auto
    then obtain d where d: "find ?P ts = Some d" using find_None_iff [of ?P ts] by (cases "find ?P ts") auto
    with named_once [OF assms(2) c(1)] find_Some_in [OF d] c(2) have "d = c" by auto
    with Some d show ?thesis by simp
  qed
qed

text \<open>
  The search does not depend on the order of a response. \<open>holds L s\<close> says that the store answers
  from the map \<open>L\<close> in the state \<open>s\<close>; to answer it may change its state, and it may take any order.
\<close>

locale loose_store =
  fixes bm :: "'s block_manager" and holds :: "(block_id \<rightharpoonup> block_data) \<Rightarrow> 's \<Rightarrow> bool"
  assumes get_loose: "holds L s \<Longrightarrow> distinct ids \<Longrightarrow> set ids \<subseteq> dom L \<Longrightarrow>
      \<exists>order s'. mset order = mset ids \<and>
        bm_get bm ids s = Inr (map (\<lambda>i. Some (mk_block i (the (L i)))) order, s') \<and> holds L s'"
begin

lemma get_stored_loose:
  assumes "holds L s" and "\<forall>c \<in> set ts. stored L c" and "distinct (map tid ts)"
  shows "\<exists>us s'. mset us = mset ts \<and> bm_get bm (map tid ts) s = Inr (map (\<lambda>c. Some (tblock c)) us, s') \<and> holds L s'"
proof -
  have l: "L (tid c) = Some (tdata c)" if "c \<in> set ts" for c
    using assms(2) that stored_iff [THEN iffD1] by blast
  then have "set (map tid ts) \<subseteq> dom L" by auto
  from get_loose [OF assms(1,3) this] obtain order s' where r: "mset order = mset (map tid ts)"
    "bm_get bm (map tid ts) s = Inr (map (\<lambda>i. Some (mk_block i (the (L i)))) order, s')" "holds L s'" by blast
  from mset_map_order [OF r(1)] obtain us where us: "order = map tid us" "mset us = mset ts" by blast
  then have "set us = set ts" using mset_eq_setD by blast
  with l have "map (\<lambda>i. Some (mk_block i (the (L i)))) order = map (\<lambda>c. Some (tblock c)) us"
    by (simp add: us(1) tblock_def)
  with r us(2) show ?thesis by auto
qed

lemma search_none:
  "\<forall>c \<in> set ts. stored L c \<and> fshape (strip c) \<and> fheight (strip c) \<le> n \<and> \<not> kind_named p (tkind c) \<Longrightarrow>
     distinct (concat (map tids ts)) \<Longrightarrow> holds L s \<Longrightarrow> mset ids = mset (map tid ts) \<Longrightarrow>
     \<exists>r' s'. get_path_part_loop n bm p ids r s = Inr (None, r', s') \<and> holds L s'"
proof (induction n arbitrary: ts r s ids)
  case 0
  have "ts = []"
  proof (rule ccontr)
    assume "ts \<noteq> []"
    then obtain c where "c \<in> set ts" by (cases ts) auto
    with 0 fheight_pos [of "strip c"] show False by auto
  qed
  with 0 show ?case by simp
next
  case (Suc n)
  from mset_map_order [OF Suc.prems(4)] obtain ts' where ts': "ids = map tid ts'" "mset ts' = mset ts" by blast
  have set': "set ts' = set ts" using ts'(2) by (rule mset_eq_setD)
  have "mset (concat (map tids ts')) = mset (concat (map tids ts))"
    by (rule mset_concat_order [OF ts'(2)])
  with Suc.prems(2) have d': "distinct (concat (map tids ts'))" by (metis mset_eq_imp_distinct_iff)
  show ?case
  proof (cases "ts' = []")
    case False
    from get_stored_loose [OF Suc.prems(3), of ts'] Suc.prems(1) set' distinct_kid_ids [OF d'] obtain us s1 where
      us: "mset us = mset ts'" "bm_get bm ids s = Inr (map (\<lambda>c. Some (tblock c)) us, s1)" "holds L s1"
      by (auto simp: ts'(1))
    have set_us: "set us = set ts" using mset_eq_setD [OF us(1)] set' by simp
    let ?next = "concat (map link_kids us)"
    have "mset (concat (map tids us)) = mset (concat (map tids ts'))" by (rule mset_concat_order [OF us(1)])
    with d' have d_us: "distinct (concat (map tids us))" by (metis mset_eq_imp_distinct_iff)
    obtain r' where h: "get_path_part_helper (map (\<lambda>c. Some (tblock c)) us) p [] r = Inr (None, map tid ?next, r')"
      using helper_none [of us p "[]" r] Suc.prems(1) set_us by auto
    have "\<forall>c \<in> set ?next. stored L c \<and> fshape (strip c) \<and> fheight (strip c) \<le> n \<and> \<not> kind_named p (tkind c)"
    proof
      fix c
      assume "c \<in> set ?next"
      then obtain t where t: "t \<in> set ts" "c \<in> set (link_kids t)" using set_us by auto
      then have k: "c \<in> set (kids t)" by (auto simp: link_kids_def split: if_splits)
      have "stored L c" using Suc.prems(1) t(1) k stored_kid by blast
      moreover have "fheight (strip c) \<le> n" using Suc.prems(1) t(1) k height_kids by blast
      moreover have "fshape (strip c)" "\<not> is_dir_file (tkind c)"
        using fshape_link_kid [of t c] Suc.prems(1) t by auto
      ultimately show "stored L c \<and> fshape (strip c) \<and> fheight (strip c) \<le> n \<and> \<not> kind_named p (tkind c)"
        using kind_named_is_dir_file by blast
    qed
    from Suc.IH [OF this distinct_link_kids [OF d_us] us(3) refl, of r'] obtain r'' s2 where
      "get_path_part_loop n bm p (map tid ?next) r' s1 = Inr (None, r'', s2)" "holds L s2" by blast
    with h us(2) False ts'(1) show ?thesis by simp
  qed (use Suc.prems(3) ts'(1) in simp)
qed

lemma search_found:
  assumes "holds L s" and "\<forall>c \<in> set ts. stored L c" and "distinct (map tid ts)"
    and "distinct (dir_names (map strip ts))" and "find (\<lambda>c. kind_named p (tkind c)) ts = Some c"
  shows "\<exists>r' s'. get_path_part_loop (Suc n) bm p (map tid ts) Map.empty s = Inr (Some (tblock c), r', s') \<and>
     holds L s' \<and> r' (tid c) = Some (tblock c) \<and>
     (\<forall>i b. r' i = Some b \<longrightarrow> (\<exists>u \<in> set ts. i = tid u \<and> b = tblock u))"
proof -
  from get_stored_loose [OF assms(1-3)] obtain us s' where us: "mset us = mset ts"
    "bm_get bm (map tid ts) s = Inr (map (\<lambda>c. Some (tblock c)) us, s')" "holds L s'" by blast
  have "find (\<lambda>c. kind_named p (tkind c)) us = Some c" using find_order [OF us(1) assms(4)] assms(5) by simp
  from helper_found [OF this, of "[]" Map.empty] obtain acc' r' where
    h: "get_path_part_helper (map (\<lambda>c. Some (tblock c)) us) p [] Map.empty = Inr (Some (tblock c), acc', r')"
    "r' (tid c) = Some (tblock c)" "\<forall>i b. r' i = Some b \<longrightarrow> (\<exists>u \<in> set us. i = tid u \<and> b = tblock u)"
    by auto
  moreover have "ts \<noteq> []" using assms(5) by auto
  ultimately show ?thesis using us mset_eq_setD [OF us(1)] by simp
qed

lemma get_path_part_loose:
  assumes "holds L s" and "stored L t" and "fshape (strip t)" and "distinct (tids t)"
    and "is_dir_file (tkind t)" and "fheight (strip t) \<le> n" and "p \<noteq> ''/''"
  shows "\<exists>s'. get_path_part n bm root p (Some (tblock t)) [] s =
     Inr (case bfind p t of None \<Rightarrow> [] | Some c \<Rightarrow> [tblock c], s') \<and> holds L s'"
proof -
  obtain nm st where k: "tkind t = KDir nm st" using assms(5) by (cases "tkind t") auto
  have cast: "try_cast_dir_file (tblock t) =
      Some \<lparr>df_name = nm, df_stat = st, df_children = map tid (kids t)\<rparr>"
    by (simp add: try_cast_tblock k)
  obtain m where n: "n = Suc m" using assms(6) fheight_pos [of "strip t"] by (cases n) auto
  have kids: "\<forall>c \<in> set (kids t). stored L c \<and> fshape (strip c) \<and> fheight (strip c) \<le> m"
    using assms(2,3,6) stored_kid fshape_kid height_kids [of t m] n by blast
  have ids: "distinct (concat (map tids (kids t)))" using assms(4) by (simp add: tids_eq [of t])
  have names: "distinct (dir_names (map strip (kids t)))" using assms(3) by (simp add: strip_eq [of t] k)
  show ?thesis
  proof (cases "bfind p t")
    case None
    then have "\<forall>c \<in> set (kids t). \<not> kind_named p (tkind c)"
      by (simp add: bfind_def find_None_iff)
    with kids have "\<forall>c \<in> set (kids t). stored L c \<and> fshape (strip c) \<and>
        fheight (strip c) \<le> n \<and> \<not> kind_named p (tkind c)"
      unfolding n by auto
    from search_none [OF this ids assms(1) refl, of Map.empty] obtain r' s' where
      "get_path_part_loop n bm p (map tid (kids t)) Map.empty s = Inr (None, r', s')" "holds L s'"
      by blast
    with None cast assms(7) show ?thesis by (simp add: get_path_part_def PATH_SEPARATOR_def)
  next
    case (Some c)
    from bfind_kid [OF Some] have c: "c \<in> set (kids t)" by simp
    then have "0 < m" using kids fheight_pos [of "strip c"] by auto
    then obtain m' where m: "m = Suc m'" by (cases m) auto
    from search_found [OF assms(1), of "kids t" p c m] kids distinct_kid_ids [OF ids] names Some obtain r' s' where
      r: "get_path_part_loop n bm p (map tid (kids t)) Map.empty s = Inr (Some (tblock c), r', s')" "holds L s'"
      "r' (tid c) = Some (tblock c)"
      "\<forall>i b. r' i = Some b \<longrightarrow> (\<exists>u \<in> set (kids t). i = tid u \<and> b = tblock u)"
      by (auto simp: bfind_def n)
    from find_path_kid [OF assms(4,5) c r(3,4), of m' "[]"] r(1,2) Some cast assms(7)
    show ?thesis
      by (simp add: get_path_part_def PATH_SEPARATOR_def n m
          del: find_path.simps get_path_part_loop.simps)
  qed
qed

lemma get_path_loop_loose:
  "stored L t \<Longrightarrow> fshape (strip t) \<Longrightarrow> distinct (tids t) \<Longrightarrow> is_dir_file (tkind t) \<Longrightarrow>
     fheight (strip t) \<le> n \<Longrightarrow> ''/'' \<notin> set ps \<Longrightarrow> holds L s \<Longrightarrow>
     \<exists>s'. get_path_loop n bm root ps (Some (tblock t)) acc s =
       Inr (case bwalk ps t of None \<Rightarrow> [] | Some cs \<Rightarrow> acc @ map tblock cs, s') \<and> holds L s'"
proof (induction ps arbitrary: t acc s)
  case (Cons p ps)
  obtain s1 where part: "get_path_part n bm root p (Some (tblock t)) [] s =
      Inr (case bfind p t of None \<Rightarrow> [] | Some c \<Rightarrow> [tblock c], s1)" "holds L s1"
    using get_path_part_loose [OF Cons.prems(7,1-5), of p root] Cons.prems(6) by auto
  show ?case
  proof (cases "bfind p t")
    case None
    with part show ?thesis by simp
  next
    case (Some c)
    from bfind_kid [OF Some] have c: "c \<in> set (kids t)" "is_dir_file (tkind c)"
      using kind_named_is_dir_file by auto
    have "fheight (strip c) \<le> n"
      using Cons.prems(5) c(1) height_kids [of t "n - 1"] by (cases n) auto
    moreover have "stored L c" "fshape (strip c)" "distinct (tids c)" "''/'' \<notin> set ps"
      using Cons.prems c(1) stored_kid fshape_kid distinct_tids_kid by auto
    ultimately obtain s2 where
      "get_path_loop n bm root ps (Some (tblock c)) (acc @ [tblock c]) s1 =
         Inr (case bwalk ps c of None \<Rightarrow> [] | Some cs \<Rightarrow> (acc @ [tblock c]) @ map tblock cs, s2)" "holds L s2"
      using Cons.IH [of c s1 "acc @ [tblock c]"] c(2) part(2) by blast
    with part Some show ?thesis by (auto split: option.splits)
  qed
qed simp

end

text \<open>A store that answers in order without changing its state is such a store, in each of its states.\<close>

sublocale block_store \<subseteq> at_state: loose_store bm "\<lambda>L x. x = s \<and> wf s \<and> L = lookup s" for s
  by unfold_locales (use get_ok in auto)

context block_store
begin

lemma get_stored:
  assumes "wf s" and "\<forall>c \<in> set ts. stored (lookup s) c" and "distinct (map tid ts)"
  shows "bm_get bm (map tid ts) s = Inr (map (\<lambda>c. Some (tblock c)) ts, s)"
proof -
  have l: "lookup s (tid c) = Some (tdata c)" if "c \<in> set ts" for c
    using assms(2) that stored_iff [THEN iffD1] by blast
  then have "set (map tid ts) \<subseteq> dom (lookup s)" by auto
  from get_ok [OF assms(1,3) this] l show ?thesis by (simp add: tblock_def comp_def)
qed

lemma get_path_loop_tree:
  assumes "wf s" and "stored (lookup s) t" "fshape (strip t)" "distinct (tids t)" "is_dir_file (tkind t)"
    "fheight (strip t) \<le> n" "''/'' \<notin> set ps"
  shows "get_path_loop n bm root ps (Some (tblock t)) acc s =
       Inr (case bwalk ps t of None \<Rightarrow> [] | Some cs \<Rightarrow> acc @ map tblock cs, s)"
  using at_state.get_path_loop_loose [of "lookup s" t n ps s s root acc] assms by auto

end

end
