(* ===== verification/FsChain.thy ===== *)
theory FsChain
  imports FsWalk
begin

text \<open>
  The code's reads, frees and updates of the store, over any store with the contract
  \<open>block_store\<close>: \<open>read_file_contents\<close> is the concatenation of a file's leaves,
  \<open>recursive_free_children_blocks\<close> unbinds exactly the descendants, and
  \<open>replace_chain\<close> puts an updated node in the place of the one at the end of a path, with one
  fresh id for every block above it. \<open>grown L new L'\<close> says that \<open>L'\<close> is \<open>L\<close> with fresh
  bindings for the ids \<open>new\<close>.
\<close>

section \<open>Fresh bindings\<close>

definition grown :: "('k \<rightharpoonup> 'v) \<Rightarrow> 'k list \<Rightarrow> ('k \<rightharpoonup> 'v) \<Rightarrow> bool" where
  "grown L new L' \<longleftrightarrow>
     L \<subseteq>\<^sub>m L' \<and> distinct new \<and> set new \<inter> dom L = {} \<and> dom L' = dom L \<union> set new"

lemma grown_Nil [simp]: "grown L [] L"
  by (simp add: grown_def)

lemma grown_one: "L i = None \<Longrightarrow> grown L [i] (L(i \<mapsto> d))"
  by (auto simp: grown_def map_le_def)

lemma grown_trans: "grown L a L1 \<Longrightarrow> grown L1 b L2 \<Longrightarrow> grown L (a @ b) L2"
  unfolding grown_def by (auto intro: map_le_trans)

lemma grown_mset: "grown L a L' \<Longrightarrow> mset a = mset b \<Longrightarrow> grown L b L'"
  unfolding grown_def by (auto dest: mset_eq_setD mset_eq_imp_distinct_iff)

lemma grown_map_le: "grown L a L' \<Longrightarrow> L \<subseteq>\<^sub>m L'"
  by (simp add: grown_def)

lemma grown_fresh: "grown L a L' \<Longrightarrow> distinct a \<and> set a \<inter> dom L = {}"
  by (simp add: grown_def)

lemma grown_dom: "grown L a L' \<Longrightarrow> dom L' = dom L \<union> set a"
  by (simp add: grown_def)

lemma grown_stored: "grown L a L' \<Longrightarrow> stored L t \<Longrightarrow> stored L' t"
  by (auto intro: stored_map_le grown_map_le)

lemma stored_restrict:
  "stored L t \<Longrightarrow> set (tids t) \<inter> X = {} \<Longrightarrow> stored (L |` (- X)) t"
  by (rule stored_mono) (auto simp: restrict_map_def)

section \<open>Contents, freeing\<close>

lemma get_children_tblock:
  "get_children (tblock t) =
     (case tkind t of KLeaf c \<Rightarrow> None | _ \<Rightarrow> Some (map tid (kids t)))"
  by (cases "tkind t") (simp_all add: get_children_def try_cast_tblock)

lemma file_blocks_to_contents_concat: "file_blocks_to_contents bs acc = acc @ concat bs"
  by (induction bs arbitrary: acc) simp_all

lemma leaf_no_kids: "fshape (strip t) \<Longrightarrow> tkind t = KLeaf c \<Longrightarrow> kids t = []"
  by (cases t) auto

context block_store
begin

lemma contents_tree:
  assumes "wf s"
  shows "\<forall>t \<in> set ts. stored (lookup s) t \<and> fheight (strip t) \<le> n \<Longrightarrow>
     distinct (concat (map tids ts)) \<Longrightarrow> get_file_contents (Suc n) bm (map tid ts) acc s =
       Inr (acc @ concat (map (\<lambda>t. fleaves (strip t)) ts), s)"
proof (induction n arbitrary: ts acc)
  case 0
  have "ts = []"
  proof (rule ccontr)
    assume "ts \<noteq> []"
    then obtain c where "c \<in> set ts" by (cases ts) auto
    with 0 fheight_pos [of "strip c"] show False by auto
  qed
  with get_stored [OF assms, of "[]"] show ?case by simp
next
  case (Suc n)
  have loop: "get_file_contents_loop (Suc n) bm (map (\<lambda>c. Some (tblock c)) us) acc s =
      Inr (acc @ concat (map (\<lambda>t. fleaves (strip t)) us), s)" if "set us \<subseteq> set ts" for us acc
    using that
  proof (induction us arbitrary: acc)
    case Nil
    then show ?case by simp
  next
    case (Cons u us)
    have u: "stored (lookup s) u" "fheight (strip u) \<le> Suc n"
      using Cons.prems Suc.prems by auto
    have "\<forall>c \<in> set (kids u). stored (lookup s) c \<and> fheight (strip c) \<le> n"
      using u stored_kid height_kids [of u n] by blast
    moreover have "distinct (tids u)" using Suc.prems(2) Cons.prems by (auto simp: distinct_concat_iff)
    then have "distinct (concat (map tids (kids u)))" by (simp add: tids_eq [of u])
    ultimately show ?case using Suc.IH [of "kids u"] Cons
      by (cases "tkind u")
         (simp_all add: try_cast_tblock strip_eq [of u] comp_def del: get_file_contents.simps)
  qed
  from loop [of ts acc] Suc.prems show ?case by (simp add: get_stored [OF assms] distinct_kid_ids)
qed

lemma read_contents_tree:
  assumes "wf s" and "stored (lookup s) t" and "fheight (strip t) \<le> n"
    and "try_cast_dir_file (tblock t) = Some d" and "\<not> df_is_dir d" and "distinct (tids t)"
  shows "read_file_contents n bm d s = Inr (fcontents (strip t), s)"
proof -
  obtain m where n: "n = Suc m" using assms(3) fheight_pos [of "strip t"] by (cases n) auto
  have ch: "df_children d = map tid (kids t)"
    using assms(4) by (cases "tkind t") (auto simp: try_cast_tblock)
  have "\<forall>c \<in> set (kids t). stored (lookup s) c \<and> fheight (strip c) \<le> m"
    using assms(2,3) stored_kid height_kids [of t m] n by blast
  moreover have "distinct (concat (map tids (kids t)))" using assms(6) by (simp add: tids_eq [of t])
  ultimately show ?thesis
    using contents_tree [OF assms(1), of "kids t" m "[]"] assms(5)
    by (simp add: read_file_contents_def n ch file_blocks_to_contents_concat fcontents_def comp_def
        del: get_file_contents.simps)
qed

end

text \<open>
  Freeing does not depend on the order of the responses either; \<open>trim\<close> trees have nothing below
  their leaves.
\<close>

fun trim :: "btree \<Rightarrow> bool" where
  "trim (Node i k ts) \<longleftrightarrow> (\<forall>c. k = KLeaf c \<longrightarrow> ts = []) \<and> (\<forall>t \<in> set ts. trim t)"

lemma fshape_trim: "fshape (strip t) \<Longrightarrow> trim t"
proof (induction t)
  case (Node i k ts)
  then show ?case by (cases k) auto
qed

lemma trim_kids: "trim t \<longleftrightarrow> (\<forall>c. tkind t = KLeaf c \<longrightarrow> kids t = []) \<and> (\<forall>c \<in> set (kids t). trim c)"
  by (cases t) simp

lemma concat_ids:
  "set (concat (map tids ts)) = tid ` set ts \<union> set (concat (map (\<lambda>u. concat (map tids (kids u))) ts))"
proof (induction ts)
  case (Cons u us)
  then show ?case by (auto simp: tids_eq [of u])
qed simp

lemma grandchild_ids:
  assumes "distinct (concat (map tids ts))" and u: "u \<in> set ts" "c \<in> set (kids u)" and v: "v \<in> set ts"
  shows "tid v \<notin> set (tids c)"
proof
  assume a: "tid v \<in> set (tids c)"
  have "set (tids c) \<subseteq> set (tids u)" using kid_ids_subset [OF u(2)] .
  moreover have "set (tids c) \<subseteq> set (concat (map tids (kids u)))" using u(2) by auto
  moreover have "distinct (tids u)" using assms(1) u(1) by (auto simp: distinct_concat_iff)
  ultimately have "tid u \<notin> set (tids c)" "tid v \<in> set (tids u)"
    using a by (auto simp: tids_eq [of u])
  moreover have "v = u"
  proof (rule ccontr)
    assume "v \<noteq> u"
    then have "set (tids v) \<inter> set (tids u) = {}" if "distinct (concat (map tids ts))"
      "v \<in> set ts" "u \<in> set ts" for ts
      using that by (induction ts) auto
    with assms(1) v u(1) have "set (tids v) \<inter> set (tids u) = {}" by blast
    with \<open>tid v \<in> set (tids u)\<close> tid_in_tids [of v] show False by blast
  qed
  ultimately show False using a by simp
qed

locale loose_manager = loose_store bm holds
  for bm :: "'s block_manager" and holds :: "(block_id \<rightharpoonup> block_data) \<Rightarrow> 's \<Rightarrow> bool" +
  assumes free_loose: "holds L s \<Longrightarrow> i \<in> dom L \<Longrightarrow> holds (L(i := None)) (bm_free bm i s)"
begin

lemma free_all_loose:
  "holds L s \<Longrightarrow> distinct is \<Longrightarrow> set is \<subseteq> dom L \<Longrightarrow> holds (L |` (- set is)) (free_all bm is s)"
proof (induction "is" arbitrary: L s)
  case (Cons i "is")
  have eq: "(L(i := None)) |` (- set is) = L |` (- set (i # is))"
    by (rule ext) (simp add: restrict_map_def)
  have "holds (L(i := None)) (bm_free bm i s)" using Cons.prems by (intro free_loose) auto
  moreover have "set is \<subseteq> dom (L(i := None))" using Cons.prems(2,3) by auto
  moreover have "distinct is" using Cons.prems(2) by simp
  ultimately have "holds ((L(i := None)) |` (- set is)) (free_all bm is (bm_free bm i s))"
    using Cons.IH by blast
  then show ?case unfolding eq by simp
qed (simp add: restrict_map_def)

lemma recursive_free_loose:
  "holds L s \<Longrightarrow> \<forall>c \<in> set (kids t). stored L c \<Longrightarrow> distinct (concat (map tids (kids t))) \<Longrightarrow>
     trim t \<Longrightarrow> fheight (strip t) \<le> n \<Longrightarrow>
     \<exists>s'. recursive_free_children_blocks n bm (tblock t) s = Inr s' \<and>
       holds (L |` (- set (concat (map tids (kids t))))) s'"
proof (induction n arbitrary: t L s)
  case 0
  then show ?case using fheight_pos [of "strip t"] by simp
next
  case (Suc n)
  have loop: "\<exists>s'. recursive_free_loop n bm (map (\<lambda>c. Some (tblock c)) us) s = Inr s' \<and>
      holds (L |` (- set (concat (map (\<lambda>u. concat (map tids (kids u))) us)))) s'"
    if "holds L s" "\<forall>u \<in> set us. \<forall>c \<in> set (kids u). stored L c" "distinct (concat (map tids us))"
      "\<forall>u \<in> set us. trim u \<and> fheight (strip u) \<le> n" for us L s
    using that
  proof (induction us arbitrary: L s)
    case (Cons u us)
    let ?below = "set (concat (map tids (kids u)))"
    have du: "distinct (concat (map tids (kids u)))"
      using Cons.prems(3) by (simp add: tids_eq [of u])
    obtain s1 where s1: "recursive_free_children_blocks n bm (tblock u) s = Inr s1"
      "holds (L |` (- ?below)) s1"
      using Suc.IH [of L s u] Cons.prems du by auto
    have "stored (L |` (- ?below)) c" if c: "v \<in> set us" "c \<in> set (kids v)" for v c
    proof -
      have "set (tids c) \<subseteq> set (concat (map tids us))"
        using c kid_ids_subset [of c v] by auto
      then have "set (tids c) \<inter> ?below = {}"
        using Cons.prems(3) by (auto simp: tids_eq [of u])
      moreover have "stored L c" using Cons.prems(2) c by simp
      ultimately show ?thesis by (rule stored_restrict [rotated])
    qed
    with Cons.IH [OF s1(2)] Cons.prems obtain s2 where s2:
      "recursive_free_loop n bm (map (\<lambda>c. Some (tblock c)) us) s1 = Inr s2"
      "holds (L |` (- ?below) |` (- set (concat (map (\<lambda>u. concat (map tids (kids u))) us)))) s2"
      by auto
    have "L |` (- ?below) |` (- set (concat (map (\<lambda>u. concat (map tids (kids u))) us))) =
        L |` (- set (concat (map (\<lambda>u. concat (map tids (kids u))) (u # us))))"
      by (simp add: Int_commute)
    with s1 s2 show ?case by simp
  qed (simp add: restrict_map_def)
  show ?case
  proof (cases "\<exists>c. tkind t = KLeaf c")
    case True
    with Suc.prems(4) have "kids t = []" using trim_kids by blast
    with True Suc.prems(1) show ?thesis by (auto simp: get_children_tblock restrict_map_def)
  next
    case False
    then have ch: "get_children (tblock t) = Some (map tid (kids t))"
      by (cases "tkind t") (simp_all add: get_children_tblock)
    note ids = distinct_kid_ids [OF Suc.prems(3)]
    from get_stored_loose [OF Suc.prems(1,2) ids] obtain us s0 where us: "mset us = mset (kids t)"
      "bm_get bm (map tid (kids t)) s = Inr (map (\<lambda>c. Some (tblock c)) us, s0)" "holds L s0" by blast
    note set_us = mset_eq_setD [OF us(1)]
    let ?s1 = "free_all bm (map tid (kids t)) s0" and ?L1 = "L |` (- (tid ` set (kids t)))"
    have "set (map tid (kids t)) \<subseteq> dom L"
      using Suc.prems(2) stored_iff [THEN iffD1] by fastforce
    from free_all_loose [OF us(3) ids this] have l1: "holds ?L1 ?s1" by simp
    have grand: "stored ?L1 c" if u: "u \<in> set (kids t)" "c \<in> set (kids u)" for u c
    proof -
      have "set (tids c) \<inter> (tid ` set (kids t)) = {}" using grandchild_ids [OF Suc.prems(3) u] by auto
      moreover have "stored L c" using Suc.prems(2) u stored_kid by blast
      ultimately show ?thesis by (rule stored_restrict [rotated])
    qed
    have "distinct (concat (map tids us))"
      using mset_concat_order [OF us(1)] Suc.prems(3) by (metis mset_eq_imp_distinct_iff)
    moreover have "\<forall>u \<in> set us. trim u \<and> fheight (strip u) \<le> n"
      using Suc.prems(4,5) trim_kids height_kids set_us by blast
    ultimately obtain s' where s': "recursive_free_loop n bm (map (\<lambda>c. Some (tblock c)) us) ?s1 = Inr s'"
      "holds (?L1 |` (- set (concat (map (\<lambda>u. concat (map tids (kids u))) us)))) s'"
      using loop [OF l1, of us] grand set_us by blast
    have "?L1 |` (- set (concat (map (\<lambda>u. concat (map tids (kids u))) us))) =
        L |` (- set (concat (map tids (kids t))))"
      unfolding restrict_restrict Compl_Un [symmetric] set_us [symmetric] concat_ids [of us, symmetric]
      by (rule arg_cong [OF mset_eq_setD [OF mset_concat_order [OF us(1)]]])
    moreover have "recursive_free_children_blocks (Suc n) bm (tblock t) s = Inr s'"
      using s'(1) us(2) by (simp add: ch)
    ultimately show ?thesis using s'(2) by auto
  qed
qed

end

sublocale block_store \<subseteq> at_room: loose_manager bm "\<lambda>L x. wf x \<and> lookup x = L \<and> room x = r" for r
  by unfold_locales (use get_ok free_wf free_room free_lookup in auto)

context block_store
begin

lemma free_all_lookup:
  "wf s \<Longrightarrow> distinct is \<Longrightarrow> set is \<subseteq> dom (lookup s) \<Longrightarrow>
     wf (free_all bm is s) \<and> room (free_all bm is s) = room s \<and>
     lookup (free_all bm is s) = lookup s |` (- set is)"
  using at_room.free_all_loose [where L = "lookup s" and r = "room s" and s = s] by simp

lemma recursive_free_tree:
  assumes "wf s" and "\<forall>c \<in> set (kids t). stored (lookup s) c" and "distinct (concat (map tids (kids t)))"
    and "fshape (strip t)" and "fheight (strip t) \<le> n"
  shows "\<exists>s'. recursive_free_children_blocks n bm (tblock t) s = Inr s' \<and> wf s' \<and> room s' = room s \<and>
       lookup s' = lookup s |` (- set (concat (map tids (kids t))))"
  using at_room.recursive_free_loose [where r = "room s" and s = s, OF _ assms(2,3) fshape_trim [OF assms(4)] assms(5)]
    assms(1) by (simp add: conj_commute conj_left_commute)

end

section \<open>Replacing the chain above a node\<close>

lemma chain_append:
  "replace_chain_loop bm (xs @ ys) rm add lb s =
     bind_result (replace_chain_loop bm xs rm add lb s) (\<lambda>(lb', s').
       replace_chain_loop bm ys (if xs = [] then rm else [get_id (last xs)]) add lb' s')"
proof (induction xs arbitrary: rm lb s)
  case Nil
  then show ?case by simp
next
  case (Cons x xs)
  then show ?case by (auto simp: bind_result_assoc split_def intro!: arg_cong [where f = "bind_result _"])
qed

lemma remove_ids_kid:
  "find p ts = Some c \<Longrightarrow> distinct (map tid ts) \<Longrightarrow>
     remove_ids (map tid ts) [tid c] = Inr (map tid (remove_first p ts))"
  by (auto simp: remove1_map_find dest: find_Some_in)

lemma set_remove_first_distinct:
  "find p xs = Some x \<Longrightarrow> distinct xs \<Longrightarrow> set (remove_first p xs) = set xs - {x}"
  by (induction xs) (auto split: if_splits dest: find_Some_in)

lemma fupdate_strip:
  "bfind p t = Some c \<Longrightarrow> fupdate (p # ps) g (strip t) =
     FNode (tkind t) (map strip (remove_first (\<lambda>u. kind_named p (tkind u)) (kids t)) @
       [fupdate ps g (strip c)])"
  by (simp add: strip_eq [of t] ffind_strip bfind_def
      map_remove_first [where f = strip and p = "\<lambda>t. kind_named p (fkind t)", simplified])

lemma bwalk_last_ids: "bwalk ps t = Some cs \<Longrightarrow> set (tids (last (t # cs))) \<subseteq> set (tids t)"
proof (induction ps arbitrary: t cs)
  case Nil
  then show ?case by simp
next
  case (Cons p ps)
  then obtain c cs' where c: "bfind p t = Some c" "bwalk ps c = Some cs'" "cs = c # cs'"
    by (auto split: option.splits)
  from Cons.IH [OF c(2)] kid_ids_subset [of c t] bfind_kid [OF c(1)] c(3) show ?case by auto
qed

context block_store
begin

lemma replace_block_tree:
  assumes "wf s" and "0 < room s" and "is_dir_file (tkind t)"
  shows "\<exists>i s'. replace_block_with_diff_children bm (tblock t) cs s =
      Inr (mk_block i (node_data (tkind t) cs), s') \<and> lookup s i = None \<and>
      lookup s' = (lookup s)(i \<mapsto> node_data (tkind t) cs) \<and> wf s' \<and> room s' = room s - 1"
proof -
  obtain n st where k: "tkind t = KDir n st" using assms(3) by (cases "tkind t") auto
  obtain i s' where "bm_create bm (node_data (tkind t) cs) s = Inr (mk_block i (node_data (tkind t) cs), s')"
    "lookup s i = None" "lookup s' = (lookup s)(i \<mapsto> node_data (tkind t) cs)" "wf s'"
    "room s' = room s - 1"
    by (rule create_cases [OF assms(1,2)])
  with k show ?thesis
    by (simp add: replace_block_with_diff_children_def try_cast_tblock dir_file_with_children_def)
qed

lemma chain_path:
  assumes base: "replace_chain_loop bm [b0] rm add None s = Inr (Some (tblock T0), s0)"
    and "wf s0" and "stored (lookup s0) T0"
  shows "bwalk ps t = Some cs \<Longrightarrow> get_id b0 = tid (last (t # cs)) \<Longrightarrow> stored L t \<Longrightarrow>
     distinct (tids t) \<Longrightarrow> is_dir_file (tkind t) \<Longrightarrow>
     \<forall>i \<in> set (tids t) - set (tids (last (t # cs))). lookup s0 i = L i \<Longrightarrow>
     length cs \<le> room s0 \<Longrightarrow>
     \<exists>T' s' new. replace_chain_loop bm (rev (map tblock (butlast (t # cs)) @ [b0])) rm add None s =
         Inr (Some (tblock T'), s') \<and>
       wf s' \<and> room s' = room s0 - length cs \<and> stored (lookup s') T' \<and>
       grown (lookup s0) new (lookup s') \<and>
       strip T' = fupdate ps (\<lambda>_. strip T0) (strip t) \<and>
       mset (tids T') + mset (map tid (butlast (t # cs))) + mset (tids (last (t # cs))) =
         mset (tids t) + mset (tids T0) + mset new"
proof (induction ps arbitrary: t cs)
  case Nil
  with assms show ?case
    by (intro exI [of _ T0] exI [of _ s0] exI [of _ "[]"]) (simp del: replace_chain_loop.simps)
next
  case (Cons p ps)
  let ?P = "\<lambda>u. kind_named p (tkind u)"
  obtain c cs1 where c: "bfind p t = Some c" "bwalk ps c = Some cs1" "cs = c # cs1"
    using Cons.prems(1) by (auto split: option.splits)
  from bfind_kid [OF c(1)] have ck: "c \<in> set (kids t)" "is_dir_file (tkind c)"
    using kind_named_is_dir_file by auto
  have dist: "distinct (concat (map tids (kids t)))" using Cons.prems(4) by (simp add: tids_eq [of t])
  have last: "set (tids (last (c # cs1))) \<subseteq> set (tids c)" by (rule bwalk_last_ids [OF c(2)])
  have "\<forall>i \<in> set (tids c) - set (tids (last (c # cs1))). lookup s0 i = L i"
    using Cons.prems(6) c(3) kid_ids_subset [OF ck(1)] by auto
  moreover have "get_id b0 = tid (last (c # cs1))" "length cs1 \<le> room s0"
    using Cons.prems(2,7) c(3) by simp_all
  moreover note stored_kid [OF Cons.prems(3) ck(1)] distinct_tids_kid [OF Cons.prems(4) ck(1)] ck(2)
  ultimately obtain T1 s1 new1 where
    1: "replace_chain_loop bm (rev (map tblock (butlast (c # cs1)) @ [b0])) rm add None s =
         Inr (Some (tblock T1), s1)"
      "wf s1" "room s1 = room s0 - length cs1" "stored (lookup s1) T1"
      "grown (lookup s0) new1 (lookup s1)" "strip T1 = fupdate ps (\<lambda>_. strip T0) (strip c)"
      "mset (tids T1) + mset (map tid (butlast (c # cs1))) + mset (tids (last (c # cs1))) =
         mset (tids c) + mset (tids T0) + mset new1"
    using Cons.IH [OF c(2)] by blast
  let ?kept = "remove_first ?P (kids t)"
  have find: "find ?P (kids t) = Some c" using c(1) by (simp add: bfind_def)
  have kept: "remove_ids (map tid (kids t)) [tid c] = Inr (map tid ?kept)"
    by (rule remove_ids_kid [OF find distinct_kid_ids [OF dist]])
  have "0 < room s1" using Cons.prems(7) c(3) 1(3) by simp
  from replace_block_tree [OF 1(2) this Cons.prems(5), of "map tid (?kept @ [T1])"] obtain i s' where
    2: "replace_block_with_diff_children bm (tblock t) (map tid (?kept @ [T1])) s1 =
      Inr (mk_block i (node_data (tkind t) (map tid (?kept @ [T1]))), s')" "lookup s1 i = None"
      "lookup s' = (lookup s1)(i \<mapsto> node_data (tkind t) (map tid (?kept @ [T1])))" "wf s'"
      "room s' = room s1 - 1"
    by blast
  let ?T = "Node i (tkind t) (?kept @ [T1])"
  have g: "grown (lookup s0) (new1 @ [i]) (lookup s')"
    unfolding 2(3) by (rule grown_trans [OF 1(5) grown_one [of "lookup s1" i]]) (rule 2(2))
  have g1: "grown (lookup s1) [i] (lookup s')" unfolding 2(3) by (rule grown_one [of "lookup s1" i]) (rule 2(2))
  have sib: "stored (lookup s') u" if u: "u \<in> set ?kept" for u
  proof -
    have "distinct (kids t)" using distinct_kid_ids [OF dist] by (simp add: distinct_map)
    then have uk: "u \<in> set (kids t)" "u \<noteq> c"
      using u set_remove_first_distinct [OF find] by auto
    have "set (tids u) \<inter> set (tids c) = {}"
      using distinct_kids_disjoint [OF Cons.prems(4) uk(1) ck(1)] uk(2) by blast
    with last kid_ids_subset [OF uk(1)] Cons.prems(6) c(3)
    have "\<forall>i \<in> set (tids u). lookup s0 i = L i" by auto
    with stored_kid [OF Cons.prems(3) uk(1)] have "stored (lookup s0) u" by (rule stored_mono)
    with g show ?thesis by (rule grown_stored)
  qed
  have st: "stored (lookup s') ?T"
    using sib grown_stored [OF g1 1(4)] by (auto simp: 2(3))
  have ch: "get_children (tblock t) = Some (map tid (kids t))"
    using Cons.prems(5) by (cases "tkind t") (simp_all add: get_children_tblock)
  define xs where "xs = rev (map tblock (butlast (c # cs1)) @ [b0])"
  have xs: "xs \<noteq> []" "get_id (last xs) = tid c"
    "rev (map tblock (butlast (t # cs)) @ [b0]) = xs @ [tblock t]"
    using Cons.prems(2) c(3) by (cases cs1; simp add: xs_def)+
  have tb: "tblock ?T = mk_block i (node_data (tkind t) (map tid (?kept @ [T1])))"
    by (simp add: tblock_def tdata_def)
  have run: "replace_chain_loop bm (rev (map tblock (butlast (t # cs)) @ [b0])) rm add None s =
      Inr (Some (tblock ?T), s')"
    unfolding xs(3) chain_append 1(1) [folded xs_def] using xs(1,2) 2(1) kept
    by (simp add: ch tb del: remove_ids.simps)
  have "mset (tids t) = add_mset (tid t) (mset (tids c) + mset (concat (map tids ?kept)))"
    using concat_remove_first [OF find, of tids] by (simp add: tids_eq [of t])
  then have ids: "mset (tids ?T) + mset (map tid (butlast (t # cs))) + mset (tids (last (t # cs))) =
      mset (tids t) + mset (tids T0) + mset (new1 @ [i])"
    using 1(7) c(3) by (simp add: ac_simps)
  have "strip ?T = fupdate (p # ps) (\<lambda>_. strip T0) (strip t)"
    by (simp add: fupdate_strip [OF c(1)] 1(6))
  moreover have "room s' = room s0 - length cs" using 2(5) 1(3) c(3) by simp
  ultimately show ?case using run 2(4) st g ids by blast
qed

end

end
