(* ===== verification/FsBuild.thy ===== *)
theory FsBuild
  imports FsChain
begin

text \<open>
  Building the tree of a file. \<open>file_forest\<close> is the forest that
  \<open>replace_blocks_for_contents\<close> builds: one leaf per \<open>bytes_per_block\<close> bytes, then \<open>depth\<close>
  layers of links. Links never change what is read: the contents are the leaves' contents in order,
  for every branching factor and every number of layers. The leaves themselves are
  \<open>leaf_strings\<close>: the code passes an end index to \<open>substr\<close> where it takes a length, so leaf
  \<open>i\<close> is the whole rest of the contents from byte \<open>i * bytes_per_block\<close> on.
\<close>

section \<open>Leaves\<close>

definition leaf_strings :: "string \<Rightarrow> nat \<Rightarrow> string list" where
  "leaf_strings contents n =
     map (\<lambda>i. drop (i * n) contents) [0..<num_leaves_of (length contents) n]"

lemma num_leaves_bound:
  assumes "0 < n" and "i < num_leaves_of len n"
  shows "i * n < len"
proof -
  have le: "len div n * n \<le> len" by simp
  from assms(2) have "i < len div n \<or> i = len div n \<and> len div n * n \<noteq> len"
    by (auto simp: num_leaves_of_def Let_def split: if_splits)
  then show ?thesis
  proof (elim disjE conjE)
    assume "i < len div n"
    then have "Suc i * n \<le> len div n * n" by (intro mult_le_mono1) simp
    then have "n + i * n \<le> len" using le unfolding mult_Suc by (rule le_trans)
    with assms(1) show ?thesis by linarith
  next
    assume i: "i = len div n" and "len div n * n \<noteq> len"
    then have "len div n * n < len" using le le_neq_implies_less by blast
    then show ?thesis unfolding i .
  qed
qed

lemma leaf_data_leaf_strings:
  assumes "0 < n"
  shows "leaf_data_loop contents n [0..<num_leaves_of (length contents) n] [] =
     Inr (leaf_strings contents n)"
proof -
  have "leaf_data_loop contents n is acc = Inr (acc @ map (\<lambda>i. drop (i * n) contents) is)"
    if "\<forall>i \<in> set is. i < num_leaves_of (length contents) n" for "is" acc
    using that
  proof (induction "is" arbitrary: acc)
    case Nil
    then show ?case by simp
  next
    case (Cons i "is")
    have "i * n < length contents" using Cons.prems num_leaves_bound [OF assms] by simp
    moreover have "length contents - i * n \<le> max ((i + 1) * n) (length contents)" by simp
    ultimately have "substr contents (i * n) (max ((i + 1) * n) (length contents)) =
        Inr (drop (i * n) contents)"
      by (simp add: substr_def)
    with Cons show ?case by simp
  qed
  then show ?thesis by (simp add: leaf_strings_def)
qed

text \<open>Up to one block, there is one leaf and it is the contents.\<close>

lemma leaf_strings_short:
  "0 < length contents \<Longrightarrow> length contents \<le> n \<Longrightarrow> leaf_strings contents n = [contents]"
  by (cases "length contents = n") (simp_all add: leaf_strings_def num_leaves_of_def)

section \<open>Layers of links\<close>

definition chunks :: "nat \<Rightarrow> 'a list \<Rightarrow> 'a list list" where
  "chunks b xs = map (\<lambda>i. take b (drop (i * b) xs)) [0..<(length xs + b - 1) div b]"

lemma concat_chunks_upto: "concat (map (\<lambda>i. take b (drop (i * b) xs)) [0..<m]) = take (m * b) xs"
proof (induction m)
  case 0
  then show ?case by simp
next
  case (Suc m)
  then show ?case by (simp add: take_add [symmetric] add.commute)
qed

lemma concat_chunks:
  assumes "0 < b"
  shows "concat (chunks b xs) = xs"
proof -
  let ?q = "(length xs + b - 1) div b"
  have "length xs \<le> ?q * b"
  proof -
    have "?q * b = (length xs + b - 1) - (length xs + b - 1) mod b"
      by (simp add: minus_mod_eq_div_mult [symmetric])
    moreover have "(length xs + b - 1) mod b \<le> b - 1"
      using mod_less_divisor [OF assms, of "length xs + b - 1"] by linarith
    ultimately show ?thesis using assms by linarith
  qed
  then show ?thesis by (simp add: chunks_def concat_chunks_upto)
qed

lemma map_chunks: "map (map f) (chunks b xs) = chunks b (map f xs)"
  by (simp add: chunks_def take_map drop_map)

lemma length_chunks [simp]: "length (chunks b xs) = (length xs + b - 1) div b"
  by (simp add: chunks_def)

fun flayers :: "nat \<Rightarrow> nat \<Rightarrow> ftree list \<Rightarrow> ftree list" where
  "flayers b 0 ts = ts"
| "flayers b (Suc depth) ts = flayers b depth (map (FNode KLink) (chunks b ts))"

text \<open>How many links the layers have, from the number of blocks below them.\<close>

fun layer_count :: "nat \<Rightarrow> nat \<Rightarrow> nat \<Rightarrow> nat" where
  "layer_count b 0 n = 0"
| "layer_count b (Suc depth) n = (n + b - 1) div b + layer_count b depth ((n + b - 1) div b)"

definition file_forest :: "(nat \<Rightarrow> nat \<Rightarrow> nat) \<Rightarrow> nat \<Rightarrow> nat \<Rightarrow> string \<Rightarrow> ftree list" where
  "file_forest depth_of n b contents =
     (if contents = [] then []
      else flayers b (depth_of b (num_leaves_of (length contents) n))
             (map (\<lambda>c. FNode (KLeaf c) []) (leaf_strings contents n)))"

definition file_room :: "(nat \<Rightarrow> nat \<Rightarrow> nat) \<Rightarrow> nat \<Rightarrow> nat \<Rightarrow> string \<Rightarrow> nat" where
  "file_room depth_of n b contents =
     (if contents = [] then 0
      else let m = num_leaves_of (length contents) n in m + layer_count b (depth_of b m) m)"

lemma concat_map_concats: "concat (map (\<lambda>c. concat (map f c)) cs) = concat (map f (concat cs))"
  by (induction cs) simp_all

lemma flayers_contents:
  "0 < b \<Longrightarrow> concat (map fleaves (flayers b d ts)) = concat (map fleaves ts)"
proof (induction d arbitrary: ts)
  case 0
  then show ?case by simp
next
  case (Suc d)
  have "concat (map fleaves (map (FNode KLink) (chunks b ts))) =
      concat (map (\<lambda>c. concat (map fleaves c)) (chunks b ts))"
    by (simp add: comp_def)
  also have "\<dots> = concat (map fleaves ts)"
    by (simp add: concat_map_concats concat_chunks [OF Suc.prems])
  finally show ?case using Suc by simp
qed

lemma flayers_height:
  "0 < b \<Longrightarrow> \<forall>t \<in> set ts. fheight t \<le> h \<Longrightarrow> t \<in> set (flayers b d ts) \<Longrightarrow> fheight t \<le> h + d"
proof (induction d arbitrary: ts h t)
  case (Suc d)
  have "fheight u \<le> Suc h" if "u \<in> set (map (FNode KLink) (chunks b ts))" for u
  proof -
    from that obtain ch where ch: "ch \<in> set (chunks b ts)" "u = FNode KLink ch" by auto
    have "set ch \<subseteq> set (concat (chunks b ts))" using ch(1) by auto
    then have "set ch \<subseteq> set ts" using concat_chunks [OF Suc.prems(1)] by metis
    with Suc.prems(2) show ?thesis unfolding ch(2) fheight_le_iff by blast
  qed
  with Suc.IH [of "map (FNode KLink) (chunks b ts)" "Suc h" t] Suc.prems show ?case by simp
qed simp

lemma file_forest_contents:
  "0 < b \<Longrightarrow> concat (concat (map fleaves (file_forest depth_of n b contents))) =
     (if contents = [] then [] else concat (leaf_strings contents n))"
  by (simp add: file_forest_def flayers_contents comp_def)

lemma file_forest_short:
  "0 < b \<Longrightarrow> length contents \<le> n \<Longrightarrow>
     concat (concat (map fleaves (file_forest depth_of n b contents))) = contents"
  by (simp add: file_forest_contents leaf_strings_short)

definition is_block_tree :: "ftree \<Rightarrow> bool" where
  "is_block_tree t \<longleftrightarrow> \<not> is_dir_file (fkind t) \<and> fshape t"

lemma flayers_shape:
  "\<forall>t \<in> set ts. is_block_tree t \<Longrightarrow> \<forall>t \<in> set (flayers b d ts). is_block_tree t"
proof (induction d arbitrary: ts)
  case 0
  then show ?case by simp
next
  case (Suc d)
  have "set c \<subseteq> set ts" if "c \<in> set (chunks b ts)" for c
    using that by (auto simp: chunks_def dest: in_set_takeD in_set_dropD)
  with Suc.prems have "\<forall>t \<in> set (map (FNode KLink) (chunks b ts)). is_block_tree t"
    by (auto simp: is_block_tree_def)
  from Suc.IH [OF this] show ?case by simp
qed

lemma file_forest_shape: "\<forall>t \<in> set (file_forest depth_of n b contents). is_block_tree t"
  unfolding file_forest_def by (auto simp: is_block_tree_def dest!: flayers_shape [THEN bspec, rotated])

lemma no_dir_names: "\<forall>t \<in> set ts. is_block_tree t \<Longrightarrow> dir_names ts = []"
  by (induction ts rule: dir_names.induct) (auto simp: is_block_tree_def)

section \<open>The code builds this forest\<close>

lemma child_links_loop_take:
  "child_links_loop blocks base [j..<m] acc =
     acc @ map get_id (take (m - j) (drop (base + j) blocks))"
proof (induction "m - j" arbitrary: j acc)
  case 0
  then show ?case by simp
next
  case (Suc k)
  then have j: "j < m" by simp
  show ?case
  proof (cases "length blocks \<le> base + j")
    case True
    with j show ?thesis by (simp add: upt_conv_Cons)
  next
    case False
    then have "drop (base + j) blocks = blocks ! (base + j) # drop (base + Suc j) blocks"
      by (simp add: Cons_nth_drop_Suc)
    moreover have "m - j = Suc (m - Suc j)" using j by simp
    ultimately show ?thesis using Suc(1) [of "Suc j"] Suc(2) j False by (simp add: upt_conv_Cons)
  qed
qed

context block_store
begin

lemma create_node:
  assumes "wf s" and "0 < room s" and "\<forall>c \<in> set ts. stored (lookup s) c"
  shows "\<exists>t s'. bm_create bm (node_data k (map tid ts)) s = Inr (tblock t, s') \<and> wf s' \<and>
     room s' = room s - 1 \<and> tkind t = k \<and> kids t = ts \<and> stored (lookup s') t \<and>
     grown (lookup s) [tid t] (lookup s')"
proof -
  let ?d = "node_data k (map tid ts)"
  obtain i s' where c: "bm_create bm ?d s = Inr (mk_block i ?d, s')" "lookup s i = None"
    "lookup s' = (lookup s)(i \<mapsto> ?d)" "wf s'" "room s' = room s - 1"
    by (rule create_cases [OF assms(1,2)])
  let ?t = "Node i k ts"
  have g: "grown (lookup s) [i] (lookup s')" unfolding c(3) by (rule grown_one [of "lookup s" i]) (rule c(2))
  have "stored (lookup s') ?t" using assms(3) grown_stored [OF g] by (simp add: c(3))
  with c g show ?thesis by (intro exI [of _ ?t] exI [of _ s']) (simp add: tblock_def tdata_def)
qed

lemma create_leaves_tree:
  "wf s \<Longrightarrow> length leaves \<le> room s \<Longrightarrow>
     \<exists>ts s'. create_leaves bm leaves acc s = Inr (acc @ map tblock ts, s') \<and> wf s' \<and>
       room s' = room s - length leaves \<and> (\<forall>t \<in> set ts. stored (lookup s') t) \<and>
       map strip ts = map (\<lambda>c. FNode (KLeaf c) []) leaves \<and>
       grown (lookup s) (concat (map tids ts)) (lookup s')"
proof (induction leaves arbitrary: acc s)
  case Nil
  then show ?case by (intro exI [of _ "[]"] exI [of _ s]) simp
next
  case (Cons c leaves)
  from create_node [OF Cons.prems(1), of "[]" "KLeaf c"] Cons.prems(2) obtain t s1 where
    t: "bm_create bm (FileContentsBlockData c) s = Inr (tblock t, s1)" "wf s1"
      "room s1 = room s - 1" "tkind t = KLeaf c" "kids t = []" "stored (lookup s1) t"
      "grown (lookup s) [tid t] (lookup s1)"
    by auto
  from Cons.IH [OF t(2), of "acc @ [tblock t]"] t(3) Cons.prems(2) obtain ts s' where
    ts: "create_leaves bm leaves (acc @ [tblock t]) s1 = Inr ((acc @ [tblock t]) @ map tblock ts, s')"
      "wf s'" "room s' = room s1 - length leaves" "\<forall>t \<in> set ts. stored (lookup s') t"
      "map strip ts = map (\<lambda>c. FNode (KLeaf c) []) leaves"
      "grown (lookup s1) (concat (map tids ts)) (lookup s')"
    by fastforce
  have "tids t = [tid t]" using t(5) by (simp add: tids_eq [of t])
  with grown_trans [OF t(7) ts(6)] have "grown (lookup s) (concat (map tids (t # ts))) (lookup s')"
    by simp
  moreover have "map strip (t # ts) = map (\<lambda>c. FNode (KLeaf c) []) (c # leaves)"
    using ts(5) t(4,5) by (simp add: strip_eq [of t])
  ultimately show ?case
    using t ts grown_stored [OF ts(6) t(6)]
    by (intro exI [of _ "t # ts"] exI [of _ s']) simp
qed

lemma add_link_layer_loop_tree:
  "wf s \<Longrightarrow> length is \<le> room s \<Longrightarrow> \<forall>t \<in> set ts. stored (lookup s) t \<Longrightarrow>
     \<exists>us s'. add_link_layer_loop bm (map tblock ts) b is acc s = Inr (acc @ map tblock us, s') \<and>
       wf s' \<and> room s' = room s - length is \<and> (\<forall>u \<in> set us. stored (lookup s') u \<and> tkind u = KLink) \<and>
       map kids us = map (\<lambda>i. take b (drop (i * b) ts)) is \<and>
       grown (lookup s) (map tid us) (lookup s')"
proof (induction "is" arbitrary: acc s)
  case Nil
  then show ?case by (intro exI [of _ "[]"] exI [of _ s]) simp
next
  case (Cons i "is")
  let ?cs = "take b (drop (i * b) ts)"
  have links: "child_links_loop (map tblock ts) (i * b) [0..<b] [] = map tid ?cs"
    by (simp add: child_links_loop_take drop_map take_map)
  have "\<forall>c \<in> set ?cs. stored (lookup s) c"
    using Cons.prems(3) by (auto dest: in_set_takeD in_set_dropD)
  from create_node [OF Cons.prems(1) _ this, of KLink] Cons.prems(2) obtain u s1 where
    u: "bm_create bm (LinkBlockData (map tid ?cs)) s = Inr (tblock u, s1)" "wf s1"
      "room s1 = room s - 1" "tkind u = KLink" "kids u = ?cs" "stored (lookup s1) u"
      "grown (lookup s) [tid u] (lookup s1)"
    by auto
  have "\<forall>t \<in> set ts. stored (lookup s1) t" using Cons.prems(3) grown_stored [OF u(7)] by blast
  with Cons.IH [OF u(2), of "acc @ [tblock u]"] u(3) Cons.prems(2) obtain us s' where
    us: "add_link_layer_loop bm (map tblock ts) b is (acc @ [tblock u]) s1 =
        Inr ((acc @ [tblock u]) @ map tblock us, s')" "wf s'"
      "room s' = room s1 - length is" "\<forall>u \<in> set us. stored (lookup s') u \<and> tkind u = KLink"
      "map kids us = map (\<lambda>i. take b (drop (i * b) ts)) is"
      "grown (lookup s1) (map tid us) (lookup s')"
    by fastforce
  show ?case
    using u us links grown_stored [OF us(6) u(6)] grown_trans [OF u(7) us(6)]
    by (intro exI [of _ "u # us"] exI [of _ s']) simp
qed

lemma link_layers_tree:
  assumes "0 < b"
  shows "wf s \<Longrightarrow> layer_count b d (length ts) \<le> room s \<Longrightarrow> \<forall>t \<in> set ts. stored (lookup s) t \<Longrightarrow>
     \<exists>us s' new. link_layers bm b d (map tblock ts) s = Inr (map tblock us, s') \<and> wf s' \<and>
       room s' = room s - layer_count b d (length ts) \<and> (\<forall>u \<in> set us. stored (lookup s') u) \<and>
       map strip us = flayers b d (map strip ts) \<and> grown (lookup s) new (lookup s') \<and>
       mset (concat (map tids us)) = mset (concat (map tids ts)) + mset new"
proof (induction d arbitrary: ts s)
  case 0
  then show ?case by (intro exI [of _ ts] exI [of _ s] exI [of _ "[]"]) simp
next
  case (Suc d)
  let ?m = "(length ts + b - 1) div b"
  obtain us s1 where us: "add_link_layer bm (map tblock ts) [] b s = Inr (map tblock us, s1)"
    "wf s1" "room s1 = room s - ?m" "\<forall>u \<in> set us. stored (lookup s1) u \<and> tkind u = KLink"
    "map kids us = chunks b ts" "grown (lookup s) (map tid us) (lookup s1)"
    using add_link_layer_loop_tree [OF Suc.prems(1) _ Suc.prems(3), of "[0..<?m]" b "[]"] Suc.prems(2)
    by (auto simp: add_link_layer_def Let_def chunks_def)
  have len: "length us = ?m" using arg_cong [OF us(5), of length] by simp
  have ids: "mset (concat (map tids us)) = mset (map tid us) + mset (concat (map tids (concat (map kids us))))"
  proof (induction us)
    case (Cons u us)
    then show ?case by (simp add: tids_eq [of u])
  qed simp
  have "map strip us = map (\<lambda>u. FNode KLink (map strip (kids u))) us"
    using us(4) by (simp add: strip_eq [of _ ])
  also have "\<dots> = map (FNode KLink) (map (map strip) (map kids us))" by simp
  finally have strips: "map strip us = map (FNode KLink) (chunks b (map strip ts))"
    unfolding us(5) map_chunks .
  have "layer_count b d (length us) \<le> room s1" using Suc.prems(2) us(3) len by simp
  with Suc.IH [OF us(2), of us] us(4) obtain vs s' new where vs:
    "link_layers bm b d (map tblock us) s1 = Inr (map tblock vs, s')" "wf s'"
    "room s' = room s1 - layer_count b d (length us)" "\<forall>u \<in> set vs. stored (lookup s') u"
    "map strip vs = flayers b d (map strip us)" "grown (lookup s1) new (lookup s')"
    "mset (concat (map tids vs)) = mset (concat (map tids us)) + mset new"
    by blast
  have "mset (concat (map tids vs)) = mset (concat (map tids ts)) + mset (map tid us @ new)"
    unfolding vs(7) ids us(5) concat_chunks [OF assms] by simp
  moreover note grown_trans [OF us(6) vs(6)]
  ultimately show ?case
    using us(1) vs(1-5) strips len us(3)
    by (intro exI [of _ vs] exI [of _ s'] exI [of _ "map tid us @ new"]) simp
qed

lemma build_tree:
  assumes "0 < n" and "0 < b" and "wf s" and "contents \<noteq> []" and "blocks \<noteq> []"
    and "file_room depth_of n b contents \<le> room s"
  shows "\<exists>us s'. replace_blocks_for_contents depth_of bm blocks contents acc n b s =
       Inr (acc @ map tid us, s') \<and> wf s' \<and> room s' = room s - file_room depth_of n b contents \<and>
     (\<forall>u \<in> set us. stored (lookup s') u) \<and> map strip us = file_forest depth_of n b contents \<and>
     grown (lookup s) (concat (map tids us)) (lookup s')"
proof -
  let ?leaves = "leaf_strings contents n"
  let ?m = "num_leaves_of (length contents) n"
  have len: "length ?leaves = ?m" by (simp add: leaf_strings_def)
  have room: "?m + layer_count b (depth_of b ?m) ?m \<le> room s"
    using assms(4,6) by (simp add: file_room_def Let_def)
  with create_leaves_tree [OF assms(3), of ?leaves "[]"] len obtain ts s1 where ts:
    "create_leaves bm ?leaves [] s = Inr (map tblock ts, s1)" "wf s1" "room s1 = room s - ?m"
    "\<forall>t \<in> set ts. stored (lookup s1) t" "map strip ts = map (\<lambda>c. FNode (KLeaf c) []) ?leaves"
    "grown (lookup s) (concat (map tids ts)) (lookup s1)"
    by auto
  have lts: "length ts = ?m" using arg_cong [OF ts(5), of length] len by simp
  have "layer_count b (depth_of b ?m) (length ts) \<le> room s1"
    using room unfolding ts(3) lts by linarith
  from link_layers_tree [OF assms(2) ts(2) this ts(4)] obtain us s' new
    where us: "link_layers bm b (depth_of b ?m) (map tblock ts) s1 = Inr (map tblock us, s')" "wf s'"
      "room s' = room s1 - layer_count b (depth_of b ?m) ?m" "\<forall>u \<in> set us. stored (lookup s') u"
      "map strip us = flayers b (depth_of b ?m) (map strip ts)" "grown (lookup s1) new (lookup s')"
      "mset (concat (map tids us)) = mset (concat (map tids ts)) + mset new"
    unfolding lts by blast
  have "grown (lookup s) (concat (map tids us)) (lookup s')"
    by (rule grown_mset [OF grown_trans [OF ts(6) us(6)]]) (simp add: us(7))
  moreover have "map strip us = file_forest depth_of n b contents"
    using us(5) ts(5) assms(4) by (simp add: file_forest_def)
  ultimately show ?thesis
    using us ts(1,3) assms(4,5) leaf_data_leaf_strings [OF assms(1), of contents]
    by (intro exI [of _ us] exI [of _ s'])
       (simp add: replace_blocks_for_contents_def Let_def file_room_def comp_def)
qed

end

end
