(* ===== verification/FsSpec.thy ===== *)
theory FsSpec
  imports FsBuild
begin

text \<open>
  The abstract file system that \<open>BlockFuse\<close> implements. Its state is a tree without block ids,
  with the device number and \<open>errno\<close>; every operation of \<open>block_fuse.cc\<close> has a specification
  here that looks a path up in the tree and updates the tree at the path. The lemmas say what an
  update does to later lookups: it is seen at and below its own path and nowhere else.
\<close>

section \<open>State and operations\<close>

record fs =
  fs_tree :: ftree
  fs_dev :: dev_t
  fs_errno :: int

text \<open>The names of a path below the root.\<close>

definition fs_parts :: "string \<Rightarrow> string list" where
  "fs_parts path = (if path = ''/'' then [] else split_at_sep (tl path))"

text \<open>The paths the kernel passes to FUSE: absolute, without empty names.\<close>

definition fuse_path :: "string \<Rightarrow> bool" where
  "fuse_path path \<longleftrightarrow> path \<noteq> [] \<and> hd path = CHR ''/'' \<and> [] \<notin> set (fs_parts path)"

definition node_stat :: "ftree \<Rightarrow> stat_data option" where
  "node_stat t = (case fkind t of KDir n st \<Rightarrow> Some st | _ \<Rightarrow> None)"

definition is_file :: "ftree \<Rightarrow> bool" where
  "is_file t = (case node_stat t of Some st \<Rightarrow> \<not> stat_is_dir st | None \<Rightarrow> False)"

definition add_kid :: "ftree \<Rightarrow> ftree \<Rightarrow> ftree" where
  "add_kid c t = FNode (fkind t) (fkids t @ [c])"

definition remove_kid :: "string \<Rightarrow> ftree \<Rightarrow> ftree" where
  "remove_kid p t = FNode (fkind t) (remove_first (\<lambda>c. kind_named p (fkind c)) (fkids t))"

definition spec_init :: "os_env \<Rightarrow> dev_t \<Rightarrow> fs" where
  "spec_init env d =
     \<lparr>fs_tree = FNode (KDir ''/''
          \<lparr>stat_mode = \<lparr>user_mode = READ_WRITE_EXECUTE, group_mode = READ_EXECUTE,
                        other_mode = EXECUTE, file_type_of = DIR\<rparr>,
           stat_uid = uid env, stat_gid = gid env, stat_size = 0,
           access_time = cur_time env, mod_time = cur_time env,
           status_change_time = cur_time env\<rparr>) [],
      fs_dev = d, fs_errno = 0\<rparr>"

definition spec_getattr :: "string \<Rightarrow> stat_buf \<Rightarrow> fs \<Rightarrow> (int \<times> stat_buf) \<times> fs" where
  "spec_getattr path stbuf a =
     (case flookup (fs_parts path) (fs_tree a) of
        None \<Rightarrow> ((- ENOENT, stbuf), a\<lparr>fs_errno := ENOENT\<rparr>)
      | Some t \<Rightarrow>
          (case node_stat t of
             None \<Rightarrow> ((0, stbuf), a)
           | Some st \<Rightarrow> ((0, update_stat st (fs_dev a) 1 stbuf), a)))"

definition new_stat :: "os_env \<Rightarrow> mode \<Rightarrow> u64 \<Rightarrow> stat_data" where
  "new_stat env md sz =
     \<lparr>stat_mode = md, stat_uid = uid env, stat_gid = gid env, stat_size = sz,
      access_time = cur_time env, mod_time = cur_time env, status_change_time = cur_time env\<rparr>"

unbundle bit_operations_syntax

definition mkdir_mode :: "mode_t \<Rightarrow> mode" where
  "mkdir_mode m =
     \<lparr>user_mode = user_mode_from_mode_t (m OR S_IFDIR),
      group_mode = group_mode_from_mode_t (m OR S_IFDIR),
      other_mode = other_mode_from_mode_t (m OR S_IFDIR), file_type_of = DIR\<rparr>"

definition spec_mkdir :: "os_env \<Rightarrow> string \<Rightarrow> mode_t \<Rightarrow> fs \<Rightarrow> int \<times> fs" where
  "spec_mkdir env path m a =
     (let ps = fs_parts path in
      if flookup ps (fs_tree a) \<noteq> None then (1, a)
      else let a1 = a\<lparr>fs_errno := ENOENT\<rparr> in
        if flookup (butlast ps) (fs_tree a) = None then (1, a1)
        else (0, a1\<lparr>fs_tree := fupdate (butlast ps)
                 (add_kid (FNode (KDir (last ps) (new_stat env (mkdir_mode m) 1)) []))
                 (fs_tree a)\<rparr>))"

definition spec_create :: "os_env \<Rightarrow> string \<Rightarrow> mode \<Rightarrow> fs \<Rightarrow> int \<times> fs" where
  "spec_create env path md a =
     (let ps = fs_parts path in
      if flookup ps (fs_tree a) \<noteq> None then (- EEXIST, a\<lparr>fs_errno := EEXIST\<rparr>)
      else if flookup (butlast ps) (fs_tree a) = None then (- ENOENT, a\<lparr>fs_errno := ENOENT\<rparr>)
      else (0, a\<lparr>fs_tree := fupdate (butlast ps)
               (add_kid (FNode (KDir (last ps) (new_stat env md 0)) [])) (fs_tree a)\<rparr>))"

definition spec_rmdir :: "string \<Rightarrow> fs \<Rightarrow> int \<times> fs" where
  "spec_rmdir path a =
     (let ps = fs_parts path in
      if flookup ps (fs_tree a) = None \<or> ps = [] then (1, a)
      else (0, a\<lparr>fs_tree := fupdate (butlast ps) (remove_kid (last ps)) (fs_tree a)\<rparr>))"

definition spec_read :: "string \<Rightarrow> u64 \<Rightarrow> u64 \<Rightarrow> fs \<Rightarrow> ((int \<times> string) \<times> fs) result" where
  "spec_read path sz offset a =
     (case flookup (fs_parts path) (fs_tree a) of
        None \<Rightarrow> Inr ((- ENOENT, []), a\<lparr>fs_errno := ENOENT\<rparr>)
      | Some t \<Rightarrow>
          if \<not> is_file t then Inr ((-1, []), a)
          else bind_result (read_range (fcontents t) sz offset) (\<lambda>r. Inr (r, a)))"

definition spliced :: "string \<Rightarrow> string \<Rightarrow> u64 \<Rightarrow> u64 \<Rightarrow> string" where
  "spliced contents buffer sz offset =
     take (unat offset) contents @ take (unat sz) buffer @ drop (unat offset + unat sz) contents"

definition written_file :: "os_env \<Rightarrow> string \<Rightarrow> ftree \<Rightarrow> ftree" where
  "written_file env contents t =
     (case fkind t of
        KDir n st \<Rightarrow>
          FNode (KDir n (stat_with_times st (word_of_nat (length contents))
                   (cur_time env) (cur_time env) (cur_time env)))
            (file_forest (ceil_log env) BYTES_PER_BLOCK BRANCHING_FACTOR contents)
      | _ \<Rightarrow> t)"

definition spec_write :: "os_env \<Rightarrow> string \<Rightarrow> string \<Rightarrow> u64 \<Rightarrow> u64 \<Rightarrow> fs \<Rightarrow> int \<times> fs" where
  "spec_write env path buffer sz offset a =
     (case flookup (fs_parts path) (fs_tree a) of
        None \<Rightarrow> (- ENOENT, a\<lparr>fs_errno := ENOENT\<rparr>)
      | Some t \<Rightarrow>
          if \<not> is_file t then (- EISDIR, a\<lparr>fs_errno := EISDIR\<rparr>)
          else if length (fcontents t) < unat offset then (-1, a)
          else (int_of_size sz,
                a\<lparr>fs_tree := fupdate (fs_parts path)
                    (written_file env (spliced (fcontents t) buffer sz offset)) (fs_tree a)\<rparr>))"

text \<open>The names and attributes of the files and directories directly below a node.\<close>

fun entries :: "ftree list \<Rightarrow> (string \<times> stat_data) list" where
  "entries [] = []"
| "entries (FNode (KDir n st) cs # ts) = (n, st) # entries ts"
| "entries (_ # ts) = entries ts"

fun fill_entries ::
  "'b filler \<Rightarrow> dev_t \<Rightarrow> (string \<times> stat_data) list \<Rightarrow> stat_buf \<Rightarrow> 'b \<Rightarrow> 'b" where
  "fill_entries filler d [] stbuf buf = buf"
| "fill_entries filler d ((n, st) # es) stbuf buf =
     (let sb = update_stat st d 1 stbuf
      in fill_entries filler d es sb (snd (filler buf n (Some sb))))"

definition spec_readdir :: "string \<Rightarrow> 'b \<Rightarrow> 'b filler \<Rightarrow> fs \<Rightarrow> (int \<times> 'b) \<times> fs" where
  "spec_readdir path buf filler a =
     (case flookup (fs_parts path) (fs_tree a) of
        None \<Rightarrow> ((- ENOENT, buf), a\<lparr>fs_errno := ENOENT\<rparr>)
      | Some t \<Rightarrow>
          (case node_stat t of
             None \<Rightarrow> ((1, buf), a)
           | Some st \<Rightarrow>
               let stbuf = update_stat st (fs_dev a) 1 local_stbuf;
                   (r, buf1) = filler buf ''.'' (Some stbuf)
               in if r \<noteq> 0 then ((r, buf1), a)
                  else let (r2, buf2) = filler buf1 ''..'' None
                       in if r2 \<noteq> 0 then ((r2, buf2), a)
                          else ((0, fill_entries filler (fs_dev a) (entries (fkids t)) stbuf buf2), a)))"

section \<open>Names\<close>

lemma fs_parts_no_sep: "p \<in> set (fs_parts path) \<Longrightarrow> CHR ''/'' \<notin> set p"
  by (auto simp: fs_parts_def dest: split_at_sep_parts split: if_splits)

lemma root_not_part: "''/'' \<notin> set (fs_parts path)"
  using fs_parts_no_sep [of "''/''" path] by auto

lemma separate_fs_parts: "path \<noteq> [] \<Longrightarrow> separate_path path = Inr (''/'' # fs_parts path)"
  by (simp add: separate_path_spec fs_parts_def)

lemma fs_parts_Nil: "fs_parts path = [] \<longleftrightarrow> path = ''/''"
  by (simp add: fs_parts_def)

text \<open>The parent path of the code, split again, is the parent's names.\<close>

lemma parent_path:
  assumes "fuse_path path" and "path \<noteq> ''/''"
  shows "\<exists>parent. join_paths (''/'' # butlast (fs_parts path)) = Inr parent \<and> parent \<noteq> [] \<and>
     fs_parts parent = butlast (fs_parts path)"
proof -
  let ?ps = "butlast (fs_parts path)"
  have no: "\<forall>p \<in> set ?ps. CHR ''/'' \<notin> set p"
    by (auto dest: in_set_butlastD fs_parts_no_sep)
  have "[] \<notin> set ?ps" using assms(1) by (auto simp: fuse_path_def dest: in_set_butlastD)
  then have "?ps \<noteq> [[]]" by auto
  from separate_join_path [OF no this] obtain parent where
    p: "join_paths (''/'' # ?ps) = Inr parent" "separate_path parent = Inr (''/'' # ?ps)"
    by (auto simp: bind_result_eq_Inr)
  then have "parent \<noteq> []" by (auto simp: separate_path_spec)
  with p separate_fs_parts [of parent] show ?thesis by auto
qed

lemma kind_named_dir_names: "p \<in> set (dir_names ts) \<longleftrightarrow> (\<exists>t \<in> set ts. kind_named p (fkind t))"
  by (induction ts rule: dir_names.induct) auto

lemma ffind_None_iff: "ffind p ts = None \<longleftrightarrow> p \<notin> set (dir_names ts)"
  by (auto simp: ffind_def find_None_iff kind_named_dir_names)

lemma dir_names_append: "dir_names (ts @ us) = dir_names ts @ dir_names us"
  by (induction ts rule: dir_names.induct) auto

lemma dir_names_remove:
  "ffind p ts = Some c \<Longrightarrow> mset (dir_names ts) = add_mset p (mset (dir_names
     (remove_first (\<lambda>t. kind_named p (fkind t)) ts)))"
  by (induction ts rule: dir_names.induct) (auto simp: ffind_def split: if_splits)

lemma dir_names_one: "kind_named p (fkind t) \<Longrightarrow> dir_names [t] = [p]"
  by (cases t; cases "fkind t") auto

lemma ffind_Some: "ffind p ts = Some c \<Longrightarrow> c \<in> set ts \<and> kind_named p (fkind c)"
  unfolding ffind_def by (rule find_Some_in)

lemma ffind_append:
  "ffind p (ts @ us) = (case ffind p ts of Some c \<Rightarrow> Some c | None \<Rightarrow> ffind p us)"
  by (induction ts) (simp_all add: ffind_def)

lemma kind_named_inject: "kind_named p k \<Longrightarrow> kind_named q k \<Longrightarrow> p = q"
  by (cases k) auto

lemma ffind_remove_other:
  "p \<noteq> q \<Longrightarrow> ffind q (remove_first (\<lambda>t. kind_named p (fkind t)) ts) = ffind q ts"
proof (induction ts)
  case Nil
  then show ?case by simp
next
  case (Cons t ts)
  then show ?case using kind_named_inject [of p "fkind t" q] by (auto simp: ffind_def)
qed

section \<open>Lookups after an update\<close>

definition same_name :: "ftree \<Rightarrow> ftree \<Rightarrow> bool" where
  "same_name a b \<longleftrightarrow> (\<forall>p. kind_named p (fkind a) \<longleftrightarrow> kind_named p (fkind b))"

lemma same_name_refl [simp]: "same_name a a"
  by (simp add: same_name_def)

lemma fkind_fupdate: "ps \<noteq> [] \<Longrightarrow> fkind (fupdate ps g t) = fkind t"
  by (cases ps; cases t) (auto split: option.splits)

lemma fupdate_const: "flookup ps t = Some d \<Longrightarrow> fupdate ps g t = fupdate ps (\<lambda>_. g d) t"
proof (induction ps arbitrary: t)
  case Nil
  then show ?case by simp
next
  case (Cons p ps)
  then show ?case by (cases t) (auto split: option.splits)
qed

lemma same_name_fupdate:
  "flookup ps t = Some d \<Longrightarrow> same_name (g d) d \<Longrightarrow> same_name (fupdate ps g t) t"
  by (cases "ps = []") (auto simp: same_name_def fkind_fupdate)

lemma fshape_names: "fshape t \<Longrightarrow> is_dir_file (fkind t) \<Longrightarrow> distinct (dir_names (fkids t))"
  by (cases t; cases "fkind t") auto

lemma fshape_find: "fshape t \<Longrightarrow> ffind p (fkids t) = Some c \<Longrightarrow> fshape c"
  using ffind_Some [of p "fkids t" c] by (cases t) (auto split: kind.splits)

lemma ffind_updated:
  assumes "distinct (dir_names ts)" and "ffind p ts = Some c" and "kind_named p (fkind x)"
  shows "ffind p (remove_first (\<lambda>t. kind_named p (fkind t)) ts @ [x]) = Some x"
proof -
  have "ffind p (remove_first (\<lambda>t. kind_named p (fkind t)) ts) = None"
  proof -
    have "mset (dir_names ts) =
        mset (p # dir_names (remove_first (\<lambda>t. kind_named p (fkind t)) ts))"
      using dir_names_remove [OF assms(2)] by simp
    from distinct_mset_eq [OF this] assms(1) show ?thesis unfolding ffind_None_iff by simp
  qed
  moreover have "ffind p [x] = Some x" using assms(3) by (simp add: ffind_def)
  ultimately show ?thesis by (simp add: ffind_append)
qed

lemma fupdate_shape:
  "fshape t \<Longrightarrow> is_dir_file (fkind t) \<Longrightarrow> flookup ps t = Some d \<Longrightarrow> same_name (g d) d \<Longrightarrow>
     fshape (g d) \<Longrightarrow> fshape (fupdate ps g t)"
proof (induction ps arbitrary: t)
  case Nil
  then show ?case by simp
next
  case (Cons p ps)
  obtain n st ts where t: "t = FNode (KDir n st) ts"
    using Cons.prems(2) by (cases t; cases "fkind t") auto
  obtain c where c: "ffind p ts = Some c" "flookup ps c = Some d"
    using Cons.prems(3) t by (auto split: option.splits)
  from ffind_Some [OF c(1)] have cin: "c \<in> set ts" "kind_named p (fkind c)" by auto
  let ?x = "fupdate ps g c"
  let ?kept = "remove_first (\<lambda>t. kind_named p (fkind t)) ts"
  have x: "fshape ?x"
    using Cons.IH [of c] Cons.prems t c cin kind_named_is_dir_file by auto
  have "kind_named p (fkind ?x)"
    using same_name_fupdate [of ps c d g] c(2) Cons.prems(4) cin(2) by (auto simp: same_name_def)
  then have "mset (dir_names (?kept @ [?x])) = mset (dir_names ts)"
    unfolding dir_names_append dir_names_remove [OF c(1)] by (simp add: dir_names_one)
  then have "distinct (dir_names (?kept @ [?x]))"
    using Cons.prems(1) t distinct_mset_eq by fastforce
  moreover have "\<forall>u \<in> set ?kept. fshape u"
    using Cons.prems(1) t set_remove_first [of "\<lambda>t. kind_named p (fkind t)" ts] by auto
  ultimately show ?case using t c x by simp
qed

lemma flookup_updated:
  "fshape t \<Longrightarrow> is_dir_file (fkind t) \<Longrightarrow> flookup ps t = Some d \<Longrightarrow> same_name (g d) d \<Longrightarrow>
     flookup (ps @ qs) (fupdate ps g t) = flookup qs (g d)"
proof (induction ps arbitrary: t)
  case Nil
  then show ?case by simp
next
  case (Cons p ps)
  obtain n st ts where t: "t = FNode (KDir n st) ts"
    using Cons.prems(2) by (cases t; cases "fkind t") auto
  obtain c where c: "ffind p ts = Some c" "flookup ps c = Some d"
    using Cons.prems(3) t by (auto split: option.splits)
  from ffind_Some [OF c(1)] have cin: "c \<in> set ts" "kind_named p (fkind c)" by auto
  have "kind_named p (fkind (fupdate ps g c))"
    using same_name_fupdate [of ps c d g] c(2) Cons.prems(4) cin(2) by (auto simp: same_name_def)
  with ffind_updated [OF _ c(1)] Cons.prems(1) t
  have "ffind p (fkids (fupdate (p # ps) g t)) = Some (fupdate ps g c)"
    using c(1) by simp
  moreover have "flookup (ps @ qs) (fupdate ps g c) = flookup qs (g d)"
    using Cons.IH [of c] Cons.prems t c cin kind_named_is_dir_file by auto
  ultimately show ?case by simp
qed

text \<open>
  Two paths part when they differ at a position both have. Then an update at the one is not seen
  by a lookup at the other.
\<close>

fun apart :: "string list \<Rightarrow> string list \<Rightarrow> bool" where
  "apart (p # ps) (q # qs) \<longleftrightarrow> p \<noteq> q \<or> apart ps qs"
| "apart _ _ \<longleftrightarrow> False"

lemma flookup_apart:
  "fshape t \<Longrightarrow> is_dir_file (fkind t) \<Longrightarrow> flookup ps t = Some d \<Longrightarrow> same_name (g d) d \<Longrightarrow>
     apart ps qs \<Longrightarrow> flookup qs (fupdate ps g t) = flookup qs t"
proof (induction ps qs arbitrary: t rule: apart.induct)
  case (1 p ps q qs)
  obtain n st ts where t: "t = FNode (KDir n st) ts"
    using "1.prems"(2) by (cases t; cases "fkind t") auto
  obtain c where c: "ffind p ts = Some c" "flookup ps c = Some d"
    using "1.prems"(3) t by (auto split: option.splits)
  from ffind_Some [OF c(1)] have cin: "c \<in> set ts" "kind_named p (fkind c)" by auto
  have k: "kind_named p (fkind (fupdate ps g c))"
    using same_name_fupdate [of ps c d g] c(2) "1.prems"(4) cin(2) by (auto simp: same_name_def)
  show ?case
  proof (cases "p = q")
    case True
    with "1.prems"(5) have a: "apart ps qs" by simp
    have "ffind p (fkids (fupdate (p # ps) g t)) = Some (fupdate ps g c)"
      using ffind_updated [OF _ c(1) k] "1.prems"(1) t c(1) by simp
    with True t c(1) "1.IH" [of c] "1.prems" c cin a kind_named_is_dir_file show ?thesis by auto
  next
    case False
    have "ffind q [fupdate ps g c] = None"
      using kind_named_inject [OF k] False by (auto simp: ffind_def)
    with False t c(1) show ?thesis
      by (simp add: ffind_append ffind_remove_other split: option.splits)
  qed
qed simp_all

lemma foldr_max_le: "foldr max xs (0 :: nat) \<le> n \<longleftrightarrow> (\<forall>x \<in> set xs. x \<le> n)"
  by (induction xs) auto

lemma fheight_fupdate:
  "flookup ps t = Some d \<Longrightarrow> fheight (g d) \<le> fheight d + k \<Longrightarrow>
     fheight (fupdate ps g t) \<le> fheight t + k"
proof (induction ps arbitrary: t)
  case Nil
  then show ?case by simp
next
  case (Cons p ps)
  obtain kd ts where t: "t = FNode kd ts" by (cases t) auto
  obtain c where c: "ffind p ts = Some c" "flookup ps c = Some d"
    using Cons.prems(1) t by (auto split: option.splits)
  obtain h where h: "fheight t = Suc h" using fheight_pos [of t] by (cases "fheight t") auto
  then have le: "\<forall>u \<in> set ts. fheight u \<le> h" using fheight_le_iff [of kd ts h] t by simp
  have "fheight (fupdate ps g c) \<le> h + k"
    using Cons.IH [OF c(2) Cons.prems(2)] le ffind_Some [OF c(1)] by fastforce
  moreover have "\<forall>u \<in> set (remove_first (\<lambda>t. kind_named p (fkind t)) ts). fheight u \<le> h + k"
    using le set_remove_first [of "\<lambda>t. kind_named p (fkind t)" ts] by fastforce
  ultimately show ?case
    unfolding t fupdate.simps c(1) option.case h [unfolded t] add_Suc fheight_le_iff by auto
qed

lemma fheight_add_kid: "fheight (add_kid c t) \<le> fheight t + fheight c"
proof -
  obtain k ts where t: "t = FNode k ts" by (cases t) auto
  obtain h where h: "fheight t = Suc h" using fheight_pos [of t] by (cases "fheight t") auto
  then have "\<forall>u \<in> set ts. fheight u \<le> h" using fheight_le_iff [of k ts h] t by simp
  then have "fheight (FNode k (ts @ [c])) \<le> Suc (h + fheight c)"
    unfolding fheight_le_iff by fastforce
  then show ?thesis unfolding h add_kid_def by (simp add: t del: fheight.simps)
qed

lemma flookup_dir: "is_dir_file (fkind t) \<Longrightarrow> flookup ps t = Some d \<Longrightarrow> is_dir_file (fkind d)"
proof (induction ps arbitrary: t)
  case Nil
  then show ?case by simp
next
  case (Cons p ps)
  then show ?case
    by (auto split: option.splits dest!: ffind_Some intro: kind_named_is_dir_file)
qed

lemma flookup_shape: "fshape t \<Longrightarrow> flookup ps t = Some d \<Longrightarrow> fshape d"
proof (induction ps arbitrary: t)
  case Nil
  then show ?case by simp
next
  case (Cons p ps)
  then show ?case by (auto split: option.splits dest: fshape_find)
qed

lemma flookup_append:
  "flookup (ps @ qs) t = (case flookup ps t of None \<Rightarrow> None | Some d \<Rightarrow> flookup qs d)"
  by (induction ps arbitrary: t) (auto split: option.splits)

lemma Mode_of_mkdir: "Mode_of_mode_t (m OR S_IFDIR) = Inr (mkdir_mode m)"
proof -
  have "(m OR S_IFDIR) AND S_IFDIR = S_IFDIR"
    by (rule bit_word_eqI) (auto simp: bit_simps)
  then have "file_type_from_mode_t (m OR S_IFDIR) = Inr DIR"
    by (simp add: file_type_from_mode_t_def S_IFDIR_def)
  then show ?thesis by (simp add: Mode_of_mode_t_def mkdir_mode_def)
qed

end
