(* ===== verification/FsRefine.thy ===== *)
theory FsRefine
  imports FsSpec
begin

text \<open>
  \<open>BlockFuse\<close> implements the abstract file system. \<open>tree_state lookup ok T f\<close> is the
  representation invariant: the store holds every block of the tree \<open>T\<close>, whose ids are distinct,
  whose shape is well formed, and whose root is the object's root block; \<open>no_garbage\<close> adds that
  it holds nothing else. The locale \<open>block_fuse_ops\<close> states what the operations ask of the two
  virtual methods: \<open>set_root_block\<close> sets the root and keeps the store, \<open>free_block\<close> frees a
  block unless the object keeps its blocks. Inside it, each operation is shown to return what its
  specification returns and to lead to a state that represents the specification's state.
\<close>

section \<open>Representation\<close>

definition tree_state ::
  "('s \<Rightarrow> block_id \<Rightarrow> block_data option) \<Rightarrow> ('s \<Rightarrow> bool) \<Rightarrow> btree \<Rightarrow> ('s, 'm) block_fuse_scheme \<Rightarrow> bool"
where
  "tree_state lookup ok T f \<longleftrightarrow>
     ok (store f) \<and> stored (lookup (store f)) T \<and> distinct (tids T) \<and> fshape (strip T) \<and>
     kind_named ''/'' (tkind T) \<and> root_block f = Some (tblock T)"

definition no_garbage ::
  "('s \<Rightarrow> block_id \<Rightarrow> block_data option) \<Rightarrow> btree \<Rightarrow> ('s, 'm) block_fuse_scheme \<Rightarrow> bool" where
  "no_garbage lookup T f \<longleftrightarrow> dom (lookup (store f)) = set (tids T)"

definition abs_fs :: "btree \<Rightarrow> ('s, 'm) block_fuse_scheme \<Rightarrow> fs" where
  "abs_fs T f = \<lparr>fs_tree = strip T, fs_dev = dev f, fs_errno = errno f\<rparr>"

lemma abs_fs_sel [simp]:
  "fs_tree (abs_fs T f) = strip T" "fs_dev (abs_fs T f) = dev f" "fs_errno (abs_fs T f) = errno f"
  by (simp_all add: abs_fs_def)

lemma tree_stateD:
  assumes "tree_state lookup ok T f"
  shows "ok (store f)" "stored (lookup (store f)) T" "distinct (tids T)" "fshape (strip T)"
    "kind_named ''/'' (tkind T)" "root_block f = Some (tblock T)" "is_dir_file (tkind T)"
  using assms kind_named_is_dir_file [of "''/''" "tkind T"] by (auto simp: tree_state_def)

lemma tree_state_errno [simp]:
  "tree_state lookup ok T (f\<lparr>errno := e\<rparr>) = tree_state lookup ok T f"
  "no_garbage lookup T (f\<lparr>errno := e\<rparr>) = no_garbage lookup T f"
  by (simp_all add: tree_state_def no_garbage_def)

section \<open>The nodes of a walk\<close>

lemma bwalk_last:
  "bwalk ps t = Some cs \<Longrightarrow> stored L t \<Longrightarrow> distinct (tids t) \<Longrightarrow> fshape (strip t) \<Longrightarrow>
     is_dir_file (tkind t) \<Longrightarrow>
     stored L (last (t # cs)) \<and> distinct (tids (last (t # cs))) \<and> fshape (strip (last (t # cs))) \<and>
     is_dir_file (tkind (last (t # cs))) \<and> fheight (strip (last (t # cs))) \<le> fheight (strip t) \<and>
     length cs = length ps"
proof (induction ps arbitrary: t cs)
  case Nil
  then show ?case by simp
next
  case (Cons p ps)
  then obtain c cs' where c: "bfind p t = Some c" "bwalk ps c = Some cs'" "cs = c # cs'"
    by (auto split: option.splits)
  from bfind_kid [OF c(1)] have ck: "c \<in> set (kids t)" "is_dir_file (tkind c)"
    using kind_named_is_dir_file by auto
  have "fheight (strip c) \<le> fheight (strip t)"
  proof -
    obtain h where h: "fheight (strip t) = Suc h" using fheight_pos [of "strip t"]
      by (cases "fheight (strip t)") auto
    with height_kids [of t h] ck(1) show ?thesis by auto
  qed
  with Cons.IH [OF c(2)] Cons.prems ck c(3) stored_kid distinct_tids_kid fshape_kid show ?case
    by (auto dest: le_trans)
qed

lemma bwalk_path_ids:
  "bwalk ps t = Some cs \<Longrightarrow> distinct (tids t) \<Longrightarrow>
     distinct (map tid (butlast (t # cs))) \<and>
     set (map tid (butlast (t # cs))) \<subseteq> set (tids t) - set (tids (last (t # cs)))"
proof (induction ps arbitrary: t cs)
  case Nil
  then show ?case by simp
next
  case (Cons p ps)
  then obtain c cs' where c: "bfind p t = Some c" "bwalk ps c = Some cs'" "cs = c # cs'"
    by (auto split: option.splits)
  from bfind_kid [OF c(1)] have ck: "c \<in> set (kids t)" by simp
  have IH: "distinct (map tid (butlast (c # cs')))"
    "set (map tid (butlast (c # cs'))) \<subseteq> set (tids c) - set (tids (last (c # cs')))"
    using Cons.IH [OF c(2)] distinct_tids_kid [OF Cons.prems(2) ck] by blast+
  have "set (tids c) \<subseteq> set (concat (map tids (kids t)))" using ck by auto
  then have "tid t \<notin> set (tids c)" using Cons.prems(2) by (auto simp: tids_eq [of t])
  moreover note bwalk_last_ids [OF c(2)] kid_ids_subset [OF ck] tid_in_tids [of t] IH
  moreover have "butlast (t # cs) = t # butlast (c # cs')" "last (t # cs) = last (c # cs')"
    using c(3) by simp_all
  ultimately show ?case unfolding \<open>butlast (t # cs) = _\<close> \<open>last (t # cs) = _\<close> list.map list.set
    by (simp only: distinct.simps) blast
qed

lemma updated_ids:
  assumes eq: "mset A + mset P + mset C = mset T + mset Z + mset N"
    and "distinct T" "distinct Z" "distinct N" "distinct P" and "set C \<subseteq> set T" "distinct C"
    and "set Z \<inter> (set T - set C) = {}" "set N \<inter> (set T - set C) = {}" "set N \<inter> set Z = {}"
    and P: "set P \<subseteq> set T - set C"
  shows "distinct A \<and> set A = (set T - set C - set P) \<union> set Z \<union> set N"
proof -
  let ?R = "filter (\<lambda>i. i \<notin> set C) T"
  have inC: "mset (filter (\<lambda>i. i \<in> set C) T) = mset C"
    using assms(2,6,7) by (intro set_eq_iff_mset_eq_distinct [THEN iffD1]) auto
  have part: "mset xs = mset (filter (\<lambda>i. i \<in> set C) xs) + mset (filter (\<lambda>i. i \<notin> set C) xs)" for xs
    by (induction xs) auto
  have "(mset A + mset P) + mset C = (mset ?R + mset Z + mset N) + mset C"
    unfolding eq using part [of T] inC by (simp only: ac_simps)
  then have "mset A + mset P = mset ?R + mset Z + mset N" by (rule add_right_imp_eq)
  then have m: "mset (A @ P) = mset (?R @ Z @ N)" by (simp add: ac_simps)
  have "distinct (?R @ Z @ N)" using assms by auto
  then have d: "distinct (A @ P)" using distinct_mset_eq [OF m] by simp
  have "set A \<union> set P = set ?R \<union> set Z \<union> set N"
    using mset_eq_setD [OF m] by auto
  moreover have "set A \<inter> set P = {}" using d by auto
  moreover have "set ?R = set T - set C" by auto
  ultimately have "set A = (set T - set C - set P) \<union> set Z \<union> set N"
    using P assms(8,9) by blast
  with d show ?thesis by simp
qed

section \<open>The contract of the virtual methods\<close>

locale block_fuse_ops = block_store bm lookup room wf
  for bm :: "'s block_manager" and lookup room wf +
  fixes vm :: "('s, 'm) fuse_methods"
    and keeps :: "('s, 'm) block_fuse_scheme \<Rightarrow> bool"
  assumes free_block_ok: "free_block vm i f =
      Inr (if keeps f then f else f\<lparr>store := bm_free bm i (store f)\<rparr>)"
    and set_root_ok: "\<exists>f'. set_root_block vm (Some b) f = Inr f' \<and> root_block f' = Some b \<and>
      store f' = store f \<and> dev f' = dev f \<and> errno f' = errno f \<and> keeps f' = keeps f"
    and keeps_store: "keeps (f\<lparr>store := s\<rparr>) = keeps f"
    and keeps_errno: "keeps (f\<lparr>errno := e\<rparr>) = keeps f"
begin

lemma free_blocks_ok:
  "free_blocks vm bs f =
     Inr (if keeps f then f else f\<lparr>store := free_all bm (map get_id bs) (store f)\<rparr>)"
proof (induction bs arbitrary: f)
  case Nil
  then show ?case by simp
next
  case (Cons b bs)
  then show ?case by (simp add: free_block_ok keeps_store)
qed

lemma get_path_tree:
  assumes "tree_state lookup wf T f" and "path \<noteq> []" and "fheight (strip T) \<le> fuel"
  shows "get_path fuel bm path f =
     Inr (case bwalk (fs_parts path) T of None \<Rightarrow> [] | Some cs \<Rightarrow> map tblock (T # cs), f)"
proof -
  note T = tree_stateD [OF assms(1)]
  have "get_path_loop fuel bm (root_block f) (fs_parts path) (Some (tblock T)) [tblock T] (store f) =
      Inr (case bwalk (fs_parts path) T of None \<Rightarrow> [] | Some cs \<Rightarrow> [tblock T] @ map tblock cs, store f)"
    by (rule get_path_loop_tree [OF T(1,2,4,3,7) assms(3) root_not_part])
  moreover have "get_path_part fuel bm (root_block f) ''/'' None [] (store f) =
      Inr ([tblock T], store f)"
    by (simp add: get_path_part_def PATH_SEPARATOR_def T(6))
  ultimately show ?thesis
    by (simp add: get_path_def separate_fs_parts [OF assms(2)] split: option.splits)
qed

lemma resolve_tree:
  assumes "tree_state lookup wf T f" and "path \<noteq> []" and "fheight (strip T) \<le> fuel"
  shows "resolve_inode fuel bm path f =
     Inr (map_option (\<lambda>cs. tblock (last (T # cs))) (bwalk (fs_parts path) T), f)"
  using get_path_tree [OF assms]
  by (auto simp: resolve_inode_def last_map split: option.splits)

lemma base_replace:
  assumes "wf s" and "0 < room s" and "is_dir_file (tkind t)"
    and "remove_ids (map tid (kids t)) rm = Inr (map tid kept)"
    and "\<forall>c \<in> set (kept @ added). stored (lookup s) c"
  shows "\<exists>T0 s0. replace_chain_loop bm [tblock t] rm (map tid added) None s =
       Inr (Some (tblock T0), s0) \<and> wf s0 \<and> room s0 = room s - 1 \<and> tkind T0 = tkind t \<and>
     kids T0 = kept @ added \<and> stored (lookup s0) T0 \<and> grown (lookup s) [tid T0] (lookup s0)"
proof -
  obtain i s0 where r: "replace_block_with_diff_children bm (tblock t) (map tid (kept @ added)) s =
      Inr (mk_block i (node_data (tkind t) (map tid (kept @ added))), s0)" "lookup s i = None"
    "lookup s0 = (lookup s)(i \<mapsto> node_data (tkind t) (map tid (kept @ added)))" "wf s0"
    "room s0 = room s - 1"
    using replace_block_tree [OF assms(1-3), of "map tid (kept @ added)"] by blast
  let ?T = "Node i (tkind t) (kept @ added)"
  have g: "grown (lookup s) [i] (lookup s0)"
    unfolding r(3) by (rule grown_one [of "lookup s" i]) (rule r(2))
  have "stored (lookup s0) ?T" using assms(5) grown_stored [OF g] by (simp add: r(3))
  moreover have ch: "get_children (tblock t) = Some (map tid (kids t))"
    using assms(3) by (cases "tkind t") (simp_all add: get_children_tblock)
  moreover have tb: "tblock ?T = mk_block i (node_data (tkind t) (map tid (kept @ added)))"
    by (simp add: tblock_def tdata_def)
  ultimately show ?thesis using r g assms(4)
    by (intro exI [of _ ?T] exI [of _ s0]) (simp del: remove_ids.simps)
qed

lemma finish_update:
  assumes T: "tree_state lookup wf T f" and walk: "bwalk ps T = Some cs"
    and base: "replace_chain_loop bm [b0] rm add None s = Inr (Some (tblock T0), s0)"
      "get_id b0 = tid (last (T # cs))" "wf s0" "stored (lookup s0) T0" "distinct (tids T0)"
    and agree: "\<forall>i \<in> set (tids T) - set (tids (last (T # cs))). lookup s0 i = lookup (store f) i"
    and T0: "set (tids T0) \<inter> (set (tids T) - set (tids (last (T # cs)))) = {}"
      "set (tids T0) \<inter> insert (tid (last (T # cs))) (set X) = {}"
    and X: "set X \<subseteq> set (tids (last (T # cs)))" "distinct (tid (last (T # cs)) # X)"
      "insert (tid (last (T # cs))) (set X) \<subseteq> dom (lookup s0)"
    and room: "length cs \<le> room s0"
    and shape: "fshape (strip T0)" "same_name (strip T0) (strip (last (T # cs)))"
    and f1: "dev f1 = dev f"
  shows "\<exists>T' s' f2 f3 new.
     replace_chain bm (rev (map tblock (butlast (T # cs)) @ [b0])) rm add s =
       Inr (Some (tblock T'), s') \<and>
     set_root_block vm (Some (tblock T')) (f1\<lparr>store := s'\<rparr>) = Inr f2 \<and>
     (\<forall>bs. map get_id bs = map tid (T # cs) @ X \<longrightarrow> free_blocks vm bs f2 = Inr f3) \<and>
     tree_state lookup wf T' f3 \<and> strip T' = fupdate ps (\<lambda>_. strip T0) (strip T) \<and>
     dev f3 = dev f \<and> errno f3 = errno f1 \<and> keeps f3 = keeps f1 \<and>
     room (store f3) = room s0 - length cs \<and>
     grown (lookup s0) new (lookup s') \<and>
     lookup (store f3) = (if keeps f1 then lookup s' else lookup s' |` (- set (map tid (T # cs) @ X))) \<and>
     set (tids T') = (set (tids T) - set (tids (last (T # cs))) - set (map tid (butlast (T # cs)))) \<union>
       set (tids T0) \<union> set new"
proof -
  let ?c = "last (T # cs)"
  let ?P = "map tid (butlast (T # cs))"
  let ?F = "map tid (T # cs) @ X"
  note TT = tree_stateD [OF T]
  obtain T' s' new where c: "replace_chain_loop bm (rev (map tblock (butlast (T # cs)) @ [b0])) rm add None s =
      Inr (Some (tblock T'), s')" "wf s'" "room s' = room s0 - length cs" "stored (lookup s') T'"
    "grown (lookup s0) new (lookup s')" "strip T' = fupdate ps (\<lambda>_. strip T0) (strip T)"
    "mset (tids T') + mset ?P + mset (tids ?c) = mset (tids T) + mset (tids T0) + mset new"
    using chain_path [OF base(1,3,4) walk base(2) TT(2,3,7) agree room] by blast
  have last: "distinct (tids ?c)" using bwalk_last [OF walk TT(2,3,4,7)] by blast
  have P: "distinct ?P" "set ?P \<subseteq> set (tids T) - set (tids ?c)"
    using bwalk_path_ids [OF walk TT(3)] by blast+
  have "set (tids T) - set (tids ?c) \<subseteq> dom (lookup s0)"
    using agree stored_dom [OF TT(2)] by (auto simp: domIff subset_iff)
  moreover have "set (tids T0) \<subseteq> dom (lookup s0)" by (rule stored_dom [OF base(4)])
  moreover note grown_fresh [OF c(5)]
  ultimately have N: "distinct new" "set new \<inter> (set (tids T) - set (tids ?c)) = {}"
    "set new \<inter> set (tids T0) = {}" "set new \<inter> insert (tid ?c) (set X) = {}"
    using X(3) by blast+
  have ids: "distinct (tids T')"
    "set (tids T') = (set (tids T) - set (tids ?c) - set ?P) \<union> set (tids T0) \<union> set new"
    using updated_ids [OF c(7) TT(3) base(5) N(1) P(1) bwalk_last_ids [OF walk] last T0(1) N(2,3) P(2)]
    by blast+
  have "T # cs = butlast (T # cs) @ [?c]" by simp
  then have "map tid (T # cs) = map tid (butlast (T # cs) @ [?c])" by (rule arg_cong)
  then have path: "map tid (T # cs) = ?P @ [tid ?c]" by (simp only: map_append list.map)
  have F: "set ?F = set ?P \<union> insert (tid ?c) (set X)"
    unfolding path by (simp only: set_append list.set) blast
  have F_ok: "distinct ?F" "set ?F \<subseteq> dom (lookup s')"
  proof -
    have "set ?P \<inter> insert (tid ?c) (set X) = {}"
      using P(2) X(1) tid_in_tids [of ?c] by blast
    then show "distinct ?F" unfolding path using P(1) X(2) by auto
    have "set (tids T) - set (tids ?c) \<subseteq> dom (lookup s0)"
      using agree stored_dom [OF TT(2)] by (auto simp: domIff subset_iff)
    moreover have "dom (lookup s0) \<subseteq> dom (lookup s')" using grown_dom [OF c(5)] by blast
    ultimately show "set ?F \<subseteq> dom (lookup s')" unfolding F using P(2) X(3) by blast
  qed
  have free: "set (tids T') \<inter> set ?F = {}"
    unfolding F ids(2) using T0 N P(2) X(1) tid_in_tids [of ?c] by blast
  obtain f2 where f2: "set_root_block vm (Some (tblock T')) (f1\<lparr>store := s'\<rparr>) = Inr f2"
    "root_block f2 = Some (tblock T')" "store f2 = s'" "dev f2 = dev f1" "errno f2 = errno f1"
    "keeps f2 = keeps f1"
    using set_root_ok [of "tblock T'" "f1\<lparr>store := s'\<rparr>"] by (auto simp: keeps_store)
  define f3 where "f3 = (if keeps f2 then f2 else f2\<lparr>store := free_all bm ?F s'\<rparr>)"
  have fr: "free_blocks vm bs f2 = Inr f3" if "map get_id bs = ?F" for bs
    unfolding free_blocks_ok that f3_def f2(3) ..
  have l3: "lookup (store f3) = (if keeps f1 then lookup s' else lookup s' |` (- set ?F))"
    "wf (store f3)" "room (store f3) = room s0 - length cs"
    using free_all_lookup [OF c(2) F_ok] c(2,3) f2(3,6) by (auto simp: f3_def simp del: free_all.simps)
  have st: "stored (lookup (store f3)) T'"
    unfolding l3(1) using c(4) stored_restrict [OF c(4) free] by simp
  have look: "flookup ps (strip T) = Some (strip ?c)" using walk by (simp add: flookup_strip)
  have "is_dir_file (fkind (strip T))" using TT(7) by simp
  then have "fshape (strip T')"
    unfolding c(6) by (intro fupdate_shape [OF TT(4) _ look]) (use shape in auto)
  moreover have "kind_named ''/'' (tkind T')"
    using same_name_fupdate [of ps "strip T" "strip ?c" "\<lambda>_. strip T0"] look shape(2) TT(5) c(6)
    by (metis fkind_strip same_name_def)
  moreover have "root_block f3 = Some (tblock T')" "dev f3 = dev f" "errno f3 = errno f1"
    "keeps f3 = keeps f1"
    using f2 f1 by (auto simp: f3_def keeps_store)
  ultimately have "tree_state lookup wf T' f3" "dev f3 = dev f" "errno f3 = errno f1" "keeps f3 = keeps f1"
    using l3(2) st ids(1) by (simp_all add: tree_state_def)
  then show ?thesis
    using c(1,5,6) f2(1) fr l3(1,3) ids(2) unfolding replace_chain_def by blast
qed

end

end
