(* ===== verification/FsCreate.thy ===== *)
theory FsCreate
  imports FsRefine
begin

text \<open>
  The operations that look at one node or add one, \<open>getattr\<close>, \<open>mkdir\<close> and \<open>create\<close>, meet
  their specifications for any object with the contract \<open>block_fuse_ops\<close>. Enough fuel is the
  height of the tree, one more for \<open>create\<close>, which looks the new file up after adding it. The
  ids an operation takes are bounded by the \<open>room\<close> it asks for: one for the new block and one
  for each block on the path. \<open>steps_to\<close> says what every operation establishes.
\<close>

definition steps_to ::
  "('s \<Rightarrow> block_id \<Rightarrow> block_data option) \<Rightarrow> ('s \<Rightarrow> bool) \<Rightarrow> ('s \<Rightarrow> nat) \<Rightarrow>
     (('s, 'm) block_fuse_scheme \<Rightarrow> bool) \<Rightarrow> nat \<Rightarrow> btree \<Rightarrow> ('s, 'm) block_fuse_scheme \<Rightarrow> fs \<Rightarrow>
     ('s, 'm) block_fuse_scheme \<Rightarrow> bool" where
  "steps_to lookup ok room keeps cost T f a' f' \<longleftrightarrow>
     (\<exists>T'. tree_state lookup ok T' f' \<and> abs_fs T' f' = a' \<and> keeps f' = keeps f \<and>
       room (store f) \<le> room (store f') + cost \<and>
       (no_garbage lookup T f \<and> \<not> keeps f \<longrightarrow> no_garbage lookup T' f'))"

lemma steps_to_refl:
  "tree_state lookup ok T f \<Longrightarrow> steps_to lookup ok room keeps n T f (abs_fs T f) f"
  by (auto simp: steps_to_def)

section \<open>Adding a directory or a file\<close>

lemma grown_agree: "grown L new L' \<Longrightarrow> i \<in> dom L \<Longrightarrow> L' i = L i"
  by (auto simp: grown_def map_le_def)

lemma remove_ids_Nil: "remove_ids xs [] = Inr xs"
  by simp

lemma bwalk_lookup: "bwalk ps t = Some cs \<Longrightarrow> flookup ps (strip t) = Some (strip (last (t # cs)))"
  by (simp add: flookup_strip)

lemma fupdate_at:
  "bwalk ps t = Some cs \<Longrightarrow>
     fupdate ps g (strip t) = fupdate ps (\<lambda>_. g (strip (last (t # cs)))) (strip t)"
  by (rule fupdate_const [OF bwalk_lookup])

lemma garbage_sets:
  "A \<inter> E = {} \<Longrightarrow> N \<inter> F = {} \<Longrightarrow> K \<subseteq> C \<Longrightarrow> C \<subseteq> A \<Longrightarrow> P \<subseteq> A - C \<Longrightarrow> F = P \<union> (C - K) \<Longrightarrow>
     (A \<union> E \<union> N) - F = (A - C - P) \<union> (E \<union> K) \<union> N"
  by auto

context block_fuse_ops
begin

lemma insert_child:
  assumes T: "tree_state lookup wf T f" and walk: "bwalk ps T = Some cs"
    and name: "ffind n (map strip (kids (last (T # cs)))) = None"
    and room: "length ps + 2 \<le> room (store f)" and f1: "store f1 = store f" "dev f1 = dev f"
  shows "\<exists>b s2 T' s' f2 f3.
     bm_create bm (DirFileBlockData \<lparr>df_name = n, df_stat = st, df_children = []\<rparr>) (store f1) =
       Inr (b, s2) \<and>
     replace_chain bm (rev (map tblock (T # cs))) [] [get_id b] s2 = Inr (Some (tblock T'), s') \<and>
     set_root_block vm (Some (tblock T')) (f1\<lparr>store := s'\<rparr>) = Inr f2 \<and>
     free_blocks vm (map tblock (T # cs)) f2 = Inr f3 \<and>
     tree_state lookup wf T' f3 \<and>
     strip T' = fupdate ps (add_kid (FNode (KDir n st) [])) (strip T) \<and>
     dev f3 = dev f \<and> errno f3 = errno f1 \<and> keeps f3 = keeps f1 \<and>
     room (store f3) = room (store f) - (length ps + 2) \<and>
     (no_garbage lookup T f \<and> \<not> keeps f1 \<longrightarrow> no_garbage lookup T' f3) \<and>
     (keeps f1 \<longrightarrow> lookup (store f) \<subseteq>\<^sub>m lookup (store f3))"
proof -
  let ?c = "last (T # cs)"
  note TT = tree_stateD [OF T]
  note C = bwalk_last [OF walk TT(2,3,4,7)]
  have dom: "set (tids T) \<subseteq> dom (lookup (store f))" by (rule stored_dom [OF TT(2)])
  have csub: "set (tids ?c) \<subseteq> set (tids T)" by (rule bwalk_last_ids [OF walk])
  obtain u s2 where u: "bm_create bm (node_data (KDir n st) (map tid [])) (store f) = Inr (tblock u, s2)"
    "wf s2" "room s2 = room (store f) - 1" "tkind u = KDir n st" "kids u = []" "stored (lookup s2) u"
    "grown (lookup (store f)) [tid u] (lookup s2)"
    using create_node [OF TT(1), of "[]" "KDir n st"] room by auto
  have uids: "tids u = [tid u]" and ustrip: "strip u = FNode (KDir n st) []"
    using u(4,5) by (simp_all add: tids_eq [of u] strip_eq [of u])
  have kids: "\<forall>k \<in> set (kids ?c @ [u]). stored (lookup s2) k"
    using C stored_kid [of "lookup (store f)" ?c] grown_stored [OF u(7)] u(6) by auto
  have "0 < room s2" using u(3) room by simp
  from base_replace [OF u(2) this _ _ kids, of ] C obtain T0 s0 where z:
    "replace_chain_loop bm [tblock ?c] [] (map tid [u]) None s2 = Inr (Some (tblock T0), s0)" "wf s0"
    "room s0 = room s2 - 1" "tkind T0 = tkind ?c" "kids T0 = kids ?c @ [u]" "stored (lookup s0) T0"
    "grown (lookup s2) [tid T0] (lookup s0)"
    using remove_ids_Nil by blast
  have g: "grown (lookup (store f)) [tid u, tid T0] (lookup s0)"
    using grown_trans [OF u(7) z(7)] by simp
  define K where "K = concat (map tids (kids ?c))"
  have T0ids: "tids T0 = tid T0 # K @ [tid u]" by (simp add: tids_eq [of T0] z(5) uids K_def)
  have cids: "tids ?c = tid ?c # K" unfolding K_def by (rule tids_eq)
  note fresh = grown_fresh [OF g]
  have new: "tid u \<notin> set (tids T)" "tid T0 \<notin> set (tids T)" "tid u \<noteq> tid T0"
    using fresh dom by auto
  have "distinct (tids ?c)" using C by blast
  then have K: "distinct K" "tid ?c \<notin> set K" "set K \<subseteq> set (tids T)"
    using csub unfolding cids by auto
  have d0: "distinct (tids T0)" unfolding T0ids using K(1,3) new by auto
  have T0set: "set (tids T0) = insert (tid T0) (insert (tid u) (set K))" unfolding T0ids by auto
  have cset: "set (tids ?c) = insert (tid ?c) (set K)" unfolding cids by simp
  have ctid: "tid ?c \<in> set (tids T)" using csub tid_in_tids [of ?c] by blast
  have cne: "tid ?c \<noteq> tid u" "tid ?c \<noteq> tid T0" using ctid new by metis+
  have c0: "set (tids T0) \<inter> (set (tids T) - set (tids ?c)) = {}"
    "set (tids T0) \<inter> insert (tid ?c) (set []) = {}"
    unfolding T0set list.set(1) using K(2) new cset cne cne [symmetric] by blast+
  have agree: "\<forall>i \<in> set (tids T) - set (tids ?c). lookup s0 i = lookup (store f) i"
    using grown_agree [OF g] dom by blast
  have cdom: "insert (tid ?c) (set []) \<subseteq> dom (lookup s0)"
    unfolding grown_dom [OF g] list.set(1) using dom ctid by blast
  have s0: "strip T0 = add_kid (FNode (KDir n st) []) (strip ?c)"
    by (simp add: strip_eq [of T0] z(4,5) add_kid_def ustrip)
  have same: "same_name (strip T0) (strip ?c)" by (simp add: same_name_def z(4))
  have "dir_names (map strip (kids ?c @ [u])) = dir_names (map strip (kids ?c)) @ [n]"
    by (simp add: dir_names_append ustrip)
  moreover have "distinct (dir_names (map strip (kids ?c)))" "\<forall>k \<in> set (kids ?c). fshape (strip k)"
    using C fshape_names [of "strip ?c"] fshape_kid [of ?c] by auto
  moreover have "n \<notin> set (dir_names (map strip (kids ?c)))" using name by (simp add: ffind_None_iff)
  moreover have "\<exists>m st'. tkind ?c = KDir m st'" using C by (cases "tkind ?c") auto
  ultimately have shape: "fshape (strip T0)"
    by (auto simp: strip_eq [of T0] z(4,5) ustrip simp del: map_append)
  have len: "length cs \<le> room s0" using C z(3) u(3) room by simp
  have b0: "get_id (tblock ?c) = tid ?c" and X0: "set [] \<subseteq> set (tids ?c)" "distinct [tid ?c]"
    by simp_all
  obtain T' s' f2 f3 new where r:
    "replace_chain bm (rev (map tblock (butlast (T # cs)) @ [tblock ?c])) [] (map tid [u]) s2 =
       Inr (Some (tblock T'), s')"
    "set_root_block vm (Some (tblock T')) (f1\<lparr>store := s'\<rparr>) = Inr f2"
    "\<forall>bs. map get_id bs = map tid (T # cs) @ [] \<longrightarrow> free_blocks vm bs f2 = Inr f3"
    "tree_state lookup wf T' f3" "strip T' = fupdate ps (\<lambda>_. strip T0) (strip T)"
    "dev f3 = dev f" "errno f3 = errno f1" "keeps f3 = keeps f1"
    "room (store f3) = room s0 - length cs" "grown (lookup s0) new (lookup s')"
    "lookup (store f3) = (if keeps f1 then lookup s' else lookup s' |` (- set (map tid (T # cs) @ [])))"
    "set (tids T') = (set (tids T) - set (tids ?c) - set (map tid (butlast (T # cs)))) \<union>
       set (tids T0) \<union> set new"
    using finish_update [OF T walk z(1) b0 z(2,6) d0 agree c0 X0 cdom len shape same f1(2)] by blast
  have path: "map tblock (T # cs) = map tblock (butlast (T # cs)) @ [tblock ?c]"
    by (metis append_butlast_last_id list.distinct(1) list.simps(8,9) map_append)
  have pathids: "set (map tid (T # cs)) = insert (tid ?c) (set (map tid (butlast (T # cs))))"
    using arg_cong [OF path, of "\<lambda>bs. set (map get_id bs)"] by (simp add: comp_def)
  have "map get_id (map tblock (T # cs)) = map tid (T # cs) @ []" by simp
  with r(3) have fr: "free_blocks vm (map tblock (T # cs)) f2 = Inr f3" by blast
  have le: "lookup (store f) \<subseteq>\<^sub>m lookup s'"
    using grown_map_le [OF g] grown_map_le [OF r(10)] by (rule map_le_trans)
  have garbage: "no_garbage lookup T' f3" if ng: "no_garbage lookup T f" "\<not> keeps f1"
  proof -
    have "dom (lookup s') = set (tids T) \<union> {tid u, tid T0} \<union> set new"
      using grown_dom [OF g] grown_dom [OF r(10)] ng(1) by (auto simp: no_garbage_def)
    then have "dom (lookup (store f3)) = (set (tids T) \<union> {tid u, tid T0} \<union> set new) -
        insert (tid ?c) (set (map tid (butlast (T # cs))))"
      using r(11) ng(2) pathids by auto
    moreover have "set new \<inter> insert (tid ?c) (set (map tid (butlast (T # cs)))) = {}"
    proof -
      have "set (map tid (butlast (T # cs))) \<subseteq> set (tids T)"
        using bwalk_path_ids [OF walk TT(3)] by blast
      then have "insert (tid ?c) (set (map tid (butlast (T # cs)))) \<subseteq> dom (lookup s0)"
        using csub tid_in_tids [of ?c] dom grown_dom [OF g] by blast
      then show ?thesis using grown_fresh [OF r(10)] by blast
    qed
    moreover have "set (map tid (butlast (T # cs))) \<subseteq> set (tids T) - set (tids ?c)"
      using bwalk_path_ids [OF walk TT(3)] by blast
    moreover have "set K \<subseteq> set (tids ?c)" "set (tids T) \<inter> {tid u, tid T0} = {}"
      "insert (tid ?c) (set (map tid (butlast (T # cs)))) =
         set (map tid (butlast (T # cs))) \<union> (set (tids ?c) - set K)"
      using K(2) cset new by auto
    ultimately have "dom (lookup (store f3)) = (set (tids T) - set (tids ?c) -
        set (map tid (butlast (T # cs)))) \<union> ({tid u, tid T0} \<union> set K) \<union> set new"
      using garbage_sets [OF _ _ _ csub, of "{tid u, tid T0}" "set new" _ "set K"] by metis
    then show ?thesis unfolding no_garbage_def r(12) T0set by auto
  qed
  have room3: "room (store f3) = room (store f) - (length ps + 2)"
    using r(9) z(3) u(3) C by simp
  show ?thesis
    using u(1) r(1,2) fr r(4-8) le r(11) garbage room3 f1(1) s0 fupdate_at [OF walk]
    unfolding path
    by (intro exI [of _ "tblock u"] exI [of _ s2] exI [of _ T'] exI [of _ s'] exI [of _ f2] exI [of _ f3])
       simp
qed

lemma steps_to_errno:
  "tree_state lookup wf T f \<Longrightarrow>
     steps_to lookup wf room keeps n T f ((abs_fs T f)\<lparr>fs_errno := e\<rparr>) (f\<lparr>errno := e\<rparr>)"
  unfolding steps_to_def by (intro exI [of _ T]) (simp add: keeps_errno abs_fs_def)

lemma walk_cast:
  assumes "tree_state lookup wf T f" and "bwalk ps T = Some cs"
  shows "\<exists>n st. tkind (last (T # cs)) = KDir n st \<and>
     try_cast_dir_file (tblock (last (T # cs))) =
       Some \<lparr>df_name = n, df_stat = st, df_children = map tid (kids (last (T # cs)))\<rparr>"
proof -
  have "is_dir_file (tkind (last (T # cs)))"
    using bwalk_last [OF assms(2) tree_stateD(2-4,7) [OF assms(1)]] by blast
  then show ?thesis by (cases "tkind (last (T # cs))") (simp_all add: try_cast_tblock)
qed

lemma getattr_refines:
  assumes "tree_state lookup wf T f" and "path \<noteq> []" and "fheight (strip T) \<le> fuel"
  shows "\<exists>f'. getattr fuel bm path stbuf f =
       Inr (fst (spec_getattr path stbuf (abs_fs T f)), f') \<and>
     f' = (if bwalk (fs_parts path) T = None then f\<lparr>errno := ENOENT\<rparr> else f) \<and>
     steps_to lookup wf room keeps 0 T f (snd (spec_getattr path stbuf (abs_fs T f))) f'"
proof (cases "bwalk (fs_parts path) T")
  case None
  then show ?thesis
    using steps_to_errno [OF assms(1)]
    by (simp add: getattr_def resolve_tree [OF assms] set_no_such_file_or_dir_def spec_getattr_def
        flookup_strip)
next
  case (Some cs)
  with walk_cast [OF assms(1) Some] steps_to_refl [OF assms(1), of room keeps 0] show ?thesis
    by (auto simp: getattr_def resolve_tree [OF assms] spec_getattr_def flookup_strip node_stat_def)
qed

lemma mkdir_refines:
  assumes T: "tree_state lookup wf T f" and path: "fuse_path path"
    and fuel: "fheight (strip T) \<le> fuel" and room: "length (fs_parts path) + 1 \<le> room (store f)"
  shows "\<exists>f'. mkdir fuel bm vm env path m f = Inr (fst (spec_mkdir env path m (abs_fs T f)), f') \<and>
     steps_to lookup wf room keeps (length (fs_parts path) + 1) T f
       (snd (spec_mkdir env path m (abs_fs T f))) f' \<and>
     (keeps f \<longrightarrow> lookup (store f) \<subseteq>\<^sub>m lookup (store f'))"
proof -
  let ?ps = "fs_parts path"
  let ?f1 = "f\<lparr>errno := ENOENT\<rparr>"
  have ne: "path \<noteq> []" using path by (simp add: fuse_path_def)
  obtain f0 where ga: "getattr fuel bm path local_stbuf f =
       Inr (fst (spec_getattr path local_stbuf (abs_fs T f)), f0)"
     "f0 = (if bwalk ?ps T = None then ?f1 else f)"
    using getattr_refines [OF T ne fuel] by blast
  show ?thesis
  proof (cases "bwalk ?ps T")
    case (Some cs)
    then have "mkdir fuel bm vm env path m f = Inr (1, f)"
      using ga walk_cast [OF T Some]
      by (auto simp: mkdir_def mkdir_valid_def separate_fs_parts [OF ne] spec_getattr_def
          flookup_strip node_stat_def)
    with Some steps_to_refl [OF T] show ?thesis by (simp add: spec_mkdir_def flookup_strip)
  next
    case None
    then have ps: "?ps \<noteq> []" by auto
    with path obtain parent where parent: "join_paths (''/'' # butlast ?ps) = Inr parent"
      "parent \<noteq> []" "fs_parts parent = butlast ?ps"
      using parent_path fs_parts_Nil by metis
    have T1: "tree_state lookup wf T ?f1" using T by simp
    have valid: "mkdir_valid fuel bm path f =
        (case bwalk (butlast ?ps) T of
           None \<Rightarrow> Inr ((False, [], last ?ps), ?f1)
         | Some cs \<Rightarrow> Inr ((True, map tblock (T # cs), last ?ps), ?f1))"
    proof (cases "bwalk (butlast ?ps) T")
      case n: None
      with ga None ps parent(1,3) get_path_tree [OF T1 parent(2) fuel] show ?thesis
        by (simp add: mkdir_valid_def separate_fs_parts [OF ne] spec_getattr_def flookup_strip
            ENOENT_def)
    next
      case (Some cs)
      with ga None ps parent(1,3) get_path_tree [OF T1 parent(2) fuel] walk_cast [OF T Some]
      show ?thesis
        by (auto simp: mkdir_valid_def separate_fs_parts [OF ne] spec_getattr_def flookup_strip
            ENOENT_def last_map)
    qed
    show ?thesis
    proof (cases "bwalk (butlast ?ps) T")
      case n: None
      then have "mkdir fuel bm vm env path m f = Inr (1, ?f1)" by (simp add: mkdir_def valid)
      moreover have "spec_mkdir env path m (abs_fs T f) = (1, (abs_fs T f)\<lparr>fs_errno := ENOENT\<rparr>)"
        using None n by (simp add: spec_mkdir_def flookup_strip)
      ultimately show ?thesis using steps_to_errno [OF T] by simp
    next
      case (Some cs)
      let ?st = "new_stat env (mkdir_mode m) 1"
      have "flookup (butlast ?ps @ [last ?ps]) (strip T) = None"
        using None ps by (simp add: flookup_strip)
      then have name: "ffind (last ?ps) (map strip (kids (last (T # cs)))) = None"
        using bwalk_lookup [OF Some] by (simp add: flookup_append del: last.simps split: option.splits)
      have "length (butlast ?ps) + 2 \<le> room (store f)" using room ps by simp
      moreover have "store ?f1 = store f" "dev ?f1 = dev f" by simp_all
      moreover note insert_child [OF T Some name, of ?f1 ?st]
      ultimately
      obtain b s2 T' s' f2 f3 where r:
        "bm_create bm (DirFileBlockData \<lparr>df_name = last ?ps, df_stat = ?st, df_children = []\<rparr>)
           (store ?f1) = Inr (b, s2)"
        "replace_chain bm (rev (map tblock (T # cs))) [] [get_id b] s2 = Inr (Some (tblock T'), s')"
        "set_root_block vm (Some (tblock T')) (?f1\<lparr>store := s'\<rparr>) = Inr f2"
        "free_blocks vm (map tblock (T # cs)) f2 = Inr f3" "tree_state lookup wf T' f3"
        "strip T' = fupdate (butlast ?ps) (add_kid (FNode (KDir (last ?ps) ?st) [])) (strip T)"
        "dev f3 = dev f" "errno f3 = errno ?f1" "keeps f3 = keeps ?f1"
        "room (store f3) = room (store f) - (length (butlast ?ps) + 2)"
        "no_garbage lookup T f \<and> \<not> keeps ?f1 \<longrightarrow> no_garbage lookup T' f3"
        "keeps ?f1 \<longrightarrow> lookup (store f) \<subseteq>\<^sub>m lookup (store f3)"
        by blast
      have "mkdir fuel bm vm env path m f = Inr (0, f3)"
        using r(1-4) Some unfolding mkdir_def valid
        by (simp add: Mode_of_mkdir Let_def new_stat_def del: free_blocks.simps list.map rev.simps)
      moreover have "spec_mkdir env path m (abs_fs T f) = (0, (abs_fs T f)\<lparr>fs_errno := ENOENT,
          fs_tree := fupdate (butlast ?ps) (add_kid (FNode (KDir (last ?ps) ?st) [])) (strip T)\<rparr>)"
        using None Some by (simp add: spec_mkdir_def flookup_strip Let_def)
      moreover have "steps_to lookup wf room keeps (length ?ps + 1) T f ((abs_fs T f)\<lparr>fs_errno := ENOENT,
          fs_tree := fupdate (butlast ?ps) (add_kid (FNode (KDir (last ?ps) ?st) [])) (strip T)\<rparr>) f3"
        unfolding steps_to_def
        by (intro exI [of _ T']) (use r ps in \<open>simp add: keeps_errno abs_fs_def\<close>)
      ultimately show ?thesis using r(12) by (simp add: keeps_errno)
    qed
  qed
qed

lemma create_refines:
  assumes T: "tree_state lookup wf T f" and path: "fuse_path path"
    and fuel: "fheight (strip T) < fuel" and room: "length (fs_parts path) + 1 \<le> room (store f)"
    and md: "Mode_of_mode_t m = Inr md"
  shows "\<exists>f'. create fuel bm vm env path m f = Inr (fst (spec_create env path md (abs_fs T f)), f') \<and>
     steps_to lookup wf room keeps (length (fs_parts path) + 1) T f
       (snd (spec_create env path md (abs_fs T f))) f' \<and>
     (keeps f \<longrightarrow> lookup (store f) \<subseteq>\<^sub>m lookup (store f'))"
proof -
  let ?ps = "fs_parts path"
  have ne: "path \<noteq> []" using path by (simp add: fuse_path_def)
  note get = get_path_tree [OF T ne less_imp_le [OF fuel]]
  show ?thesis
  proof (cases "bwalk ?ps T")
    case (Some cs)
    then have "create fuel bm vm env path m f = Inr (- EEXIST, f\<lparr>errno := EEXIST\<rparr>)"
      by (simp add: create_def get set_file_exists_def)
    with Some steps_to_errno [OF T] show ?thesis by (simp add: spec_create_def flookup_strip)
  next
    case None
    then have ps: "?ps \<noteq> []" by auto
    with path obtain parent where parent: "join_paths (''/'' # butlast ?ps) = Inr parent"
      "parent \<noteq> []" "fs_parts parent = butlast ?ps"
      using parent_path fs_parts_Nil by metis
    note getp = get_path_tree [OF T parent(2) less_imp_le [OF fuel]]
    show ?thesis
    proof (cases "bwalk (butlast ?ps) T")
      case n: None
      then have "create fuel bm vm env path m f = Inr (- ENOENT, f\<lparr>errno := ENOENT\<rparr>)"
        using None ps by (simp add: create_def create_file_block_def get getp md parent(1,3)
            separate_fs_parts [OF ne] set_no_such_file_or_dir_def)
      with None n steps_to_errno [OF T] show ?thesis
        by (simp add: spec_create_def flookup_strip)
    next
      case (Some cs)
      let ?st = "new_stat env md 0"
      let ?new = "FNode (KDir (last ?ps) ?st) []"
      have "flookup (butlast ?ps @ [last ?ps]) (strip T) = None"
        using None ps by (simp add: flookup_strip)
      then have name: "ffind (last ?ps) (map strip (kids (last (T # cs)))) = None"
        using bwalk_lookup [OF Some] by (simp add: flookup_append del: last.simps split: option.splits)
      have "length (butlast ?ps) + 2 \<le> room (store f)" using room ps by simp
      from insert_child [OF T Some name this refl refl, of ?st]
      obtain b s2 T' s' f2 f3 where r:
        "bm_create bm (DirFileBlockData \<lparr>df_name = last ?ps, df_stat = ?st, df_children = []\<rparr>)
           (store f) = Inr (b, s2)"
        "replace_chain bm (rev (map tblock (T # cs))) [] [get_id b] s2 = Inr (Some (tblock T'), s')"
        "set_root_block vm (Some (tblock T')) (f\<lparr>store := s'\<rparr>) = Inr f2"
        "free_blocks vm (map tblock (T # cs)) f2 = Inr f3" "tree_state lookup wf T' f3"
        "strip T' = fupdate (butlast ?ps) (add_kid ?new) (strip T)"
        "dev f3 = dev f" "errno f3 = errno f" "keeps f3 = keeps f"
        "room (store f3) = room (store f) - (length (butlast ?ps) + 2)"
        "no_garbage lookup T f \<and> \<not> keeps f \<longrightarrow> no_garbage lookup T' f3"
        "keeps f \<longrightarrow> lookup (store f) \<subseteq>\<^sub>m lookup (store f3)"
        by blast
      note TT = tree_stateD [OF T]
      have "fheight (strip T') \<le> fheight (strip T) + 1"
        unfolding r(6) by (rule fheight_fupdate [OF bwalk_lookup [OF Some]])
          (use fheight_add_kid [of ?new] in simp)
      then have fuel': "fheight (strip T') \<le> fuel" using fuel by simp
      have "flookup (butlast ?ps @ [last ?ps]) (strip T') =
          flookup [last ?ps] (add_kid ?new (strip (last (T # cs))))"
        unfolding r(6) by (rule flookup_updated [OF TT(4) _ bwalk_lookup [OF Some]])
          (use TT(7) in \<open>simp_all add: same_name_def add_kid_def\<close>)
      also have "\<dots> \<noteq> None"
      proof -
        have "ffind (last ?ps) [?new] = Some ?new" by (simp add: ffind_def)
        with name show ?thesis by (simp add: add_kid_def ffind_append del: last.simps)
      qed
      finally have found: "bwalk ?ps T' \<noteq> None"
        using ps by (simp add: flookup_strip)
      have "create fuel bm vm env path m f = Inr (0, f3)"
        using r(1-4) Some None ps get_path_tree [OF r(5) ne fuel'] found
        by (auto simp: create_def create_file_block_def get getp md parent(1,3) gen_file_stat_def
            new_stat_def Let_def separate_fs_parts [OF ne]
            simp del: free_blocks.simps list.map rev.simps split: option.splits)
      moreover have "spec_create env path md (abs_fs T f) = (0, (abs_fs T f)\<lparr>
          fs_tree := fupdate (butlast ?ps) (add_kid ?new) (strip T)\<rparr>)"
        using None Some by (simp add: spec_create_def flookup_strip Let_def)
      moreover have "steps_to lookup wf room keeps (length ?ps + 1) T f ((abs_fs T f)\<lparr>
          fs_tree := fupdate (butlast ?ps) (add_kid ?new) (strip T)\<rparr>) f3"
        unfolding steps_to_def
        by (intro exI [of _ T']) (use r ps in \<open>simp add: abs_fs_def\<close>)
      ultimately show ?thesis using r(12) by simp
    qed
  qed
qed

end

end
