(* ===== verification/FsRemove.thy ===== *)
theory FsRemove
  imports FsCreate
begin

text \<open>
  \<open>rmdir\<close> meets its specification: the node at the path leaves its parent, every block above it
  is rebuilt on a fresh id, and the blocks of the old path and of the removed subtree are unbound.
\<close>

lemma bwalk_snoc:
  "bwalk (ps @ [p]) t = Some cs \<Longrightarrow>
     \<exists>ds d. cs = ds @ [d] \<and> bwalk ps t = Some ds \<and> bfind p (last (t # ds)) = Some d"
proof (induction ps arbitrary: t cs)
  case Nil
  then show ?case by (auto split: option.splits)
next
  case (Cons q ps)
  then obtain c cs' where c: "bfind q t = Some c" "bwalk (ps @ [p]) c = Some cs'" "cs = c # cs'"
    by (auto split: option.splits)
  from Cons.IH [OF c(2)] obtain ds d where
    "cs' = ds @ [d]" "bwalk ps c = Some ds" "bfind p (last (c # ds)) = Some d"
    by blast
  with c show ?case by (intro exI [of _ "c # ds"] exI [of _ d]) simp
qed

lemma strip_remove_kid:
  assumes "bfind p c = Some d"
  shows "FNode (tkind c) (map strip (remove_first (\<lambda>u. kind_named p (tkind u)) (kids c))) =
    remove_kid p (strip c)"
  by (simp add: remove_kid_def map_remove_first [where f = strip and p = "\<lambda>t. kind_named p (fkind t)", simplified])

lemma remove_kid_shape: "fshape t \<Longrightarrow> is_dir_file (fkind t) \<Longrightarrow> fshape (remove_kid p t)"
proof -
  assume t: "fshape t" "is_dir_file (fkind t)"
  obtain n st ts where eq: "t = FNode (KDir n st) ts" using t(2) by (cases t; cases "fkind t") auto
  let ?kept = "remove_first (\<lambda>c. kind_named p (fkind c)) ts"
  have "distinct (dir_names ?kept)"
  proof (cases "ffind p ts")
    case None
    then have "?kept = ts" by (induction ts) (auto simp: ffind_def split: if_splits)
    with t eq show ?thesis by simp
  next
    case (Some c)
    have "mset (dir_names ts) = mset (p # dir_names ?kept)" using dir_names_remove [OF Some] by simp
    from distinct_mset_eq [OF this] t eq show ?thesis by simp
  qed
  moreover have "\<forall>u \<in> set ?kept. fshape u"
    using t eq set_remove_first [of "\<lambda>c. kind_named p (fkind c)" ts] by auto
  ultimately show ?thesis by (simp add: remove_kid_def eq)
qed

lemma garbage_sets_remove:
  "E \<inter> A = {} \<Longrightarrow> N \<inter> (A \<union> E) = {} \<Longrightarrow> K \<union> D \<subseteq> C \<Longrightarrow> C \<subseteq> A \<Longrightarrow> P \<subseteq> A - C \<Longrightarrow> c \<in> C - (K \<union> D) \<Longrightarrow>
     C = insert c (K \<union> D) \<Longrightarrow> K \<inter> D = {} \<Longrightarrow> d \<in> D \<Longrightarrow>
     (A \<union> E \<union> N) - (insert c P \<union> {d}) - (D - {d}) = (A - C - P) \<union> (E \<union> K) \<union> N"
  by auto

context block_fuse_ops
begin

lemma rmdir_refines:
  assumes T: "tree_state lookup wf T f" and ne: "path \<noteq> []"
    and fuel: "fheight (strip T) \<le> fuel" and room: "length (fs_parts path) \<le> room (store f)"
  shows "\<exists>f'. rmdir fuel bm vm path f = Inr (fst (spec_rmdir path (abs_fs T f)), f') \<and>
     steps_to lookup wf room keeps (length (fs_parts path)) T f
       (snd (spec_rmdir path (abs_fs T f))) f'"
proof -
  let ?ps = "fs_parts path"
  note TT = tree_stateD [OF T]
  note get = get_path_tree [OF T ne fuel]
  show ?thesis
  proof (cases "bwalk ?ps T = None \<or> ?ps = []")
    case True
    then have "rmdir fuel bm vm path f = Inr (1, f)" by (auto simp: rmdir_def get)
    with True steps_to_refl [OF T] show ?thesis by (auto simp: spec_rmdir_def flookup_strip Let_def)
  next
    case False
    then obtain cs' where "bwalk (butlast ?ps @ [last ?ps]) T = Some cs'" "?ps \<noteq> []" by auto
    from bwalk_snoc [OF this(1)] this obtain cs d where w:
      "bwalk ?ps T = Some (cs @ [d])" "bwalk (butlast ?ps) T = Some cs"
      "bfind (last ?ps) (last (T # cs)) = Some d" "?ps \<noteq> []"
      by auto
    let ?P = "\<lambda>u. kind_named (last ?ps) (tkind u)"
    define c where "c = last (T # cs)"
    define kept where "kept = remove_first ?P (kids c)"
    define Kp where "Kp = concat (map tids kept)"
    define Dd where "Dd = concat (map tids (kids d))"
    note C = bwalk_last [OF w(2) TT(2,3,4,7), folded c_def]
    have find: "find ?P (kids c) = Some d" using w(3) by (simp add: bfind_def c_def)
    have dk: "d \<in> set (kids c)" "?P d" using find_Some_in [OF find] by auto
    have csub: "set (tids c) \<subseteq> set (tids T)" unfolding c_def by (rule bwalk_last_ids [OF w(2)])
    have dom: "set (tids T) \<subseteq> dom (lookup (store f))" by (rule stored_dom [OF TT(2)])
    have cids: "tids c = tid c # concat (map tids (kids c))" by (rule tids_eq)
    have dids: "tids d = tid d # Dd" unfolding Dd_def by (rule tids_eq)
    have dc: "distinct (concat (map tids (kids c)))" "tid c \<notin> set (concat (map tids (kids c)))"
      using C unfolding cids by simp_all
    have part: "mset (concat (map tids (kids c))) = mset (tids d @ Kp)"
      using concat_remove_first [OF find, of tids] by (simp add: Kp_def kept_def)
    have K: "distinct Kp" "set Kp \<inter> set (tids d) = {}"
      "set (tids c) = insert (tid c) (set Kp \<union> set (tids d))" "tid c \<notin> set Kp \<union> set (tids d)"
      "distinct (tids d)"
      using distinct_mset_eq [OF part] mset_eq_setD [OF part] dc unfolding cids by auto
    \<comment> \<open>The parent is rebuilt without the child.\<close>
    have rm: "remove_ids (map tid (kids c)) [tid d] = Inr (map tid kept)"
      unfolding kept_def by (rule remove_ids_kid [OF find distinct_kid_ids [OF dc(1)]])
    have kept_sub: "set kept \<subseteq> set (kids c)" unfolding kept_def by (rule set_remove_first)
    have kst: "\<forall>u \<in> set (kept @ []). stored (lookup (store f)) u"
      using C stored_kid kept_sub by (metis append_Nil2 subsetD)
    have lps: "length (butlast ?ps) + 1 = length ?ps" using w(4) by simp
    then have r0: "0 < room (store f)" using room by linarith
    obtain T0 s0 where z:
      "replace_chain_loop bm [tblock c] [tid d] (map tid []) None (store f) = Inr (Some (tblock T0), s0)"
      "wf s0" "room s0 = room (store f) - 1" "tkind T0 = tkind c" "kids T0 = kept @ []"
      "stored (lookup s0) T0" "grown (lookup (store f)) [tid T0] (lookup s0)"
      using base_replace [OF TT(1) r0 _ rm kst] C by blast
    have T0ids: "tids T0 = tid T0 # Kp" by (simp add: tids_eq [of T0] z(5) Kp_def)
    have fresh: "tid T0 \<notin> set (tids T)" using grown_fresh [OF z(7)] dom by auto
    then have d0: "distinct (tids T0)" unfolding T0ids using K(1,3) csub by auto
    have ctid: "tid c \<in> set (tids T)" "tid d \<in> set (tids T)" "tid c \<noteq> tid T0" "tid d \<noteq> tid T0"
    proof -
      show c: "tid c \<in> set (tids T)" and d: "tid d \<in> set (tids T)"
        using csub K(3) tid_in_tids [of d] by blast+
      show "tid c \<noteq> tid T0" "tid d \<noteq> tid T0" using c d fresh by metis+
    qed
    have c0: "set (tids T0) \<inter> (set (tids T) - set (tids c)) = {}"
      "set (tids T0) \<inter> insert (tid c) (set [tid d]) = {}"
      unfolding T0ids list.set using fresh K(2,3,4) ctid ctid(3,4) [symmetric] dids by auto
    have agree: "\<forall>i \<in> set (tids T) - set (tids c). lookup s0 i = lookup (store f) i"
      using grown_agree [OF z(7)] dom by blast
    have "tid c \<noteq> tid d" using K(4) dids by auto
    then have X: "set [tid d] \<subseteq> set (tids c)" "distinct [tid c, tid d]" "insert (tid c) (set [tid d]) \<subseteq> dom (lookup s0)"
      using K(3) tid_in_tids [of d] ctid dom grown_dom [OF z(7)] by auto
    have s0: "strip T0 = remove_kid (last ?ps) (strip c)"
      using strip_remove_kid [OF w(3) [folded c_def]] by (simp add: strip_eq [of T0] z(4,5) kept_def)
    have shape: "fshape (strip T0)" unfolding s0 using C by (intro remove_kid_shape) auto
    have same: "same_name (strip T0) (strip c)" by (simp add: same_name_def z(4))
    have len: "length cs \<le> room s0" and lencs: "length cs = length (butlast ?ps)"
      using bwalk_last [OF w(2) TT(2,3,4,7)] z(3) room lps by simp_all
    have b0: "get_id (tblock c) = tid c" by simp
    obtain T' s' f2 f3 new where r:
      "replace_chain bm (rev (map tblock (butlast (T # cs)) @ [tblock c])) [tid d] (map tid []) (store f) =
         Inr (Some (tblock T'), s')"
      "set_root_block vm (Some (tblock T')) (f\<lparr>store := s'\<rparr>) = Inr f2"
      "\<forall>bs. map get_id bs = map tid (T # cs) @ [tid d] \<longrightarrow> free_blocks vm bs f2 = Inr f3"
      "tree_state lookup wf T' f3" "strip T' = fupdate (butlast ?ps) (\<lambda>_. strip T0) (strip T)"
      "dev f3 = dev f" "errno f3 = errno f" "keeps f3 = keeps f"
      "room (store f3) = room s0 - length cs" "grown (lookup s0) new (lookup s')"
      "lookup (store f3) = (if keeps f then lookup s'
         else lookup s' |` (- set (map tid (T # cs) @ [tid d])))"
      "set (tids T') = (set (tids T) - set (tids c) - set (map tid (butlast (T # cs)))) \<union>
         set (tids T0) \<union> set new"
      using finish_update [OF T w(2), folded c_def, OF z(1) b0 z(2,6) d0 agree c0 X len shape same refl]
      by blast
    \<comment> \<open>The removed subtree is freed.\<close>
    define P where "P = set (map tid (butlast (T # cs)))"
    have split: "T # cs = butlast (T # cs) @ [c]" by (simp add: c_def)
    have path: "map tblock (T # cs) = map tblock (butlast (T # cs)) @ [tblock c]"
      "set (map tid (T # cs)) = insert (tid c) P"
    proof -
      show "map tblock (T # cs) = map tblock (butlast (T # cs)) @ [tblock c]"
        using arg_cong [OF split, of "map tblock"] by (simp only: map_append list.map)
      have "map tid (T # cs) = map tid (butlast (T # cs)) @ [tid c]"
        using arg_cong [OF split, of "map tid"] by (simp only: map_append list.map)
      then show "set (map tid (T # cs)) = insert (tid c) P"
        unfolding P_def by (simp only: set_append list.set) blast
    qed
    have Psub: "P \<subseteq> set (tids T) - set (tids c)"
      using bwalk_path_ids [OF w(2) TT(3)] unfolding P_def c_def by blast
    have new: "set new \<inter> (set (tids T) \<union> {tid T0}) = {}"
      using grown_fresh [OF r(10)] grown_dom [OF z(7)] dom by auto
    have T'set: "set (tids T') = (set (tids T) - set (tids c) - P) \<union> ({tid T0} \<union> set Kp) \<union> set new"
      unfolding r(12) T0ids P_def by auto
    have Dsub: "set Dd \<subseteq> set (tids c)" "tid d \<notin> set Dd" using K(3,5) unfolding dids by auto
    have dkids: "\<forall>u \<in> set (kids d). stored (lookup (store f3)) u"
    proof
      fix u
      assume u: "u \<in> set (kids d)"
      have "stored (lookup (store f)) d" using C stored_kid dk(1) by blast
      then have "stored (lookup (store f)) u" using u stored_kid by blast
      then have st: "stored (lookup s') u"
        using grown_stored [OF r(10)] grown_stored [OF z(7)] by blast
      have "set (tids u) \<subseteq> set Dd" using u by (auto simp: Dd_def)
      moreover have "set Dd \<inter> set (map tid (T # cs) @ [tid d]) = {}"
      proof -
        have "tid c \<notin> set Dd" using K(4) dids by simp
        then show ?thesis unfolding set_append path(2) list.set using Psub Dsub by blast
      qed
      ultimately have "set (tids u) \<inter> set (map tid (T # cs) @ [tid d]) = {}" by blast
      with st show "stored (lookup (store f3)) u"
        unfolding r(11) by (simp only: stored_restrict split: if_split) blast
    qed
    have d: "fshape (strip d)" "fheight (strip d) \<le> fuel"
      using bwalk_last [OF w(1) TT(2,3,4,7)] fuel by simp_all
    have "distinct Dd" using K(5) dids by simp
    from recursive_free_tree [OF tree_stateD(1) [OF r(4)] dkids this [unfolded Dd_def] d]
    obtain s4 where s4: "recursive_free_children_blocks fuel bm (tblock d) (store f3) = Inr s4" "wf s4"
      "room s4 = room (store f3)" "lookup s4 = lookup (store f3) |` (- set Dd)"
      unfolding Dd_def by blast
    let ?f' = "f3\<lparr>store := s4\<rparr>"
    have "set (tids T') \<inter> set Dd = {}"
      unfolding T'set using Dsub(1) csub K(2) dids new fresh by auto
    then have st4: "stored (lookup s4) T'"
      unfolding s4(4) by (rule stored_restrict [OF tree_stateD(2) [OF r(4)]])
    have ts: "tree_state lookup wf T' ?f'"
      using r(4) st4 s4(2) by (simp add: tree_state_def)
    have garbage: "no_garbage lookup T' ?f'" if ng: "no_garbage lookup T f" "\<not> keeps f"
    proof -
      have "dom (lookup s4) = (set (tids T) \<union> {tid T0} \<union> set new) - (insert (tid c) P \<union> {tid d}) - set Dd"
        unfolding s4(4) r(11) using ng(2) grown_dom [OF r(10)] grown_dom [OF z(7)] ng(1) path(2)
        by (auto simp: no_garbage_def)
      moreover have "set Dd = set (tids d) - {tid d}" using Dsub(2) dids by auto
      moreover have "(set (tids T) \<union> {tid T0} \<union> set new) - (insert (tid c) P \<union> {tid d}) - (set (tids d) - {tid d}) =
          set (tids T')"
        unfolding T'set by (rule garbage_sets_remove) (use fresh new csub Psub K in auto)
      ultimately show ?thesis by (simp add: no_garbage_def)
    qed
    have blocks: "map tblock (T # cs @ [d]) \<noteq> []" "length (map tblock (T # cs @ [d])) = length cs + 2"
      "last (map tblock (T # cs @ [d])) = tblock d"
      "map tblock (T # cs @ [d]) ! length cs = tblock c"
      "map tblock (T # cs @ [d]) ! Suc (length cs) = tblock d"
      "drop (Suc 0) (rev (map tblock (T # cs @ [d]))) = rev (map tblock (T # cs))"
      by (simp_all add: c_def last_conv_nth nth_append nth_Cons')
    have "try_cast_link (tblock c) = None" using C by (cases "tkind c") (simp_all add: try_cast_tblock)
    then have "last_dir_file_loop (map tblock (T # cs @ [d])) (length cs) = Inr (length cs)"
      using blocks(4) by (cases "length cs") simp_all
    moreover have "map get_id (map tblock (T # cs @ [d])) = map tid (T # cs) @ [tid d]" by simp
    with r(3) have "free_blocks vm (map tblock (T # cs @ [d])) f2 = Inr f3" by blast
    moreover have "replace_chain bm (rev (map tblock (T # cs))) [tid d] [] (store f) =
        Inr (Some (tblock T'), s')"
      unfolding path(1) using r(1) unfolding list.map(1) .
    ultimately have run: "rmdir fuel bm vm path f = Inr (0, ?f')"
      using w(1) r(2) s4(1) blocks unfolding rmdir_def get
      by (simp add: Let_def del: list.map free_blocks.simps last_dir_file_loop.simps butlast.simps)
    have tree: "strip T' = fupdate (butlast ?ps) (remove_kid (last ?ps)) (strip T)"
      unfolding r(5) s0 c_def by (rule fupdate_at [OF w(2), symmetric])
    have "spec_rmdir path (abs_fs T f) = (0, (abs_fs T f)\<lparr>fs_tree := strip T'\<rparr>)"
      using False by (simp add: spec_rmdir_def flookup_strip Let_def tree)
    moreover have "steps_to lookup wf room keeps (length ?ps) T f ((abs_fs T f)\<lparr>fs_tree := strip T'\<rparr>) ?f'"
      unfolding steps_to_def
      by (intro exI [of _ T']) (use ts garbage r(6-9) s4(3) z(3) lencs lps in
          \<open>simp add: abs_fs_def keeps_store\<close>)
    ultimately show ?thesis using run by simp
  qed
qed

end

end
