(* ===== verification/FsWrite.thy ===== *)
theory FsWrite
  imports FsCreate
begin

text \<open>
  \<open>write\<close> meets its specification: the file's old blocks are freed, its new tree is built
  (\<open>FsBuild\<close>), and the chain above it is rebuilt with the new size and times.
\<close>

lemma remove_ids_all: "remove_ids xs xs = Inr []"
  by (induction xs) simp_all

lemma file_forest_node:
  assumes "fkind t = KDir n st"
  shows "fshape (written_file env contents t)" and "same_name (written_file env contents t) t"
proof -
  let ?ts = "file_forest (ceil_log env) BYTES_PER_BLOCK BRANCHING_FACTOR contents"
  have ts: "\<forall>u \<in> set ?ts. is_block_tree u" by (rule file_forest_shape)
  then have "\<forall>u \<in> set ?ts. fshape u" by (simp add: is_block_tree_def)
  with no_dir_names [OF ts] show "fshape (written_file env contents t)"
    by (simp add: written_file_def assms)
  show "same_name (written_file env contents t) t"
    by (simp add: same_name_def written_file_def assms)
qed

lemma garbage_sets_write:
  "E \<inter> (A - (C - {c})) = {} \<Longrightarrow> N \<inter> ((A - (C - {c})) \<union> E) = {} \<Longrightarrow> C \<subseteq> A \<Longrightarrow> c \<in> C \<Longrightarrow> P \<subseteq> A - C \<Longrightarrow>
     ((A - (C - {c})) \<union> E \<union> N) - insert c P = (A - C - P) \<union> E \<union> N"
  by auto

lemma steps_to_mono:
  assumes "steps_to lookup ok room keeps m T f a' f'" and "m \<le> n"
  shows "steps_to lookup ok room keeps n T f a' f'"
proof -
  from assms(1) obtain T' where "tree_state lookup ok T' f' \<and> abs_fs T' f' = a' \<and> keeps f' = keeps f \<and>
      room (store f) \<le> room (store f') + m \<and>
      (no_garbage lookup T f \<and> \<not> keeps f \<longrightarrow> no_garbage lookup T' f')"
    unfolding steps_to_def by blast
  with assms(2) show ?thesis unfolding steps_to_def by (intro exI [of _ T']) simp
qed

definition write_cost :: "os_env \<Rightarrow> string \<Rightarrow> string \<Rightarrow> nat" where
  "write_cost env contents path =
     file_room (ceil_log env) BYTES_PER_BLOCK BRANCHING_FACTOR contents + length (fs_parts path) + 1"

context block_fuse_ops
begin

text \<open>The new tree of a file, the empty one included.\<close>

lemma build_file:
  assumes "wf s" and "blocks \<noteq> []"
    and "file_room depth_of BYTES_PER_BLOCK BRANCHING_FACTOR contents \<le> room s"
  shows "\<exists>us s'. (if contents \<noteq> []
       then replace_blocks_for_contents depth_of bm blocks contents [] BYTES_PER_BLOCK BRANCHING_FACTOR s
       else Inr ([], s)) = Inr (map tid us, s') \<and> wf s' \<and>
     room s' = room s - file_room depth_of BYTES_PER_BLOCK BRANCHING_FACTOR contents \<and>
     (\<forall>u \<in> set us. stored (lookup s') u) \<and>
     map strip us = file_forest depth_of BYTES_PER_BLOCK BRANCHING_FACTOR contents \<and>
     grown (lookup s) (concat (map tids us)) (lookup s')"
proof (cases "contents = []")
  case True
  with assms show ?thesis
    by (intro exI [of _ "[]"] exI [of _ s]) (simp add: file_room_def file_forest_def)
next
  case False
  have pos: "0 < BYTES_PER_BLOCK" "0 < BRANCHING_FACTOR"
    by (simp_all add: BYTES_PER_BLOCK_def BRANCHING_FACTOR_def)
  from build_tree [OF pos assms(1) False assms(2,3), of "[]"] False show ?thesis by simp
qed

lemma write_node:
  assumes T: "tree_state lookup wf T f" and walk: "bwalk ps T = Some cs"
    and fuel: "fheight (strip T) \<le> fuel"
    and room: "file_room (ceil_log env) BYTES_PER_BLOCK BRANCHING_FACTOR contents + length ps + 1
      \<le> room (store f)"
  shows "\<exists>s3 f'. recursive_free_children_blocks fuel bm (tblock (last (T # cs))) (store f) = Inr s3 \<and>
     write_file_starting_at_node fuel bm vm env (map tblock (T # cs)) contents (f\<lparr>store := s3\<rparr>) = Inr f' \<and>
     steps_to lookup wf room keeps
       (file_room (ceil_log env) BYTES_PER_BLOCK BRANCHING_FACTOR contents + length ps + 1) T f
       ((abs_fs T f)\<lparr>fs_tree := fupdate ps (written_file env contents) (strip T)\<rparr>) f'"
proof -
  define c where "c = last (T # cs)"
  note TT = tree_stateD [OF T]
  note C = bwalk_last [OF walk TT(2,3,4,7), folded c_def]
  obtain n st where k: "tkind c = KDir n st" using C by (cases "tkind c") auto
  define D where "D = concat (map tids (kids c))"
  have cids: "tids c = tid c # D" unfolding D_def by (rule tids_eq)
  have csub: "set (tids c) \<subseteq> set (tids T)" unfolding c_def by (rule bwalk_last_ids [OF walk])
  have dom: "set (tids T) \<subseteq> dom (lookup (store f))" by (rule stored_dom [OF TT(2)])
  have D: "distinct D" "tid c \<notin> set D" using C cids by simp_all
  \<comment> \<open>The old blocks of the file are freed.\<close>
  have "\<forall>u \<in> set (kids c). stored (lookup (store f)) u" using C stored_kid by blast
  moreover have "fheight (strip c) \<le> fuel" using C fuel by linarith
  ultimately obtain s3 where s3: "recursive_free_children_blocks fuel bm (tblock c) (store f) = Inr s3"
    "wf s3" "room s3 = room (store f)" "lookup s3 = lookup (store f) |` (- set D)"
    using recursive_free_tree [OF TT(1) _ D(1) [unfolded D_def]] C unfolding D_def by blast
  \<comment> \<open>The new tree is built.\<close>
  have "map tblock (T # cs) \<noteq> []" by simp
  from build_file [OF s3(2) this, of "ceil_log env" contents] room s3(3) obtain us s1 where us:
    "(if contents \<noteq> []
       then replace_blocks_for_contents (ceil_log env) bm (map tblock (T # cs)) contents []
              BYTES_PER_BLOCK BRANCHING_FACTOR s3
       else Inr ([], s3)) = Inr (map tid us, s1)" "wf s1"
    "room s1 = room s3 - file_room (ceil_log env) BYTES_PER_BLOCK BRANCHING_FACTOR contents"
    "\<forall>u \<in> set us. stored (lookup s1) u"
    "map strip us = file_forest (ceil_log env) BYTES_PER_BLOCK BRANCHING_FACTOR contents"
    "grown (lookup s3) (concat (map tids us)) (lookup s1)"
    by auto
  let ?U = "concat (map tids us)"
  \<comment> \<open>The file's block is replaced.\<close>
  let ?st = "stat_with_times st (word_of_nat (length contents)) (cur_time env) (cur_time env) (cur_time env)"
  define c' where "c' = Node (tid c) (KDir n ?st) (kids c)"
  have c': "tid c' = tid c" "kids c' = kids c" "tkind c' = KDir n ?st" by (simp_all add: c'_def)
  have r0: "0 < room s1" using us(3) s3(3) room by linarith
  have rm: "remove_ids (map tid (kids c')) (map tid (kids c)) = Inr (map tid [])"
    by (simp add: c'(2) remove_ids_all)
  obtain T0 s0 where z:
    "replace_chain_loop bm [tblock c'] (map tid (kids c)) (map tid us) None s1 = Inr (Some (tblock T0), s0)"
    "wf s0" "room s0 = room s1 - 1" "tkind T0 = KDir n ?st" "kids T0 = us"
    "stored (lookup s0) T0" "grown (lookup s1) [tid T0] (lookup s0)"
    using base_replace [OF us(2) r0 _ rm, of us] us(4) by (auto simp: c'(3))
  have g: "grown (lookup s3) (?U @ [tid T0]) (lookup s0)" by (rule grown_trans [OF us(6) z(7)])
  have T0ids: "tids T0 = tid T0 # ?U" by (simp add: tids_eq [of T0] z(5))
  have T0set: "set (tids T0) = set (?U @ [tid T0])" unfolding T0ids by auto
  have dom3: "set (tids T) - set D \<subseteq> dom (lookup s3)" unfolding s3(4) using dom by auto
  have fresh: "distinct (?U @ [tid T0])" "set (tids T0) \<inter> dom (lookup s3) = {}"
    unfolding T0set using grown_fresh [OF g] by blast+
  have d0: "distinct (tids T0)" unfolding T0ids using fresh(1) by simp
  have cset: "set (tids c) = insert (tid c) (set D)" unfolding cids by simp
  have ctid: "tid c \<in> set (tids T) - set D" using csub cset D(2) by blast
  have c0: "set (tids T0) \<inter> (set (tids T) - set (tids c)) = {}"
    "set (tids T0) \<inter> insert (tid c) (set []) = {}"
    using fresh(2) dom3 ctid cset by auto
  have agree: "\<forall>i \<in> set (tids T) - set (tids c). lookup s0 i = lookup (store f) i"
  proof
    fix i
    assume i: "i \<in> set (tids T) - set (tids c)"
    then have "i \<in> dom (lookup s3)" "i \<notin> set D" using dom3 cset by blast+
    with grown_agree [OF g] show "lookup s0 i = lookup (store f) i" by (simp add: s3(4))
  qed
  have X: "set [] \<subseteq> set (tids c)" "distinct [tid c]" "insert (tid c) (set []) \<subseteq> dom (lookup s0)"
    using ctid dom3 grown_dom [OF g] by auto
  have s0: "strip T0 = written_file env contents (strip c)"
    by (simp add: strip_eq [of T0] z(4,5) us(5) written_file_def k)
  have shape: "fshape (strip T0)" "same_name (strip T0) (strip c)"
    unfolding s0 using file_forest_node [of "strip c" n st] k by simp_all
  have lencs: "length cs = length ps" using C by blast
  then have len: "length cs \<le> room s0" using z(3) us(3) s3(3) room by linarith
  have b0: "get_id (tblock c') = tid c" by (simp add: c')
  have f1: "dev (f\<lparr>store := s3\<rparr>) = dev f" by simp
  obtain T' s' f2 f3 new where r:
    "replace_chain bm (rev (map tblock (butlast (T # cs)) @ [tblock c'])) (map tid (kids c)) (map tid us) s1 =
       Inr (Some (tblock T'), s')"
    "set_root_block vm (Some (tblock T')) (f\<lparr>store := s3\<rparr>\<lparr>store := s'\<rparr>) = Inr f2"
    "\<forall>bs. map get_id bs = map tid (T # cs) @ [] \<longrightarrow> free_blocks vm bs f2 = Inr f3"
    "tree_state lookup wf T' f3" "strip T' = fupdate ps (\<lambda>_. strip T0) (strip T)"
    "dev f3 = dev f" "errno f3 = errno (f\<lparr>store := s3\<rparr>)" "keeps f3 = keeps (f\<lparr>store := s3\<rparr>)"
    "room (store f3) = room s0 - length cs" "grown (lookup s0) new (lookup s')"
    "lookup (store f3) = (if keeps (f\<lparr>store := s3\<rparr>) then lookup s'
       else lookup s' |` (- set (map tid (T # cs) @ [])))"
    "set (tids T') = (set (tids T) - set (tids c) - set (map tid (butlast (T # cs)))) \<union>
       set (tids T0) \<union> set new"
    using finish_update [OF T walk, folded c_def, OF z(1) b0 z(2,6) d0 agree c0 X len shape f1]
    by blast
  define P where "P = set (map tid (butlast (T # cs)))"
  have split: "T # cs = butlast (T # cs) @ [c]" by (simp add: c_def)
  have path: "map tblock (T # cs) = map tblock (butlast (T # cs)) @ [tblock c]"
    using arg_cong [OF split, of "map tblock"] by (simp only: map_append list.map)
  have pathids: "map tid (T # cs) = map tid (butlast (T # cs)) @ [tid c]"
    using arg_cong [OF split, of "map tid"] by (simp only: map_append list.map)
  have pset: "set (map tid (T # cs) @ []) = insert (tid c) P"
    unfolding pathids P_def by auto
  have garbage: "no_garbage lookup T' f3" if ng: "no_garbage lookup T f" "\<not> keeps f"
  proof -
    have d3: "dom (lookup s3) = set (tids T) - (set (tids c) - {tid c})"
      unfolding s3(4) using ng(1) cset D(2) by (auto simp: no_garbage_def)
    have "dom (lookup s') = (set (tids T) - (set (tids c) - {tid c})) \<union> set (tids T0) \<union> set new"
      unfolding grown_dom [OF r(10)] grown_dom [OF g] d3 T0set by auto
    then have "dom (lookup (store f3)) =
        ((set (tids T) - (set (tids c) - {tid c})) \<union> set (tids T0) \<union> set new) - insert (tid c) P"
      unfolding r(11) pset using ng(2) by (auto simp: keeps_store)
    also have "\<dots> = (set (tids T) - set (tids c) - P) \<union> set (tids T0) \<union> set new"
    proof (rule garbage_sets_write)
      show "set (tids T0) \<inter> (set (tids T) - (set (tids c) - {tid c})) = {}"
        using fresh(2) d3 by simp
      show "set new \<inter> ((set (tids T) - (set (tids c) - {tid c})) \<union> set (tids T0)) = {}"
        using grown_fresh [OF r(10)] grown_dom [OF g] d3 T0set by auto
      show "P \<subseteq> set (tids T) - set (tids c)"
        using bwalk_path_ids [OF walk TT(3)] unfolding P_def c_def by blast
    qed (use csub in auto)
    finally show ?thesis unfolding no_garbage_def r(12) P_def .
  qed
  have cast: "try_cast_dir_file (tblock c) =
      Some \<lparr>df_name = n, df_stat = st, df_children = map tid (kids c)\<rparr>"
    by (simp add: try_cast_tblock k)
  have upd: "mk_block (tid c) (DirFileBlockData \<lparr>df_name = n, df_stat = ?st, df_children = map tid (kids c)\<rparr>) =
      tblock c'"
    by (simp add: tblock_def tdata_def c')
  have "map get_id (map tblock (butlast (T # cs)) @ [tblock c']) = map tid (T # cs) @ []"
    unfolding pathids by (simp add: c')
  with r(3) have fr: "free_blocks vm (map tblock (butlast (T # cs)) @ [tblock c']) f2 = Inr f3" by blast
  have run: "write_file_starting_at_node fuel bm vm env (map tblock (T # cs)) contents (f\<lparr>store := s3\<rparr>) =
      Inr f3"
  proof -
    have bl: "last (map tblock (T # cs)) = tblock c"
      "butlast (map tblock (T # cs)) = map tblock (butlast (T # cs))"
      unfolding path by simp_all
    have st: "store (f\<lparr>store := s3\<rparr>) = s3" by simp
    show ?thesis
      unfolding write_file_starting_at_node_def bl st us(1)
      using r(1,2) fr by (simp add: cast upd del: list.map butlast.simps free_blocks.simps)
  qed
  have "strip T' = fupdate ps (written_file env contents) (strip T)"
    unfolding r(5) s0 c_def by (rule fupdate_at [OF walk, symmetric])
  then have "steps_to lookup wf room keeps
      (file_room (ceil_log env) BYTES_PER_BLOCK BRANCHING_FACTOR contents + length ps + 1) T f
      ((abs_fs T f)\<lparr>fs_tree := fupdate ps (written_file env contents) (strip T)\<rparr>) f3"
    unfolding steps_to_def
    by (intro exI [of _ T']) (use garbage r(4,6-9) z(3) us(3) s3(3) lencs room in
        \<open>simp add: abs_fs_def keeps_store\<close>)
  with s3(1) run show ?thesis unfolding c_def by blast
qed

lemma write_refines:
  assumes T: "tree_state lookup wf T f" and ne: "path \<noteq> []"
    and fuel: "fheight (strip T) \<le> fuel" and buffer: "unat sz \<le> length buffer"
    and cost: "\<forall>t. flookup (fs_parts path) (strip T) = Some t \<longrightarrow>
      write_cost env (spliced (fcontents t) buffer sz offset) path \<le> N"
    and room: "N \<le> room (store f)"
  shows "\<exists>f'. fuse_write fuel bm vm env path buffer sz offset f =
       Inr (fst (spec_write env path buffer sz offset (abs_fs T f)), f') \<and>
     steps_to lookup wf room keeps N T f
       (snd (spec_write env path buffer sz offset (abs_fs T f))) f'"
proof -
  let ?ps = "fs_parts path"
  note get = get_path_tree [OF T ne fuel]
  show ?thesis
  proof (cases "bwalk ?ps T")
    case None
    then show ?thesis using steps_to_errno [OF T]
      by (auto simp: fuse_write_def get set_no_such_file_or_dir_def spec_write_def flookup_strip)
  next
    case (Some cs)
    define c where "c = last (T # cs)"
    note TT = tree_stateD [OF T]
    note C = bwalk_last [OF Some TT(2,3,4,7), folded c_def]
    obtain n st where k: "tkind c = KDir n st"
      "try_cast_dir_file (tblock c) = Some \<lparr>df_name = n, df_stat = st, df_children = map tid (kids c)\<rparr>"
      using walk_cast [OF T Some] unfolding c_def by blast
    have look: "flookup ?ps (strip T) = Some (strip c)" unfolding c_def by (rule bwalk_lookup [OF Some])
    have blocks: "map tblock (T # cs) \<noteq> []" "last (map tblock (T # cs)) = tblock c"
      unfolding c_def by (simp_all add: last_map del: list.map)
    have isf: "is_file (strip c) \<longleftrightarrow> \<not> stat_is_dir st"
      by (simp add: is_file_def node_stat_def k(1))
    show ?thesis
    proof (cases "is_file (strip c)")
      case False
      then show ?thesis using steps_to_errno [OF T] k(2) blocks isf
        by (auto simp: fuse_write_def get Some set_error_because_dir_def spec_write_def look df_is_dir_def
            simp del: list.map)
    next
      case True
      have d: "\<not> df_is_dir \<lparr>df_name = n, df_stat = st, df_children = map tid (kids c)\<rparr>"
        using True isf by (simp add: df_is_dir_def)
      have cfuel: "fheight (strip c) \<le> fuel" using C fuel by linarith
      have rc: "read_file_contents fuel bm \<lparr>df_name = n, df_stat = st, df_children = map tid (kids c)\<rparr>
          (store f) = Inr (fcontents (strip c), store f)"
        using C by (intro read_contents_tree [OF TT(1) _ cfuel k(2) d]) blast+
      let ?new = "spliced (fcontents (strip c)) buffer sz offset"
      show ?thesis
      proof (cases "length (fcontents (strip c)) < unat offset")
        case short: True
        then have "fuse_write fuel bm vm env path buffer sz offset f = Inr (-1, f)"
          using d k(2) blocks rc by (simp add: fuse_write_def get Some del: list.map)
        with short True steps_to_refl [OF T] show ?thesis
          by (auto simp: spec_write_def look)
      next
        case long: False
        have n: "write_cost env ?new path \<le> N" using cost look by blast
        then have "file_room (ceil_log env) BYTES_PER_BLOCK BRANCHING_FACTOR ?new + length ?ps + 1
            \<le> room (store f)"
          using room by (simp add: write_cost_def)
        from write_node [OF T Some fuel this, folded c_def] obtain s3 f' where w:
          "recursive_free_children_blocks fuel bm (tblock c) (store f) = Inr s3"
          "write_file_starting_at_node fuel bm vm env (map tblock (T # cs)) ?new (f\<lparr>store := s3\<rparr>) = Inr f'"
          "steps_to lookup wf room keeps
             (file_room (ceil_log env) BYTES_PER_BLOCK BRANCHING_FACTOR ?new + length ?ps + 1) T f
             ((abs_fs T f)\<lparr>fs_tree := fupdate ?ps (written_file env ?new) (strip T)\<rparr>) f'"
          by blast
        have "fuse_write fuel bm vm env path buffer sz offset f = Inr (int_of_size sz, f')"
          using d k(2) blocks rc long buffer w(1,2) [unfolded spliced_def]
          by (simp add: fuse_write_def get Some del: list.map)
        moreover have "spec_write env path buffer sz offset (abs_fs T f) = (int_of_size sz,
            (abs_fs T f)\<lparr>fs_tree := fupdate ?ps (written_file env ?new) (strip T)\<rparr>)"
          using True long by (simp add: spec_write_def look)
        moreover have "steps_to lookup wf room keeps N T f
            ((abs_fs T f)\<lparr>fs_tree := fupdate ?ps (written_file env ?new) (strip T)\<rparr>) f'"
          by (rule steps_to_mono [OF w(3)]) (use n in \<open>simp add: write_cost_def\<close>)
        ultimately show ?thesis by auto
      qed
    qed
  qed
qed

end

end
