(* ===== verification/FsRead.thy ===== *)
theory FsRead
  imports FsCreate
begin

text \<open>\<open>read\<close> and \<open>readdir\<close> meet their specifications and leave the file system as it is.\<close>

fun kid_dirs :: "btree list \<Rightarrow> dir_file_data list" where
  "kid_dirs [] = []"
| "kid_dirs (t # ts) =
     (case try_cast_dir_file (tblock t) of Some d \<Rightarrow> d # kid_dirs ts | None \<Rightarrow> kid_dirs ts)"

lemma kid_dirs_none: "\<forall>t \<in> set ts. \<not> is_dir_file (tkind t) \<Longrightarrow> kid_dirs ts = []"
proof (induction ts)
  case (Cons t ts)
  then show ?case by (cases "tkind t") (simp_all add: try_cast_tblock)
qed simp

lemma collect_tree:
  "collect_dir_files (map (\<lambda>t. Some (tblock t)) ts) acc tr =
     Inr (acc @ kid_dirs ts, tr @ map tid (concat (map link_kids ts)))"
proof (induction ts arbitrary: acc tr)
  case (Cons t ts)
  then show ?case
    by (cases "tkind t") (simp_all add: try_cast_tblock link_kids_def)
qed simp

lemma fill_children_entries:
  "fill_children filler d cs sb buf =
     fill_entries filler d (map (\<lambda>c. (df_name c, df_stat c)) cs) sb buf"
  by (induction cs arbitrary: sb buf) (simp_all add: Let_def)

lemma entries_kid_dirs: "map (\<lambda>c. (df_name c, df_stat c)) (kid_dirs ts) = entries (map strip ts)"
proof (induction ts)
  case (Cons t ts)
  then show ?case by (cases "tkind t") (simp_all add: try_cast_tblock strip_eq [of t])
qed simp

context block_store
begin

lemma dir_files_tree:
  assumes "wf s"
  shows "\<forall>t \<in> set ts. stored (lookup s) t \<and> fshape (strip t) \<and> fheight (strip t) \<le> n \<Longrightarrow>
     distinct (concat (map tids ts)) \<Longrightarrow> get_dir_files_loop n bm (map tid ts) acc s = Inr (acc @ kid_dirs ts, s)"
proof (induction n arbitrary: ts acc)
  case 0
  have "ts = []"
  proof (rule ccontr)
    assume "ts \<noteq> []"
    then obtain c where "c \<in> set ts" by (cases ts) auto
    with 0 fheight_pos [of "strip c"] show False by auto
  qed
  then show ?case by simp
next
  case (Suc n)
  let ?next = "concat (map link_kids ts)"
  have nx: "stored (lookup s) c \<and> fshape (strip c) \<and> fheight (strip c) \<le> n \<and> \<not> is_dir_file (tkind c)"
    if "c \<in> set ?next" for c
  proof -
    from that obtain t where t: "t \<in> set ts" "c \<in> set (link_kids t)" by auto
    then have k: "c \<in> set (kids t)" by (auto simp: link_kids_def split: if_splits)
    have "stored (lookup s) c" using Suc.prems t(1) k stored_kid by blast
    moreover have "fheight (strip c) \<le> n" using Suc.prems t(1) k height_kids by blast
    moreover have "fshape (strip c)" "\<not> is_dir_file (tkind c)"
      using fshape_link_kid [of t c] Suc.prems t by auto
    ultimately show ?thesis by blast
  qed
  have "get_dir_files_loop n bm (map tid ?next) (acc @ kid_dirs ts) s =
      Inr ((acc @ kid_dirs ts) @ kid_dirs ?next, s)"
    using nx distinct_link_kids [OF Suc.prems(2)] by (intro Suc.IH) blast+
  moreover have "kid_dirs ?next = []" using nx by (intro kid_dirs_none) blast
  ultimately show ?case
    using Suc.prems by (cases "ts = []") (simp_all add: get_stored [OF assms] collect_tree distinct_kid_ids)
qed

end

context block_fuse_ops
begin

lemma read_refines:
  assumes T: "tree_state lookup wf T f" and ne: "path \<noteq> []"
    and fuel: "fheight (strip T) \<le> fuel"
  shows "read fuel bm path sz offset f =
     (case spec_read path sz offset (abs_fs T f) of
        Inl e \<Rightarrow> Inl e
      | Inr (r, a') \<Rightarrow> Inr (r, f\<lparr>errno := fs_errno a'\<rparr>))"
proof -
  note get = get_path_tree [OF T ne fuel]
  show ?thesis
  proof (cases "bwalk (fs_parts path) T")
    case None
    then show ?thesis
      by (simp add: read_def get set_no_such_file_or_dir_def spec_read_def flookup_strip)
  next
    case (Some cs)
    define c where "c = last (T # cs)"
    note TT = tree_stateD [OF T]
    note C = bwalk_last [OF Some TT(2,3,4,7), folded c_def]
    obtain n st where k: "tkind c = KDir n st"
      "try_cast_dir_file (tblock c) = Some \<lparr>df_name = n, df_stat = st, df_children = map tid (kids c)\<rparr>"
      using walk_cast [OF T Some] unfolding c_def by blast
    have look: "flookup (fs_parts path) (strip T) = Some (strip c)"
      unfolding c_def by (rule bwalk_lookup [OF Some])
    have blocks: "last (map tblock (T # cs)) = tblock c"
      unfolding c_def by (simp add: last_map del: list.map)
    have isf: "is_file (strip c) \<longleftrightarrow> \<not> df_is_dir \<lparr>df_name = n, df_stat = st, df_children = map tid (kids c)\<rparr>"
      by (simp add: is_file_def node_stat_def k(1) df_is_dir_def)
    show ?thesis
    proof (cases "is_file (strip c)")
      case False
      then show ?thesis using isf k(2) blocks
        by (simp add: read_def get Some spec_read_def look del: list.map)
    next
      case True
      have "fheight (strip c) \<le> fuel" using C fuel by linarith
      from read_contents_tree [OF TT(1) _ this k(2)] C True isf
      have "read_file_contents fuel bm \<lparr>df_name = n, df_stat = st, df_children = map tid (kids c)\<rparr>
          (store f) = Inr (fcontents (strip c), store f)"
        by blast
      with True isf k(2) blocks show ?thesis
        by (cases "read_range (fcontents (strip c)) sz offset")
           (simp_all add: read_def get Some spec_read_def look del: list.map)
    qed
  qed
qed

lemma readdir_refines:
  assumes T: "tree_state lookup wf T f" and ne: "path \<noteq> []"
    and fuel: "fheight (strip T) \<le> fuel"
  shows "readdir fuel bm path buf filler f =
     (case spec_readdir path buf filler (abs_fs T f) of (r, a') \<Rightarrow>
        Inr (r, f\<lparr>errno := fs_errno a'\<rparr>))"
proof -
  note get = get_path_tree [OF T ne fuel]
  show ?thesis
  proof (cases "bwalk (fs_parts path) T")
    case None
    then show ?thesis
      by (simp add: readdir_def get set_no_such_file_or_dir_def spec_readdir_def flookup_strip)
  next
    case (Some cs)
    define c where "c = last (T # cs)"
    note TT = tree_stateD [OF T]
    note C = bwalk_last [OF Some TT(2,3,4,7), folded c_def]
    obtain n st where k: "tkind c = KDir n st"
      "try_cast_dir_file (tblock c) = Some \<lparr>df_name = n, df_stat = st, df_children = map tid (kids c)\<rparr>"
      using walk_cast [OF T Some] unfolding c_def by blast
    have look: "flookup (fs_parts path) (strip T) = Some (strip c)"
      unfolding c_def by (rule bwalk_lookup [OF Some])
    have blocks: "last (map tblock (T # cs)) = tblock c"
      unfolding c_def by (simp add: last_map del: list.map)
    obtain m where m: "fuel = Suc m" using fuel fheight_pos [of "strip T"] by (cases fuel) auto
    have "\<forall>u \<in> set (kids c). stored (lookup (store f)) u \<and> fshape (strip u) \<and> fheight (strip u) \<le> fuel"
      using C stored_kid fshape_kid height_kids [of c m] fuel m by fastforce
    moreover have "distinct (concat (map tids (kids c)))" using C by (simp add: tids_eq [of c])
    ultimately have files: "get_dir_files_from_dir fuel bm
        \<lparr>df_name = n, df_stat = st, df_children = map tid (kids c)\<rparr> (store f) =
        Inr (kid_dirs (kids c), store f)"
      by (simp add: get_dir_files_from_dir_def dir_files_tree [OF TT(1)])
    show ?thesis
      using k(2) blocks files
      by (simp add: readdir_def get Some spec_readdir_def look node_stat_def k(1) Let_def split_def
          fill_children_entries entries_kid_dirs del: list.map)
  qed
qed

end

end
