(* ===== verification/FuseWrapper.thy ===== *)
theory FuseWrapper
  imports FsRemove FsWrite FsRead
begin

text \<open>
  The calls FUSE makes. \<open>FuseWrapper\<close> (\<open>fuse_wrapper.cc\<close>) keeps a global pointer to one file
  system object and forwards each C callback to the object's virtual method; the object is the
  record of its methods. \<open>spec_call\<close> is the same dispatch on the specifications, and the main
  lemma composes the operations' refinements: for a sequence of calls that stays within the fuel and
  the ids that are left, the program gives the replies of the specification.
\<close>

section \<open>Calls and their dispatch\<close>

datatype 'b fuse_call =
    Getattr string stat_buf
  | Mkdir string mode_t
  | Rmdir string
  | Unlink string
  | Readdir string 'b "'b filler"
  | Read string u64 u64
  | Write string string u64 u64
  | Create string mode_t

datatype 'b fuse_reply =
    Code int
  | Stat_Reply int stat_buf
  | Dir_Reply int 'b
  | Data_Reply int string

record ('f, 'b) fuse_object =
  obj_getattr :: "string \<Rightarrow> stat_buf \<Rightarrow> 'f \<Rightarrow> ((int \<times> stat_buf) \<times> 'f) result"
  obj_mkdir :: "string \<Rightarrow> mode_t \<Rightarrow> 'f \<Rightarrow> (int \<times> 'f) result"
  obj_rmdir :: "string \<Rightarrow> 'f \<Rightarrow> (int \<times> 'f) result"
  obj_unlink :: "string \<Rightarrow> 'f \<Rightarrow> (int \<times> 'f) result"
  obj_readdir :: "string \<Rightarrow> 'b \<Rightarrow> 'b filler \<Rightarrow> 'f \<Rightarrow> ((int \<times> 'b) \<times> 'f) result"
  obj_read :: "string \<Rightarrow> u64 \<Rightarrow> u64 \<Rightarrow> 'f \<Rightarrow> ((int \<times> string) \<times> 'f) result"
  obj_write :: "string \<Rightarrow> string \<Rightarrow> u64 \<Rightarrow> u64 \<Rightarrow> 'f \<Rightarrow> (int \<times> 'f) result"
  obj_create :: "string \<Rightarrow> mode_t \<Rightarrow> 'f \<Rightarrow> (int \<times> 'f) result"

definition BlockFuse_object ::
  "nat \<Rightarrow> 's block_manager \<Rightarrow> ('s, 'm) fuse_methods \<Rightarrow> os_env \<Rightarrow>
     (('s, 'm) block_fuse_scheme, 'b) fuse_object" where
  "BlockFuse_object fuel bm vm env =
     \<lparr>obj_getattr = getattr fuel bm, obj_mkdir = mkdir fuel bm vm env, obj_rmdir = rmdir fuel bm vm,
      obj_unlink = unlink (rmdir fuel bm vm), obj_readdir = readdir fuel bm, obj_read = read fuel bm,
      obj_write = fuse_write fuel bm vm env, obj_create = create fuel bm vm env\<rparr>"

definition reply :: "('r \<Rightarrow> 'b fuse_reply) \<Rightarrow> ('r \<times> 'f) result \<Rightarrow> ('b fuse_reply \<times> 'f) result" where
  "reply k m = bind_result m (\<lambda>(r, f). Inr (k r, f))"

text \<open>A callback before \<open>set_global_wrapper\<close> dereferences the null \<open>global_wrapper\<close>.\<close>

fun wrapper_call ::
  "('f, 'b) fuse_object option \<Rightarrow> 'b fuse_call \<Rightarrow> 'f \<Rightarrow> ('b fuse_reply \<times> 'f) result" where
  "wrapper_call w (Getattr path stbuf) f =
     bind_result (deref w) (\<lambda>ob. reply (\<lambda>(r, st). Stat_Reply r st) (obj_getattr ob path stbuf f))"
| "wrapper_call w (Mkdir path m) f =
     bind_result (deref w) (\<lambda>ob. reply Code (obj_mkdir ob path m f))"
| "wrapper_call w (Rmdir path) f =
     bind_result (deref w) (\<lambda>ob. reply Code (obj_rmdir ob path f))"
| "wrapper_call w (Unlink path) f =
     bind_result (deref w) (\<lambda>ob. reply Code (obj_unlink ob path f))"
| "wrapper_call w (Readdir path buf filler) f =
     bind_result (deref w) (\<lambda>ob. reply (\<lambda>(r, b). Dir_Reply r b) (obj_readdir ob path buf filler f))"
| "wrapper_call w (Read path sz offset) f =
     bind_result (deref w) (\<lambda>ob. reply (\<lambda>(r, d). Data_Reply r d) (obj_read ob path sz offset f))"
| "wrapper_call w (Write path buffer sz offset) f =
     bind_result (deref w) (\<lambda>ob. reply Code (obj_write ob path buffer sz offset f))"
| "wrapper_call w (Create path m) f =
     bind_result (deref w) (\<lambda>ob. reply Code (obj_create ob path m f))"

fun wrapper_run ::
  "('f, 'b) fuse_object option \<Rightarrow> 'b fuse_call list \<Rightarrow> 'f \<Rightarrow> ('b fuse_reply list \<times> 'f) result" where
  "wrapper_run w [] f = Inr ([], f)"
| "wrapper_run w (c # cs) f =
     bind_result (wrapper_call w c f) (\<lambda>(r, f').
       bind_result (wrapper_run w cs f') (\<lambda>(rs, f''). Inr (r # rs, f'')))"

section \<open>The specification of a call\<close>

fun spec_call :: "os_env \<Rightarrow> 'b fuse_call \<Rightarrow> fs \<Rightarrow> ('b fuse_reply \<times> fs) result" where
  "spec_call env (Getattr path stbuf) a =
     (case spec_getattr path stbuf a of ((r, st), a') \<Rightarrow> Inr (Stat_Reply r st, a'))"
| "spec_call env (Mkdir path m) a = (case spec_mkdir env path m a of (r, a') \<Rightarrow> Inr (Code r, a'))"
| "spec_call env (Rmdir path) a = (case spec_rmdir path a of (r, a') \<Rightarrow> Inr (Code r, a'))"
| "spec_call env (Unlink path) a = (case spec_rmdir path a of (r, a') \<Rightarrow> Inr (Code r, a'))"
| "spec_call env (Readdir path buf filler) a =
     (case spec_readdir path buf filler a of ((r, b), a') \<Rightarrow> Inr (Dir_Reply r b, a'))"
| "spec_call env (Read path sz offset) a =
     bind_result (spec_read path sz offset a) (\<lambda>((r, d), a'). Inr (Data_Reply r d, a'))"
| "spec_call env (Write path buffer sz offset) a =
     (case spec_write env path buffer sz offset a of (r, a') \<Rightarrow> Inr (Code r, a'))"
| "spec_call env (Create path m) a =
     (if flookup (fs_parts path) (fs_tree a) \<noteq> None
      then Inr (Code (- EEXIST), a\<lparr>fs_errno := EEXIST\<rparr>)
      else bind_result (Mode_of_mode_t m) (\<lambda>md.
             case spec_create env path md a of (r, a') \<Rightarrow> Inr (Code r, a')))"

fun spec_run :: "os_env \<Rightarrow> 'b fuse_call list \<Rightarrow> fs \<Rightarrow> ('b fuse_reply list \<times> fs) result" where
  "spec_run env [] a = Inr ([], a)"
| "spec_run env (c # cs) a =
     bind_result (spec_call env c a) (\<lambda>(r, a').
       bind_result (spec_run env cs a') (\<lambda>(rs, a''). Inr (r # rs, a'')))"

text \<open>What a call needs: a path as the kernel passes it, a buffer of the length it names.\<close>

fun call_path :: "'b fuse_call \<Rightarrow> string" where
  "call_path (Getattr path stbuf) = path"
| "call_path (Mkdir path m) = path"
| "call_path (Rmdir path) = path"
| "call_path (Unlink path) = path"
| "call_path (Readdir path buf filler) = path"
| "call_path (Read path sz offset) = path"
| "call_path (Write path buffer sz offset) = path"
| "call_path (Create path m) = path"

fun call_ok :: "'b fuse_call \<Rightarrow> bool" where
  "call_ok (Write path buffer sz offset) \<longleftrightarrow> fuse_path path \<and> unat sz \<le> length buffer"
| "call_ok c \<longleftrightarrow> fuse_path (call_path c)"

text \<open>The ids a call takes at most.\<close>

fun call_cost :: "os_env \<Rightarrow> 'b fuse_call \<Rightarrow> fs \<Rightarrow> nat" where
  "call_cost env (Mkdir path m) a = length (fs_parts path) + 1"
| "call_cost env (Create path m) a = length (fs_parts path) + 1"
| "call_cost env (Rmdir path) a = length (fs_parts path)"
| "call_cost env (Unlink path) a = length (fs_parts path)"
| "call_cost env (Write path buffer sz offset) a =
     (case flookup (fs_parts path) (fs_tree a) of
        None \<Rightarrow> 0 | Some t \<Rightarrow> write_cost env (spliced (fcontents t) buffer sz offset) path)"
| "call_cost env c a = 0"

text \<open>
  A sequence of calls within \<open>fuel\<close> (more than the height of every tree on the way) and
  \<open>ids\<close>.
\<close>

fun run_ok :: "os_env \<Rightarrow> nat \<Rightarrow> nat \<Rightarrow> 'b fuse_call list \<Rightarrow> fs \<Rightarrow> bool" where
  "run_ok env fuel ids [] a \<longleftrightarrow> True"
| "run_ok env fuel ids (c # cs) a \<longleftrightarrow>
     call_ok c \<and> fheight (fs_tree a) < fuel \<and> call_cost env c a \<le> ids \<and>
     (case spec_call env c a of
        Inl e \<Rightarrow> True
      | Inr (r, a') \<Rightarrow> run_ok env fuel (ids - call_cost env c a) cs a')"

section \<open>The constructor\<close>

context block_store
begin

lemma init_tree:
  assumes "wf s" and "0 < room s" and "lookup s = Map.empty"
  shows "\<exists>f T. BlockFuse_init bm env d s = Inr f \<and> tree_state lookup wf T f \<and> no_garbage lookup T f \<and>
     abs_fs T f = spec_init env d \<and> room (store f) = room s - 1"
proof -
  let ?st = "\<lparr>stat_mode = \<lparr>user_mode = READ_WRITE_EXECUTE, group_mode = READ_EXECUTE,
                        other_mode = EXECUTE, file_type_of = DIR\<rparr>,
           stat_uid = uid env, stat_gid = gid env, stat_size = 0,
           access_time = cur_time env, mod_time = cur_time env,
           status_change_time = cur_time env\<rparr>"
  have k: "node_data (KDir ''/'' ?st) (map tid []) = make_root_block_data env"
    by (simp add: make_root_block_data_def PATH_SEPARATOR_def)
  from create_node [OF assms(1,2), of "[]" "KDir ''/'' ?st", unfolded k] obtain t s' where
    t: "bm_create bm (make_root_block_data env) s = Inr (tblock t, s')"
      "wf s'" "room s' = room s - 1" "tkind t = KDir ''/'' ?st" "kids t = []" "stored (lookup s') t"
      "grown (lookup s) [tid t] (lookup s')"
    by auto
  let ?f = "\<lparr>store = s', root_block = Some (tblock t), dev = d, errno = 0\<rparr> :: 's block_fuse"
  have ids: "tids t = [tid t]" and st: "strip t = FNode (KDir ''/'' ?st) []"
    using t(4,5) by (simp_all add: tids_eq [of t] strip_eq [of t])
  have "dom (lookup s') = {tid t}" using grown_dom [OF t(7)] assms(3) by simp
  then have "tree_state lookup wf t ?f \<and> no_garbage lookup t ?f \<and> abs_fs t ?f = spec_init env d"
    using t by (simp add: tree_state_def no_garbage_def ids abs_fs_def st spec_init_def)
  moreover have "BlockFuse_init bm env d s = Inr ?f" by (simp add: BlockFuse_init_def t(1))
  ultimately show ?thesis using t(3) by (intro exI [of _ ?f] exI [of _ t]) simp
qed

end

section \<open>Refinement of a call\<close>

context block_fuse_ops
begin

lemma create_errors:
  assumes "tree_state lookup wf T f" and "path \<noteq> []" and "fheight (strip T) \<le> fuel"
  shows "bwalk (fs_parts path) T \<noteq> None \<Longrightarrow>
       create fuel bm vm env path m f = Inr (- EEXIST, f\<lparr>errno := EEXIST\<rparr>)"
    and "bwalk (fs_parts path) T = None \<Longrightarrow> Mode_of_mode_t m = Inl e \<Longrightarrow>
       create fuel bm vm env path m f = Inl e"
  using get_path_tree [OF assms] by (auto simp: create_def set_file_exists_def)

lemma steps_to_same:
  "tree_state lookup wf T f \<Longrightarrow>
     steps_to lookup wf room keeps n T f ((abs_fs T f)\<lparr>fs_errno := e\<rparr>) (f\<lparr>errno := e\<rparr>)"
  by (rule steps_to_errno)

lemma call_refines:
  assumes T: "tree_state lookup wf T f" and ok: "call_ok c"
    and fuel: "fheight (strip T) < fuel" and cost: "call_cost env c (abs_fs T f) \<le> room (store f)"
  shows "case spec_call env c (abs_fs T f) of
       Inl e \<Rightarrow> wrapper_call (Some (BlockFuse_object fuel bm vm env)) c f = Inl e
     | Inr (r, a') \<Rightarrow> \<exists>f'. wrapper_call (Some (BlockFuse_object fuel bm vm env)) c f = Inr (r, f') \<and>
         steps_to lookup wf room keeps (call_cost env c (abs_fs T f)) T f a' f'"
proof (cases c)
  case (Getattr path stbuf)
  with ok have "path \<noteq> []" by (auto simp: fuse_path_def)
  from getattr_refines [OF T this less_imp_le [OF fuel], of stbuf] Getattr show ?thesis
    by (auto simp: BlockFuse_object_def reply_def split: prod.splits)
next
  case (Mkdir path m)
  with ok have "fuse_path path" by simp
  from mkdir_refines [OF T this less_imp_le [OF fuel], of env m] cost Mkdir show ?thesis
    by (auto simp: BlockFuse_object_def reply_def split: prod.splits)
next
  case (Rmdir path)
  with ok have "path \<noteq> []" by (auto simp: fuse_path_def)
  from rmdir_refines [OF T this less_imp_le [OF fuel]] cost Rmdir show ?thesis
    by (auto simp: BlockFuse_object_def reply_def split: prod.splits)
next
  case (Unlink path)
  with ok have "path \<noteq> []" by (auto simp: fuse_path_def)
  from rmdir_refines [OF T this less_imp_le [OF fuel]] cost Unlink show ?thesis
    by (auto simp: BlockFuse_object_def reply_def unlink_def split: prod.splits)
next
  case (Readdir path buf filler)
  with ok have ne: "path \<noteq> []" by (auto simp: fuse_path_def)
  obtain r b a' where s: "spec_readdir path buf filler (abs_fs T f) = ((r, b), a')"
    by (metis prod.exhaust)
  then have "a' = (abs_fs T f)\<lparr>fs_errno := fs_errno a'\<rparr>"
    by (auto simp: spec_readdir_def Let_def split: option.splits prod.splits if_splits)
  then have "steps_to lookup wf room keeps 0 T f a' (f\<lparr>errno := fs_errno a'\<rparr>)"
    using steps_to_same [OF T] by metis
  with readdir_refines [OF T ne less_imp_le [OF fuel], of buf filler] s Readdir show ?thesis
    by (simp add: BlockFuse_object_def reply_def)
next
  case (Read path sz offset)
  with ok have ne: "path \<noteq> []" by (auto simp: fuse_path_def)
  note run = read_refines [OF T ne less_imp_le [OF fuel], of sz offset]
  show ?thesis
  proof (cases "spec_read path sz offset (abs_fs T f)")
    case (Inl e)
    with run Read show ?thesis by (simp add: BlockFuse_object_def reply_def)
  next
    case (Inr p)
    obtain r d a' where p: "p = ((r, d), a')" by (metis prod.exhaust)
    with Inr have "a' = (abs_fs T f)\<lparr>fs_errno := fs_errno a'\<rparr>"
      by (auto simp: spec_read_def bind_result_eq_Inr split: option.splits if_splits)
    then have "steps_to lookup wf room keeps 0 T f a' (f\<lparr>errno := fs_errno a'\<rparr>)"
      using steps_to_same [OF T] by metis
    with run Read Inr p show ?thesis by (simp add: BlockFuse_object_def reply_def)
  qed
next
  case (Write path buffer sz offset)
  with ok have "path \<noteq> []" and b: "unat sz \<le> length buffer" by (auto simp: fuse_path_def)
  have c: "\<forall>t. flookup (fs_parts path) (strip T) = Some t \<longrightarrow>
      write_cost env (spliced (fcontents t) buffer sz offset) path \<le> call_cost env c (abs_fs T f)"
    using Write by simp
  from write_refines [OF T \<open>path \<noteq> []\<close> less_imp_le [OF fuel] b c cost] Write show ?thesis
    by (auto simp: BlockFuse_object_def reply_def split: prod.splits)
next
  case (Create path m)
  with ok have fp: "fuse_path path" and ne: "path \<noteq> []" by (auto simp: fuse_path_def)
  show ?thesis
  proof (cases "bwalk (fs_parts path) T = None")
    case False
    with create_errors(1) [OF T ne less_imp_le [OF fuel] False, of env m] Create steps_to_same [OF T]
    show ?thesis by (auto simp: BlockFuse_object_def reply_def flookup_strip)
  next
    case True
    show ?thesis
    proof (cases "Mode_of_mode_t m")
      case (Inl e)
      with create_errors(2) [OF T ne less_imp_le [OF fuel] True Inl, of env] Create True show ?thesis
        by (simp add: BlockFuse_object_def reply_def flookup_strip)
    next
      case (Inr md)
      with create_refines [OF T fp fuel _ Inr, of env] cost Create True show ?thesis
        by (auto simp: BlockFuse_object_def reply_def flookup_strip split: prod.splits)
    qed
  qed
qed

lemma run_refines:
  assumes "tree_state lookup wf T f" and "run_ok env fuel ids cs (abs_fs T f)"
    and "ids \<le> room (store f)" and "\<not> keeps f" and "no_garbage lookup T f"
  shows "case spec_run env cs (abs_fs T f) of
       Inl e \<Rightarrow> wrapper_run (Some (BlockFuse_object fuel bm vm env)) cs f = Inl e
     | Inr (rs, a') \<Rightarrow> \<exists>T' f'. wrapper_run (Some (BlockFuse_object fuel bm vm env)) cs f = Inr (rs, f') \<and>
         tree_state lookup wf T' f' \<and> no_garbage lookup T' f' \<and> abs_fs T' f' = a' \<and>
         room (store f) - ids \<le> room (store f')"
  using assms
proof (induction cs arbitrary: T f ids)
  case Nil
  then show ?case by auto
next
  case (Cons c cs)
  let ?n = "call_cost env c (abs_fs T f)"
  have c: "call_ok c" "fheight (strip T) < fuel" "?n \<le> room (store f)"
    using Cons.prems(2,3) by auto
  note call = call_refines [OF Cons.prems(1) c]
  show ?case
  proof (cases "spec_call env c (abs_fs T f)")
    case (Inl e)
    with call show ?thesis by simp
  next
    case (Inr p)
    obtain r a1 where p: "p = (r, a1)" by (cases p)
    from call Inr p obtain f1 T1 where
      f1: "wrapper_call (Some (BlockFuse_object fuel bm vm env)) c f = Inr (r, f1)"
      "tree_state lookup wf T1 f1" "abs_fs T1 f1 = a1" "keeps f1 = keeps f"
      "room (store f) \<le> room (store f1) + ?n"
      "no_garbage lookup T f \<and> \<not> keeps f \<longrightarrow> no_garbage lookup T1 f1"
      by (auto simp: steps_to_def)
    have "run_ok env fuel (ids - ?n) cs (abs_fs T1 f1)" using Cons.prems(2) Inr p f1(3) by simp
    moreover have "ids - ?n \<le> room (store f1)" using Cons.prems(3) f1(5) by linarith
    moreover have "?n \<le> ids" using Cons.prems(2) by simp
    then have "room (store f) - ids \<le> r'" if "room (store f1) - (ids - ?n) \<le> r'" for r'
      using that f1(5) by linarith
    ultimately have IH: "case spec_run env cs (abs_fs T1 f1) of
       Inl e \<Rightarrow> wrapper_run (Some (BlockFuse_object fuel bm vm env)) cs f1 = Inl e
     | Inr (rs, a') \<Rightarrow> \<exists>T' f'. wrapper_run (Some (BlockFuse_object fuel bm vm env)) cs f1 = Inr (rs, f') \<and>
         tree_state lookup wf T' f' \<and> no_garbage lookup T' f' \<and> abs_fs T' f' = a' \<and>
         room (store f) - ids \<le> room (store f')"
      using Cons.IH [OF f1(2)] f1(4,6) Cons.prems(4,5) by (fastforce split: sum.splits)
    show ?thesis
    proof (cases "spec_run env cs (abs_fs T1 f1)")
      case (Inl e)
      with IH f1(1,3) Inr p show ?thesis by simp
    next
      case (Inr q)
      obtain rs a2 where "q = (rs, a2)" by (cases q)
      with Inr IH f1(1,3) \<open>spec_call env c (abs_fs T f) = Inr p\<close> p show ?thesis by auto
    qed
  qed
qed

end

end
