(* ===== verification/FsMemory.thy ===== *)
theory FsMemory
  imports FuseWrapper
begin

text \<open>
  The in-memory file system, \<open>app/in_memory.cc\<close>: \<open>BlockFuse\<close> over a \<open>MemoryBlockManager\<close> with
  a \<open>CounterSupplier\<close>. \<open>fuse_ok a f\<close> says that the object \<open>f\<close> represents the abstract file
  system \<open>a\<close> and that its store holds the blocks of the tree and nothing else. The contract of
  \<open>FsRefine\<close> is interpreted on these definitions, and every operation's refinement is stated as a
  property of the program.
\<close>

section \<open>The program\<close>

type_synonym mem_fuse = "counter memory_manager block_fuse"

definition mem_bm :: "counter memory_manager block_manager" where
  "mem_bm = MemoryBlockManager CounterSupplier"

definition mem_vm :: "(counter memory_manager, unit) fuse_methods" where
  "mem_vm = BlockFuse_methods mem_bm"

definition in_memory_fs :: "os_env \<Rightarrow> mem_fuse result" where
  "in_memory_fs env = BlockFuse_init mem_bm env 55 (mem_init counter_init)"

text \<open>\<open>main\<close>, with the calls that \<open>fuse_main\<close> makes as an argument.\<close>

definition in_memory_main ::
  "nat \<Rightarrow> os_env \<Rightarrow> 'b fuse_call list \<Rightarrow> ('b fuse_reply list \<times> mem_fuse) result" where
  "in_memory_main fuel env calls =
     bind_result (in_memory_fs env) (\<lambda>f.
       wrapper_run (Some (BlockFuse_object fuel mem_bm mem_vm env)) calls f)"

section \<open>Representation\<close>

definition fuse_ok :: "fs \<Rightarrow> mem_fuse \<Rightarrow> bool" where
  "fuse_ok a f \<longleftrightarrow>
     (\<exists>T. tree_state mem_lookup (mem_wf counter_fresh) T f \<and> no_garbage mem_lookup T f \<and> abs_fs T f = a)"

definition ids_left :: "mem_fuse \<Rightarrow> nat" where
  "ids_left f = counter_remaining (id_state (store f))"

interpretation mem_fuse: block_fuse_ops mem_bm mem_lookup
  "\<lambda>m. counter_remaining (id_state m)" "mem_wf counter_fresh" mem_vm "\<lambda>_. False"
  by (simp add: mem_bm_def block_fuse_ops_def block_fuse_ops_axioms_def
      counter_memory.block_store_axioms mem_vm_def BlockFuse_methods_def base_free_block_def
      base_set_root_block_def)

lemma fuse_okD:
  assumes "fuse_ok a f"
  obtains T where "tree_state mem_lookup (mem_wf counter_fresh) T f" "no_garbage mem_lookup T f"
    "abs_fs T f = a" "fs_tree a = strip T"
  using assms by (auto simp: fuse_ok_def)

lemma fuse_ok_steps:
  assumes "steps_to mem_lookup (mem_wf counter_fresh) (\<lambda>m. counter_remaining (id_state m)) (\<lambda>_. False)
      n T f a' f'" and "no_garbage mem_lookup T f"
  shows "fuse_ok a' f' \<and> ids_left f \<le> ids_left f' + n"
  using assms unfolding steps_to_def fuse_ok_def ids_left_def by auto

lemma in_memory_start:
  "\<exists>f. in_memory_fs env = Inr f \<and> fuse_ok (spec_init env 55) f \<and> ids_left f = 2 ^ 64 - 2"
proof -
  let ?s = "mem_init counter_init :: counter memory_manager"
  have room: "counter_remaining (id_state ?s) = 2 ^ 64 - 1"
    by (simp add: counter_remaining_def mem_init_def counter_init_def)
  moreover have "mem_lookup ?s = Map.empty" by (rule ext) (simp add: mem_init_def mem_lookup_def)
  ultimately show ?thesis
    using mem_fuse.init_tree [OF mem_wf_init, of counter_init env 55]
    by (auto simp: in_memory_fs_def fuse_ok_def ids_left_def)
qed

lemma fuse_run:
  assumes "fuse_ok a f" and "run_ok env fuel n calls a" and "n \<le> ids_left f"
  shows "case spec_run env calls a of
       Inl e \<Rightarrow> wrapper_run (Some (BlockFuse_object fuel mem_bm mem_vm env)) calls f = Inl e
     | Inr (rs, a') \<Rightarrow> \<exists>f'. wrapper_run (Some (BlockFuse_object fuel mem_bm mem_vm env)) calls f =
         Inr (rs, f') \<and> fuse_ok a' f' \<and> ids_left f - n \<le> ids_left f'"
proof -
  obtain T where T: "tree_state mem_lookup (mem_wf counter_fresh) T f" "no_garbage mem_lookup T f"
    "abs_fs T f = a"
    using assms(1) by (rule fuse_okD)
  from mem_fuse.run_refines [OF T(1), of env fuel n calls] assms(2,3) T(2,3) show ?thesis
    by (fastforce simp: ids_left_def fuse_ok_def split: sum.splits prod.splits)
qed

lemma num_blocks_fsize: "fuse_ok a f \<Longrightarrow> mem_num_blocks (store f) = fsize (fs_tree a)"
proof -
  assume "fuse_ok a f"
  then obtain T where T: "tree_state mem_lookup (mem_wf counter_fresh) T f" "no_garbage mem_lookup T f"
    "fs_tree a = strip T"
    by (rule fuse_okD)
  have "card (dom (mem_lookup (store f))) = length (tids T)"
    using T(2) distinct_card [OF tree_stateD(3) [OF T(1)]] by (simp add: no_garbage_def)
  then show ?thesis
    using mem_num_blocks_wf [OF tree_stateD(1) [OF T(1)]] by (simp add: length_tids T(3))
qed

lemma run_ok_mono: "run_ok env fuel m cs a \<Longrightarrow> m \<le> n \<Longrightarrow> run_ok env fuel n cs a"
proof (induction cs arbitrary: m n a)
  case (Cons c cs)
  have "m - call_cost env c a \<le> n - call_cost env c a" using Cons.prems(2) by (rule diff_le_mono)
  with Cons show ?case by (auto split: sum.splits)
qed simp

section \<open>Operations on a represented file system\<close>

lemma fuse_ok_tree:
  assumes "fuse_ok a f"
  shows "fshape (fs_tree a)" and "is_dir_file (fkind (fs_tree a))"
proof -
  obtain T where T: "tree_state mem_lookup (mem_wf counter_fresh) T f" "fs_tree a = strip T"
    using assms by (rule fuse_okD)
  show "fshape (fs_tree a)" and "is_dir_file (fkind (fs_tree a))"
    using tree_stateD [OF T(1)] by (simp_all add: T(2))
qed

lemma write_ok:
  assumes "fuse_ok a f" and "path \<noteq> []" and "fheight (fs_tree a) \<le> fuel" and "unat sz \<le> length buffer"
    and "call_cost env (Write path buffer sz offset :: unit fuse_call) a \<le> ids_left f"
  shows "\<exists>f'. fuse_write fuel mem_bm mem_vm env path buffer sz offset f =
       Inr (fst (spec_write env path buffer sz offset a), f') \<and>
     fuse_ok (snd (spec_write env path buffer sz offset a)) f'"
proof -
  obtain T where T: "tree_state mem_lookup (mem_wf counter_fresh) T f" "no_garbage mem_lookup T f"
    "abs_fs T f = a" "fs_tree a = strip T"
    using assms(1) by (rule fuse_okD)
  have "\<forall>t. flookup (fs_parts path) (strip T) = Some t \<longrightarrow>
      write_cost env (spliced (fcontents t) buffer sz offset) path \<le>
      call_cost env (Write path buffer sz offset :: unit fuse_call) a"
    by (simp add: T(4))
  from mem_fuse.write_refines [OF T(1) assms(2) assms(3) [unfolded T(4)] assms(4) this
      assms(5) [unfolded ids_left_def]] T(2,3)
  show ?thesis using fuse_ok_steps by fastforce
qed

lemma read_ok:
  assumes "fuse_ok a f" and "path \<noteq> []" and "fheight (fs_tree a) \<le> fuel"
  shows "read fuel mem_bm path sz offset f =
     (case spec_read path sz offset a of
        Inl e \<Rightarrow> Inl e
      | Inr (r, a') \<Rightarrow> Inr (r, f\<lparr>errno := fs_errno a'\<rparr>))"
proof -
  obtain T where T: "tree_state mem_lookup (mem_wf counter_fresh) T f" "abs_fs T f = a" "fs_tree a = strip T"
    using assms(1) by (rule fuse_okD)
  from mem_fuse.read_refines [OF T(1) assms(2) assms(3) [unfolded T(3)], of sz offset] T(2)
  show ?thesis by simp
qed

lemma fuse_ok_errno: "fuse_ok a f \<Longrightarrow> fs_errno a = errno f"
  by (auto elim!: fuse_okD)

lemma getattr_ok:
  assumes "fuse_ok a f" and "path \<noteq> []" and "fheight (fs_tree a) \<le> fuel"
  shows "\<exists>f'. getattr fuel mem_bm path stbuf f = Inr (fst (spec_getattr path stbuf a), f') \<and>
     fuse_ok (snd (spec_getattr path stbuf a)) f'"
proof -
  obtain T where T: "tree_state mem_lookup (mem_wf counter_fresh) T f" "no_garbage mem_lookup T f"
    "abs_fs T f = a" "fs_tree a = strip T"
    using assms(1) by (rule fuse_okD)
  from mem_fuse.getattr_refines [OF T(1) assms(2) assms(3) [unfolded T(4)], of stbuf] T(2,3)
  show ?thesis using fuse_ok_steps by fastforce
qed

lemma call_fuse_ok:
  assumes "fuse_ok a f" and "call_ok c" and "fheight (fs_tree a) < fuel" and "call_cost env c a \<le> ids_left f"
  shows "case spec_call env c a of
       Inl e \<Rightarrow> wrapper_call (Some (BlockFuse_object fuel mem_bm mem_vm env)) c f = Inl e
     | Inr (r, a') \<Rightarrow> \<exists>f'. wrapper_call (Some (BlockFuse_object fuel mem_bm mem_vm env)) c f = Inr (r, f') \<and>
         fuse_ok a' f'"
proof -
  obtain T where T: "tree_state mem_lookup (mem_wf counter_fresh) T f" "no_garbage mem_lookup T f"
    "abs_fs T f = a" "fs_tree a = strip T"
    using assms(1) by (rule fuse_okD)
  from mem_fuse.call_refines [OF T(1) assms(2) assms(3) [unfolded T(4)], of env] assms(4) T(2,3)
  show ?thesis using fuse_ok_steps by (fastforce simp: ids_left_def split: sum.splits)
qed

section \<open>An example\<close>

definition example_env :: os_env where
  "example_env = \<lparr>cur_time = 7, uid = 1, gid = 2,
     ceil_log = \<lambda>b n. if n \<le> 1 then 0 else if n \<le> b then 1 else 2\<rparr>"

text \<open>A state with the file "/d/f" that holds "hello".\<close>

definition example_calls :: "unit fuse_call list" where
  "example_calls =
     [Mkdir ''/d'' 0x1ED, Create ''/d/f'' 0x81A4, Write ''/d/f'' ''hello'' 5 0]"

definition example_fs :: fs where
  "example_fs =
     (case spec_run example_env example_calls (spec_init example_env 55) of
        Inr (rs, a) \<Rightarrow> a
      | Inl e \<Rightarrow> spec_init example_env 55)"

lemma example_spec:
  "spec_run example_env example_calls (spec_init example_env 55) =
     Inr ([Code 0, Code 0, Code 5], example_fs)"
  by code_simp

lemma example_run_ok: "run_ok example_env 9 100 example_calls (spec_init example_env 55)"
  by code_simp

lemma example_height: "fheight (fs_tree example_fs) = 4"
  by code_simp

lemma example_file:
  "map_option fcontents (flookup [''d'', ''f''] (fs_tree example_fs)) = Some ''hello''"
  by code_simp

lemma example_state: "\<exists>f. fuse_ok example_fs f \<and> 1000 \<le> ids_left f"
proof -
  obtain f where f: "in_memory_fs example_env = Inr f" "fuse_ok (spec_init example_env 55) f"
    "ids_left f = 2 ^ 64 - 2"
    using in_memory_start by blast
  then have "100 \<le> ids_left f" by simp
  from fuse_run [OF f(2) example_run_ok this] obtain f' where
    "fuse_ok example_fs f'" "ids_left f - 100 \<le> ids_left f'"
    by (auto simp: example_spec)
  with f(3) show ?thesis by (intro exI [of _ f']) simp
qed

section \<open>Properties\<close>

text \<open>
  The constructor builds the empty file system: one directory named "/" with the
  attributes of the source, and no other block in the store.
\<close>

theorem in_memory_init:
  "\<exists>f. in_memory_fs env = Inr f \<and> fuse_ok (spec_init env 55) f \<and> mem_num_blocks (store f) = 1"
  using in_memory_start [of env] num_blocks_fsize [of "spec_init env 55"]
  by (fastforce simp: spec_init_def)

text \<open>
  C1. Every sequence of FUSE calls to the in-memory program, from its start, gives the replies
  of the abstract file system, and ends in a state that represents the abstract one with no block
  left over; when the specification ends with an error (a mode that is no file type, a read past the
  contents), so does the program, with that error.
\<close>

theorem in_memory_program:
  assumes "run_ok env fuel (2 ^ 64 - 2) calls (spec_init env 55)"
  shows "case spec_run env calls (spec_init env 55) of
       Inl e \<Rightarrow> in_memory_main fuel env calls = Inl e
     | Inr (rs, a') \<Rightarrow> \<exists>f'. in_memory_main fuel env calls = Inr (rs, f') \<and> fuse_ok a' f'"
proof -
  obtain f where f: "in_memory_fs env = Inr f" "fuse_ok (spec_init env 55) f" "ids_left f = 2 ^ 64 - 2"
    using in_memory_start by blast
  have "2 ^ 64 - 2 \<le> ids_left f" by (simp add: f(3))
  from fuse_run [OF f(2) assms this] f(1) show ?thesis
    by (auto simp: in_memory_main_def split: sum.splits)
qed

theorem in_memory_program_witness:
  "\<exists>f'. in_memory_main 9 example_env example_calls = Inr ([Code 0, Code 0, Code 5], f') \<and>
     fuse_ok example_fs f'"
proof -
  have "run_ok example_env 9 (2 ^ 64 - 2) example_calls (spec_init example_env 55)"
    by (rule run_ok_mono [OF example_run_ok]) simp
  from in_memory_program [OF this] show ?thesis by (simp add: example_spec)
qed

text \<open>
  The store of the program holds exactly the blocks of the tree: \<open>num_blocks\<close> is the
  number of its nodes (directories, files, links and leaves).
\<close>

theorem no_block_leaks:
  assumes "fuse_ok a f"
  shows "mem_num_blocks (store f) = fsize (fs_tree a)"
  by (rule num_blocks_fsize [OF assms])

theorem no_block_leaks_witness: "\<exists>f. fuse_ok example_fs f \<and> mem_num_blocks (store f) = 4"
proof -
  have "fsize (fs_tree example_fs) = 4" by code_simp
  with example_state no_block_leaks show ?thesis by metis
qed

text \<open>
  C4. \<open>mkdir\<close> implements its specification: it fails with 1 when the path exists or its
  parent does not, and otherwise adds an empty directory with the requested permissions, the
  caller's ids and the current time as the last child of the parent.
\<close>

theorem mkdir_implements:
  assumes "fuse_ok a f" and "fuse_path path" and "fheight (fs_tree a) \<le> fuel"
    and "length (fs_parts path) + 1 \<le> ids_left f"
  shows "\<exists>f'. mkdir fuel mem_bm mem_vm env path m f = Inr (fst (spec_mkdir env path m a), f') \<and>
     fuse_ok (snd (spec_mkdir env path m a)) f'"
proof -
  obtain T where T: "tree_state mem_lookup (mem_wf counter_fresh) T f" "no_garbage mem_lookup T f"
    "abs_fs T f = a" "fs_tree a = strip T"
    using assms(1) by (rule fuse_okD)
  from mem_fuse.mkdir_refines [OF T(1) assms(2) assms(3) [unfolded T(4)]
      assms(4) [unfolded ids_left_def], of env m] T(2,3)
  show ?thesis using fuse_ok_steps by fastforce
qed

theorem mkdir_implements_witness:
  "\<exists>f f'. in_memory_fs example_env = Inr f \<and>
     mkdir 1 mem_bm mem_vm example_env ''/a'' 0x1ED f = Inr (0, f') \<and>
     fuse_ok (snd (spec_mkdir example_env ''/a'' 0x1ED (spec_init example_env 55))) f'"
proof -
  obtain f where f: "in_memory_fs example_env = Inr f" "fuse_ok (spec_init example_env 55) f"
    "ids_left f = 2 ^ 64 - 2"
    using in_memory_start by blast
  have "fuse_path ''/a''" "length (fs_parts ''/a'') + 1 \<le> ids_left f"
    "fheight (fs_tree (spec_init example_env 55)) \<le> 1"
    by (simp_all add: fuse_path_def fs_parts_def f(3) spec_init_def)
  from mkdir_implements [OF f(2) this(1,3,2), of example_env "0x1ED"] f(1) show ?thesis
    by (auto simp: spec_mkdir_def spec_init_def fs_parts_def ffind_def Let_def)
qed

text \<open>
  C5. \<open>create\<close> implements its specification for a mode that is a file type: it fails with
  \<open>EEXIST\<close> when the path exists and with \<open>ENOENT\<close> when its parent does not, and otherwise
  adds an empty file with that mode.
\<close>

theorem create_implements:
  assumes "fuse_ok a f" and "fuse_path path" and "fheight (fs_tree a) < fuel"
    and "length (fs_parts path) + 1 \<le> ids_left f" and "Mode_of_mode_t m = Inr md"
  shows "\<exists>f'. create fuel mem_bm mem_vm env path m f = Inr (fst (spec_create env path md a), f') \<and>
     fuse_ok (snd (spec_create env path md a)) f'"
proof -
  obtain T where T: "tree_state mem_lookup (mem_wf counter_fresh) T f" "no_garbage mem_lookup T f"
    "abs_fs T f = a" "fs_tree a = strip T"
    using assms(1) by (rule fuse_okD)
  from mem_fuse.create_refines [OF T(1) assms(2) assms(3) [unfolded T(4)]
      assms(4) [unfolded ids_left_def] assms(5), of env] T(2,3)
  show ?thesis using fuse_ok_steps by fastforce
qed

theorem create_implements_witness:
  "\<exists>f f'. fuse_ok example_fs f \<and> create 9 mem_bm mem_vm example_env ''/d/g'' 0x81A4 f = Inr (0, f')"
proof -
  obtain f where f: "fuse_ok example_fs f" "1000 \<le> ids_left f" using example_state by blast
  let ?md = "\<lparr>user_mode = READ_WRITE, group_mode = READ, other_mode = READ, file_type_of = REGULAR\<rparr>"
  have path: "fuse_path ''/d/g''" "length (fs_parts ''/d/g'') + 1 \<le> ids_left f"
    using f(2) by (simp_all add: fuse_path_def fs_parts_def)
  have "Mode_of_mode_t 0x81A4 = Inr ?md" by code_simp
  from create_implements [OF f(1) path(1) _ path(2) this, of 9 example_env] f(1)
  have "\<exists>f'. create 9 mem_bm mem_vm example_env ''/d/g'' 0x81A4 f =
      Inr (fst (spec_create example_env ''/d/g'' ?md example_fs), f')"
    by (auto simp: example_height)
  moreover have "fst (spec_create example_env ''/d/g'' ?md example_fs) = 0" by code_simp
  ultimately show ?thesis using f(1) by auto
qed

text \<open>
  C3. \<open>rmdir\<close>, which is also \<open>unlink\<close>, implements its specification: it fails with 1 for
  the root or a path that does not exist, and otherwise removes the node and everything below it,
  leaving no block of the subtree in the store.
\<close>

theorem rmdir_implements:
  assumes "fuse_ok a f" and "path \<noteq> []" and "fheight (fs_tree a) \<le> fuel"
    and "length (fs_parts path) \<le> ids_left f"
  shows "\<exists>f'. rmdir fuel mem_bm mem_vm path f = Inr (fst (spec_rmdir path a), f') \<and>
     unlink (rmdir fuel mem_bm mem_vm) path f = Inr (fst (spec_rmdir path a), f') \<and>
     fuse_ok (snd (spec_rmdir path a)) f' \<and>
     mem_num_blocks (store f') = fsize (fs_tree (snd (spec_rmdir path a)))"
proof -
  obtain T where T: "tree_state mem_lookup (mem_wf counter_fresh) T f" "no_garbage mem_lookup T f"
    "abs_fs T f = a" "fs_tree a = strip T"
    using assms(1) by (rule fuse_okD)
  from mem_fuse.rmdir_refines [OF T(1) assms(2) assms(3) [unfolded T(4)]
      assms(4) [unfolded ids_left_def]] T(2,3)
  show ?thesis unfolding unlink_def using fuse_ok_steps num_blocks_fsize by fastforce
qed

theorem rmdir_implements_witness:
  "\<exists>f f'. fuse_ok example_fs f \<and> rmdir 9 mem_bm mem_vm ''/d'' f = Inr (0, f') \<and>
     mem_num_blocks (store f) = 4 \<and> mem_num_blocks (store f') = 1"
proof -
  obtain f where f: "fuse_ok example_fs f" "1000 \<le> ids_left f" using example_state by blast
  have p: "''/d'' \<noteq> []" "length (fs_parts ''/d'') \<le> ids_left f"
    using f(2) by (simp_all add: fs_parts_def)
  have "fst (spec_rmdir ''/d'' example_fs) = 0"
    "fsize (fs_tree (snd (spec_rmdir ''/d'' example_fs))) = 1" by code_simp+
  moreover have "fsize (fs_tree example_fs) = 4" by code_simp
  ultimately show ?thesis
    using rmdir_implements [OF f(1) p(1) _ p(2), of 9] f(1) num_blocks_fsize [OF f(1)]
    by (auto simp: example_height)
qed

text \<open>
  C2. \<open>write\<close> implements its specification, given a buffer of at least \<open>size\<close> bytes: it
  refuses a path that does not exist, a directory and an offset past the end, and otherwise replaces
  the bytes at the offset, rebuilds the file's tree of leaves and links and updates its size and
  times, freeing the old tree.
\<close>

theorem write_implements:
  assumes "fuse_ok a f" and "path \<noteq> []" and "fheight (fs_tree a) \<le> fuel"
    and "unat sz \<le> length buffer"
    and "call_cost env (Write path buffer sz offset :: unit fuse_call) a \<le> ids_left f"
  shows "\<exists>f'. fuse_write fuel mem_bm mem_vm env path buffer sz offset f =
       Inr (fst (spec_write env path buffer sz offset a), f') \<and>
     fuse_ok (snd (spec_write env path buffer sz offset a)) f'"
  by (rule write_ok [OF assms])

theorem write_implements_witness:
  "\<exists>f f'. fuse_ok example_fs f \<and>
     fuse_write 9 mem_bm mem_vm example_env ''/d/f'' ''LP'' 2 3 f = Inr (2, f') \<and>
     fuse_ok (snd (spec_write example_env ''/d/f'' ''LP'' 2 3 example_fs)) f'"
proof -
  obtain f where f: "fuse_ok example_fs f" "1000 \<le> ids_left f" using example_state by blast
  have "call_cost example_env (Write ''/d/f'' ''LP'' 2 3 :: unit fuse_call) example_fs \<le> 1000"
    by code_simp
  then have c: "call_cost example_env (Write ''/d/f'' ''LP'' 2 3 :: unit fuse_call) example_fs \<le> ids_left f"
    using f(2) by (rule le_trans)
  have "fst (spec_write example_env ''/d/f'' ''LP'' 2 3 example_fs) = 2" by code_simp
  with write_implements [OF f(1) _ _ _ c, of 9] f(1) show ?thesis
    by (auto simp: example_height)
qed



text \<open>
  C7. \<open>readdir\<close> implements its specification and changes nothing but \<open>errno\<close>: it hands
  the filler ".", ".." and then exactly the directories and files directly below the path, in the
  order of the tree, each with its attributes; a file's path gives ".", ".." and no entry that is
  a block of its contents.
\<close>

theorem readdir_implements:
  assumes "fuse_ok a f" and "path \<noteq> []" and "fheight (fs_tree a) \<le> fuel"
  shows "readdir fuel mem_bm path buf filler f =
     (case spec_readdir path buf filler a of (r, a') \<Rightarrow> Inr (r, f\<lparr>errno := fs_errno a'\<rparr>))"
proof -
  obtain T where T: "tree_state mem_lookup (mem_wf counter_fresh) T f" "abs_fs T f = a" "fs_tree a = strip T"
    using assms(1) by (rule fuse_okD)
  from mem_fuse.readdir_refines [OF T(1) assms(2) assms(3) [unfolded T(3)], of buf filler] T(2)
  show ?thesis by simp
qed

theorem readdir_implements_witness:
  "\<exists>f. fuse_ok example_fs f \<and> (\<exists>f'. readdir 9 mem_bm ''/d'' [] (\<lambda>b n st. (0, b @ [n])) f =
     Inr ((0, [''.'', ''..'', ''f'']), f'))"
proof -
  obtain f where f: "fuse_ok example_fs f" using example_state by blast
  have "spec_readdir ''/d'' [] (\<lambda>b n st. (0, b @ [n])) example_fs = ((0, [''.'', ''..'', ''f'']), example_fs)"
    by code_simp
  with readdir_implements [OF f, of "''/d''" 9 "[]" "\<lambda>b n st. (0, b @ [n])"] f
  show ?thesis by (auto simp: example_height)
qed

text \<open>
  \<open>getattr\<close> implements its specification: \<open>ENOENT\<close> for a path that does not exist,
  and otherwise the attributes of the node with the object's device number.
\<close>

theorem getattr_implements:
  assumes "fuse_ok a f" and "path \<noteq> []" and "fheight (fs_tree a) \<le> fuel"
  shows "\<exists>f'. getattr fuel mem_bm path stbuf f = Inr (fst (spec_getattr path stbuf a), f') \<and>
     fuse_ok (snd (spec_getattr path stbuf a)) f'"
  by (rule getattr_ok [OF assms])

theorem getattr_implements_witness:
  "\<exists>f. fuse_ok example_fs f \<and>
     (\<exists>st f'. getattr 9 mem_bm ''/d/f'' local_stbuf f = Inr ((0, st), f') \<and> st_size st = 5 \<and> st_dev st = 55)"
proof -
  obtain f where f: "fuse_ok example_fs f" using example_state by blast
  have "fst (fst (spec_getattr ''/d/f'' local_stbuf example_fs)) = 0"
    "st_size (snd (fst (spec_getattr ''/d/f'' local_stbuf example_fs))) = 5"
    "st_dev (snd (fst (spec_getattr ''/d/f'' local_stbuf example_fs))) = 55" by code_simp+
  with getattr_implements [OF f, of "''/d/f''" 9 local_stbuf] f show ?thesis
    by (auto simp: example_height prod_eq_iff)
qed

end
