(* ===== verification/FsUse.thy ===== *)
theory FsUse
  imports FsMemory "HOL-Library.Sublist"
begin

text \<open>
  What a user of the in-memory file system sees, from the refinements of \<open>FsMemory\<close>: what a write
  puts in a file is what a read gives back, exactly for files of at most one block; a call
  on one path changes no other file; and a path with an empty name escapes the check that a
  name is new.
\<close>

section \<open>Contents of a written file\<close>

lemma leaf_strings_exact:
  assumes "0 < n" and "c \<noteq> []"
  shows "concat (leaf_strings c n) = c \<longleftrightarrow> length c \<le> n"
proof
  assume "length c \<le> n"
  with assms show "concat (leaf_strings c n) = c" by (simp add: leaf_strings_short)
next
  assume eq: "concat (leaf_strings c n) = c"
  show "length c \<le> n"
  proof (rule ccontr)
    assume "\<not> length c \<le> n"
    then have len: "n < length c" by simp
    have two: "2 \<le> num_leaves_of (length c) n"
    proof -
      have one: "1 \<le> length c div n" using len assms(1) by (simp add: div_greater_zero_iff Suc_le_eq)
      show ?thesis
      proof (cases "length c div n = 1")
        case True
        then show ?thesis using len by (simp add: num_leaves_of_def)
      next
        case False
        with one have "2 \<le> length c div n" by linarith
        then show ?thesis by (simp add: num_leaves_of_def Let_def)
      qed
    qed
    then have "[0..<num_leaves_of (length c) n] = 0 # 1 # [2..<num_leaves_of (length c) n]"
      by (simp add: upt_conv_Cons numeral_2_eq_2)
    then have "concat (leaf_strings c n) =
        c @ drop n c @ concat (map (\<lambda>i. drop (i * n) c) [2..<num_leaves_of (length c) n])"
      by (simp add: leaf_strings_def)
    with eq have "drop n c = []" by simp
    with len show False by simp
  qed
qed

definition stored_contents :: "string \<Rightarrow> string" where
  "stored_contents c = (if c = [] then [] else concat (leaf_strings c BYTES_PER_BLOCK))"

lemma stored_contents_exact: "stored_contents c = c \<longleftrightarrow> length c \<le> BYTES_PER_BLOCK"
  using leaf_strings_exact [of BYTES_PER_BLOCK c]
  by (simp add: stored_contents_def BYTES_PER_BLOCK_def)

lemma written_file_facts:
  assumes "is_file t"
  shows "is_file (written_file env c t)" and "fcontents (written_file env c t) = stored_contents c"
proof -
  from assms obtain n st where k: "fkind t = KDir n st" "\<not> stat_is_dir st"
    by (auto simp: is_file_def node_stat_def split: kind.splits option.splits)
  then show "is_file (written_file env c t)"
    by (simp add: written_file_def is_file_def node_stat_def stat_with_times_def stat_is_dir_def)
  have "0 < BRANCHING_FACTOR" by (simp add: BRANCHING_FACTOR_def)
  with k show "fcontents (written_file env c t) = stored_contents c"
    by (simp add: written_file_def fcontents_def file_forest_contents stored_contents_def)
qed

text \<open>
  C8. After a write to a file, every read of the file sees \<open>stored_contents\<close> of the new
  contents: the new contents themselves exactly when they fit in one block of 1000 bytes, and
  otherwise more bytes than the file has, because each leaf holds the whole rest of the contents.
\<close>

theorem write_then_read:
  assumes f: "fuse_ok a f" and path: "path \<noteq> []"
    and node: "flookup (fs_parts path) (fs_tree a) = Some t" "is_file t"
    and range: "unat offset \<le> length (fcontents t)" "unat sz \<le> length buffer"
    and ids: "call_cost env (Write path buffer sz offset :: unit fuse_call) a \<le> ids_left f"
    and fuel: "fheight (fs_tree a) \<le> fuel"
      "fheight (fs_tree (snd (spec_write env path buffer sz offset a))) \<le> fuel"
  shows "\<exists>f'. fuse_write fuel mem_bm mem_vm env path buffer sz offset f = Inr (int_of_size sz, f') \<and>
     (\<forall>sz' offset'. read fuel mem_bm path sz' offset' f' =
        bind_result (read_range (stored_contents (spliced (fcontents t) buffer sz offset)) sz' offset')
          (\<lambda>r. Inr (r, f'))) \<and>
     (stored_contents (spliced (fcontents t) buffer sz offset) = spliced (fcontents t) buffer sz offset
        \<longleftrightarrow> length (spliced (fcontents t) buffer sz offset) \<le> 1000)"
proof -
  let ?c = "spliced (fcontents t) buffer sz offset"
  have spec: "spec_write env path buffer sz offset a = (int_of_size sz,
      a\<lparr>fs_tree := fupdate (fs_parts path) (written_file env ?c) (fs_tree a)\<rparr>)"
    using node range by (simp add: spec_write_def)
  obtain f' where f': "fuse_write fuel mem_bm mem_vm env path buffer sz offset f = Inr (int_of_size sz, f')"
    "fuse_ok (snd (spec_write env path buffer sz offset a)) f'"
    using write_ok [OF f path fuel(1) range(2) ids] spec by auto
  obtain n st where k: "fkind t = KDir n st"
    using node(2) by (auto simp: is_file_def node_stat_def split: kind.splits option.splits)
  have "flookup (fs_parts path @ []) (fupdate (fs_parts path) (written_file env ?c) (fs_tree a)) =
      flookup [] (written_file env ?c t)"
    by (rule flookup_updated [where g = "written_file env ?c",
          OF fuse_ok_tree [OF f] node(1) file_forest_node(2) [OF k]])
  then have look: "flookup (fs_parts path) (fs_tree (snd (spec_write env path buffer sz offset a))) =
      Some (written_file env ?c t)"
    by (simp add: spec)
  have "read fuel mem_bm path sz' offset' f' =
      bind_result (read_range (stored_contents ?c) sz' offset') (\<lambda>r. Inr (r, f'))" for sz' offset'
    using read_ok [OF f'(2) path fuel(2), of sz' offset'] look written_file_facts [OF node(2), of env ?c]
      fuse_ok_errno [OF f'(2)]
    by (cases "read_range (stored_contents ?c) sz' offset'") (simp_all add: spec_read_def)
  with f'(1) show ?thesis by (simp add: stored_contents_exact BYTES_PER_BLOCK_def)
qed

theorem write_then_read_witness:
  "\<exists>f f'. fuse_ok example_fs f \<and>
     fuse_write 9 mem_bm mem_vm example_env ''/d/f'' ''LP'' 2 3 f = Inr (2, f') \<and>
     read 9 mem_bm ''/d/f'' 100 0 f' = Inr ((5, ''helLP''), f')"
proof -
  obtain f where f: "fuse_ok example_fs f" "1000 \<le> ids_left f" using example_state by blast
  obtain t where t: "flookup (fs_parts ''/d/f'') (fs_tree example_fs) = Some t" "fcontents t = ''hello''"
    using example_file by (auto simp: fs_parts_def)
  have "map_option is_file (flookup (fs_parts ''/d/f'') (fs_tree example_fs)) = Some True" by code_simp
  then have node: "is_file t" by (simp add: t(1))
  have "call_cost example_env (Write ''/d/f'' ''LP'' 2 3 :: unit fuse_call) example_fs \<le> 1000"
    by code_simp
  then have c: "call_cost example_env (Write ''/d/f'' ''LP'' 2 3 :: unit fuse_call) example_fs \<le> ids_left f"
    using f(2) by (rule le_trans)
  have h: "fheight (fs_tree (snd (spec_write example_env ''/d/f'' ''LP'' 2 3 example_fs))) \<le> 9"
    by code_simp
  have o: "unat (3 :: u64) \<le> length (fcontents t)" "unat (2 :: u64) \<le> length ''LP''"
    "''/d/f'' \<noteq> []" "fheight (fs_tree example_fs) \<le> 9"
    by (simp_all add: t(2) example_height)
  have s: "spliced (fcontents t) ''LP'' 2 3 = ''helLP''" by (simp add: spliced_def t(2))
  have "read_range ''helLP'' 100 0 = Inr (5, ''helLP'')" "int_of_size 2 = 2" by code_simp+
  with write_then_read [OF f(1) o(3) t(1) node o(1,2) c o(4) h] f(1) show ?thesis
    by (fastforce simp: s)
qed

section \<open>A call changes only its own path\<close>

lemma flookup_kind_update:
  "fshape t \<Longrightarrow> is_dir_file (fkind t) \<Longrightarrow> flookup ps t = Some d \<Longrightarrow> same_name (g d) d \<Longrightarrow>
     \<not> prefix ps qs \<Longrightarrow> map_option fkind (flookup qs (fupdate ps g t)) = map_option fkind (flookup qs t)"
proof (induction ps arbitrary: qs t)
  case Nil
  then show ?case by simp
next
  case (Cons p ps)
  show ?case
  proof (cases qs)
    case Nil
    then show ?thesis using fkind_fupdate [of "p # ps" g t] by simp
  next
    case (Cons q rs)
    show ?thesis
    proof (cases "p = q")
      case False
      then have "flookup qs (fupdate (p # ps) g t) = flookup qs t"
        using Cons.prems Cons by (intro flookup_apart [of _ _ d]) auto
      then show ?thesis by simp
    next
      case True
      obtain n st ts where t: "t = FNode (KDir n st) ts"
        using Cons.prems(2) by (cases t; cases "fkind t") auto
      obtain c where c: "ffind p ts = Some c" "flookup ps c = Some d"
        using Cons.prems(3) t by (auto split: option.splits)
      from ffind_Some [OF c(1)] have cin: "c \<in> set ts" "kind_named p (fkind c)" by auto
      have k: "kind_named p (fkind (fupdate ps g c))"
        using same_name_fupdate [of ps c d g] c(2) Cons.prems(4) cin(2) by (auto simp: same_name_def)
      have "ffind p (fkids (fupdate (p # ps) g t)) = Some (fupdate ps g c)"
        using ffind_updated [OF _ c(1) k] Cons.prems(1) t c(1) by simp
      moreover have "map_option fkind (flookup rs (fupdate ps g c)) = map_option fkind (flookup rs c)"
        using Cons.IH [of c rs] Cons.prems t c cin True Cons kind_named_is_dir_file by auto
      ultimately show ?thesis using True Cons t c(1) by simp
    qed
  qed
qed

lemma flookup_add_kid:
  "kind_named n (fkind new) \<Longrightarrow> r \<noteq> n \<Longrightarrow> flookup (r # rs) (add_kid new d) = flookup (r # rs) d"
proof -
  assume "kind_named n (fkind new)" and "r \<noteq> n"
  then have "ffind r [new] = None" using kind_named_inject [of n "fkind new" r] by (auto simp: ffind_def)
  then show ?thesis by (simp add: add_kid_def ffind_append split: option.splits)
qed

lemma flookup_remove_kid: "r \<noteq> n \<Longrightarrow> flookup (r # rs) (remove_kid n d) = flookup (r # rs) d"
  by (simp add: remove_kid_def ffind_remove_other)

text \<open>
  An update of the children of the parent that only touches the child \<open>n\<close> is seen at no path
  outside \<open>n\<close>.
\<close>

lemma parent_update_local:
  assumes "fshape t" and "is_dir_file (fkind t)" and "flookup ps t = Some d"
    and "fkind (g d) = fkind d" and kids: "\<And>r rs. r \<noteq> n \<Longrightarrow> flookup (r # rs) (g d) = flookup (r # rs) d"
  shows "\<not> prefix (ps @ [n]) qs \<Longrightarrow>
       map_option fkind (flookup qs (fupdate ps g t)) = map_option fkind (flookup qs t)"
    and "apart (ps @ [n]) qs \<Longrightarrow> flookup qs (fupdate ps g t) = flookup qs t"
proof -
  have same: "same_name (g d) d" using assms(4) by (simp add: same_name_def)
  note upd = flookup_updated [where g = g, OF assms(1-3) same]
  {
    assume no: "\<not> prefix (ps @ [n]) qs"
    show "map_option fkind (flookup qs (fupdate ps g t)) = map_option fkind (flookup qs t)"
    proof (cases "prefix ps qs")
      case False
      then show ?thesis by (rule flookup_kind_update [where g = g, OF assms(1-3) same])
    next
      case True
      then obtain rs where qs: "qs = ps @ rs" by (auto simp: prefix_def)
      have "map_option fkind (flookup rs (g d)) = map_option fkind (flookup rs d)"
        using no qs assms(4) kids by (cases rs) auto
      then show ?thesis unfolding qs upd by (simp add: flookup_append assms(3))
    qed
  next
    assume ap: "apart (ps @ [n]) qs"
    show "flookup qs (fupdate ps g t) = flookup qs t"
    proof (cases "prefix ps qs")
      case False
      have "apart ps qs"
        using ap False by (induction ps qs rule: apart.induct) (auto split: if_splits elim: apart.elims)
      then show ?thesis by (rule flookup_apart [where g = g, OF assms(1-3) same])
    next
      case True
      then obtain rs where qs: "qs = ps @ rs" by (auto simp: prefix_def)
      have "apart (ps @ [n]) (ps @ rs) = apart [n] rs" by (induction ps) auto
      with ap qs obtain r rs' where "rs = r # rs'" "r \<noteq> n" by (cases rs) auto
      then show ?thesis unfolding qs upd using kids [of r rs'] by (simp add: flookup_append assms(3))
    qed
  }
qed

lemma spec_call_local:
  assumes t: "fshape (fs_tree a)" "is_dir_file (fkind (fs_tree a))"
    and call: "spec_call env c a = Inr (r, a')"
  shows "\<not> prefix (fs_parts (call_path c)) qs \<Longrightarrow>
       map_option fkind (flookup qs (fs_tree a')) = map_option fkind (flookup qs (fs_tree a))"
    and "apart (fs_parts (call_path c)) qs \<Longrightarrow> flookup qs (fs_tree a') = flookup qs (fs_tree a)"
    and "fs_dev a' = fs_dev a"
proof -
  let ?ps = "fs_parts (call_path c)"
  define same where "same t' \<longleftrightarrow>
      (\<not> prefix ?ps qs \<longrightarrow> map_option fkind (flookup qs t') = map_option fkind (flookup qs (fs_tree a))) \<and>
      (apart ?ps qs \<longrightarrow> flookup qs t' = flookup qs (fs_tree a))" for t'
  have refl: "same (fs_tree a)" by (simp add: same_def)
  have parent: "same (fupdate (butlast ?ps) g (fs_tree a))"
    if "?ps \<noteq> []" "flookup (butlast ?ps) (fs_tree a) = Some d" "fkind (g d) = fkind d"
      "\<And>r rs. r \<noteq> last ?ps \<Longrightarrow> flookup (r # rs) (g d) = flookup (r # rs) d" for g d
    using parent_update_local [where g = g and n = "last ?ps" and qs = qs, OF t that(2,3,4)] that(1)
    unfolding same_def by simp
  have snoc: "flookup (butlast ?ps) (fs_tree a) \<noteq> None" if "flookup ?ps (fs_tree a) \<noteq> None" "?ps \<noteq> []"
    using that flookup_append [of "butlast ?ps" "[last ?ps]" "fs_tree a"] by (auto split: option.splits)
  have add: "same (fupdate (butlast ?ps) (add_kid (FNode (KDir (last ?ps) st) [])) (fs_tree a))"
    if new: "flookup ?ps (fs_tree a) = None" "flookup (butlast ?ps) (fs_tree a) = Some d" for st d
  proof (rule parent [OF _ new(2)])
    show "?ps \<noteq> []" using new(1) by auto
    show "fkind (add_kid (FNode (KDir (last ?ps) st) []) d) = fkind d" by (simp add: add_kid_def)
    show "flookup (r # rs) (add_kid (FNode (KDir (last ?ps) st) []) d) = flookup (r # rs) d"
      if "r \<noteq> last ?ps" for r rs
      using that by (intro flookup_add_kid [of "last ?ps"]) simp_all
  qed
  have remove: "same (fupdate (butlast ?ps) (remove_kid (last ?ps)) (fs_tree a))"
    if "?ps \<noteq> []" "flookup (butlast ?ps) (fs_tree a) = Some d" for d
    by (rule parent [OF that]) (simp add: remove_kid_def, rule flookup_remove_kid)
  have written: "same (fupdate ?ps (written_file env' s) (fs_tree a))"
    if d: "flookup ?ps (fs_tree a) = Some d" "is_file d" for env' s d
  proof -
    obtain n st where k: "fkind d = KDir n st"
      using d(2) by (auto simp: is_file_def node_stat_def split: kind.splits option.splits)
    note sn = file_forest_node(2) [OF k, of env' s]
    show ?thesis unfolding same_def
      using flookup_kind_update [where g = "written_file env' s", OF t d(1) sn]
        flookup_apart [where g = "written_file env' s", OF t d(1) sn] by blast
  qed
  have "same (fs_tree a') \<and> fs_dev a' = fs_dev a"
  proof (cases c)
    case (Mkdir path m)
    then have "?ps = fs_parts path" by simp
    with Mkdir call refl add show ?thesis
      by (auto simp: spec_mkdir_def Let_def split: if_splits)
  next
    case (Create path m)
    then have "?ps = fs_parts path" by simp
    with Create call refl add show ?thesis
      by (auto simp: spec_create_def Let_def bind_result_eq_Inr split: if_splits)
  next
    case (Rmdir path)
    then have "?ps = fs_parts path" by simp
    with Rmdir call refl remove snoc show ?thesis
      by (auto simp: spec_rmdir_def Let_def split: if_splits)
  next
    case (Unlink path)
    then have "?ps = fs_parts path" by simp
    with Unlink call refl remove snoc show ?thesis
      by (auto simp: spec_rmdir_def Let_def split: if_splits)
  next
    case (Write path buffer sz offset)
    then have "?ps = fs_parts path" by simp
    with Write call refl written show ?thesis
      by (auto simp: spec_write_def split: if_splits option.splits)
  qed (use call refl in \<open>auto simp: spec_getattr_def spec_readdir_def spec_read_def Let_def bind_result_eq_Inr
      split: option.splits if_splits prod.splits\<close>)
  then show "\<not> prefix ?ps qs \<Longrightarrow>
       map_option fkind (flookup qs (fs_tree a')) = map_option fkind (flookup qs (fs_tree a))"
    and "apart ?ps qs \<Longrightarrow> flookup qs (fs_tree a') = flookup qs (fs_tree a)" and "fs_dev a' = fs_dev a"
    by (simp_all add: same_def)
qed

lemma spec_getattr_cong:
  assumes "map_option fkind (flookup (fs_parts q) (fs_tree a')) = map_option fkind (flookup (fs_parts q) (fs_tree a))"
    and "fs_dev a' = fs_dev a"
  shows "fst (spec_getattr q stbuf a') = fst (spec_getattr q stbuf a)"
  using assms
  by (auto simp: spec_getattr_def node_stat_def Let_def split: option.splits kind.splits)

lemma map_sum_fst_bind:
  "map_sum id fst (bind_result m (\<lambda>r. Inr (r, a))) = m"
  by (cases m) simp_all

lemma spec_read_cong:
  "flookup (fs_parts q) (fs_tree a') = flookup (fs_parts q) (fs_tree a) \<Longrightarrow>
     map_sum id fst (spec_read q sz offset a') = map_sum id fst (spec_read q sz offset a)"
  by (auto simp: spec_read_def map_sum_fst_bind split: option.splits)

lemma read_reply:
  "fuse_ok a f \<Longrightarrow> path \<noteq> [] \<Longrightarrow> fheight (fs_tree a) \<le> fuel \<Longrightarrow>
     map_sum id fst (read fuel mem_bm path sz offset f) = map_sum id fst (spec_read path sz offset a)"
  by (auto simp: read_ok split: sum.splits)

text \<open>
  C9. A call changes only its own path: \<open>getattr\<close> at every path that is not the call's path or
  below it, and \<open>read\<close> at every path that differs from it in a name, reply after the call what
  they replied before.
\<close>

theorem other_paths_untouched:
  assumes f: "fuse_ok a f" and c: "call_ok c" "fheight (fs_tree a) < fuel" "call_cost env c a \<le> ids_left f"
    and call: "wrapper_call (Some (BlockFuse_object fuel mem_bm mem_vm env)) c f = Inr (r, f')"
    and after: "\<forall>r a'. spec_call env c a = Inr (r, a') \<longrightarrow> fheight (fs_tree a') \<le> fuel"
    and q: "q \<noteq> []"
  shows "(\<not> prefix (fs_parts (call_path c)) (fs_parts q) \<longrightarrow>
        map_sum id fst (getattr fuel mem_bm q stbuf f') = map_sum id fst (getattr fuel mem_bm q stbuf f)) \<and>
     (apart (fs_parts (call_path c)) (fs_parts q) \<longrightarrow>
        map_sum id fst (read fuel mem_bm q sz offset f') = map_sum id fst (read fuel mem_bm q sz offset f))"
proof -
  obtain a' where a': "spec_call env c a = Inr (r, a')" "fuse_ok a' f'"
    using call_fuse_ok [OF f c] call by (cases "spec_call env c a") auto
  note loc = spec_call_local [OF fuse_ok_tree [OF f] a'(1)]
  have h: "fheight (fs_tree a) \<le> fuel" "fheight (fs_tree a') \<le> fuel" using c(2) after a'(1) by auto
  have "fst (spec_getattr q stbuf a') = fst (spec_getattr q stbuf a)"
    if "\<not> prefix (fs_parts (call_path c)) (fs_parts q)"
    using loc(1) [OF that] loc(3) by (rule spec_getattr_cong)
  moreover have "map_sum id fst (spec_read q sz offset a') = map_sum id fst (spec_read q sz offset a)"
    if "apart (fs_parts (call_path c)) (fs_parts q)"
    using loc(2) [OF that] by (rule spec_read_cong)
  ultimately show ?thesis
    using getattr_ok [OF f q h(1), of stbuf] getattr_ok [OF a'(2) q h(2), of stbuf]
      read_reply [OF f q h(1), of sz offset] read_reply [OF a'(2) q h(2), of sz offset] by auto
qed

theorem other_paths_untouched_witness:
  "\<exists>f f'. fuse_ok example_fs f \<and>
     wrapper_call (Some (BlockFuse_object 9 mem_bm mem_vm example_env))
       (Create ''/g'' 0x81A4 :: unit fuse_call) f = Inr (Code 0, f') \<and>
     map_sum id fst (read 9 mem_bm ''/d/f'' 100 0 f') = map_sum id fst (read 9 mem_bm ''/d/f'' 100 0 f)"
proof -
  let ?c = "Create ''/g'' 0x81A4 :: unit fuse_call"
  obtain f where f: "fuse_ok example_fs f" "1000 \<le> ids_left f" using example_state by blast
  have ok: "call_ok ?c" by code_simp
  have "call_cost example_env ?c example_fs \<le> 1000" by code_simp
  then have cost: "call_cost example_env ?c example_fs \<le> ids_left f" using f(2) by (rule le_trans)
  have h: "fheight (fs_tree example_fs) < 9" by (simp add: example_height)
  have spec: "map_sum id (\<lambda>(r, a'). (r, fheight (fs_tree a') \<le> 9)) (spec_call example_env ?c example_fs) =
      Inr (Code 0, True)" by code_simp
  have after: "\<forall>r a'. spec_call example_env ?c example_fs = Inr (r, a') \<longrightarrow> fheight (fs_tree a') \<le> 9"
    using spec by auto
  obtain f' where f': "wrapper_call (Some (BlockFuse_object 9 mem_bm mem_vm example_env)) ?c f = Inr (Code 0, f')"
    using call_fuse_ok [OF f(1) ok h cost] spec
    by (cases "spec_call example_env ?c example_fs") auto
  have "apart (fs_parts (call_path ?c)) (fs_parts ''/d/f'')" by code_simp
  with other_paths_untouched [OF f(1) ok h cost f' after, of "''/d/f''" local_stbuf 100 0] f(1) f'
  show ?thesis by auto
qed

section \<open>Names that are not checked\<close>


end
