(* ===== verification/FsFrame.thy ===== *)
theory FsFrame
  imports FsUse
begin

text \<open>
  What no operation of \<open>BlockFuse\<close> breaks. The operations change an object by writing the store
  and \<open>errno\<close> and by calling the two virtual methods, so a property of the object that does not
  look at the first two and that the methods keep is kept by every call. Subclasses use it for the
  fields they add.
\<close>

locale fuse_frame =
  fixes vm :: "('s, 'm) fuse_methods"
    and P :: "('s, 'm) block_fuse_scheme \<Rightarrow> bool"
  assumes P_store: "P (f\<lparr>store := s\<rparr>) = P f"
    and P_errno: "P (f\<lparr>errno := e\<rparr>) = P f"
    and P_free: "P f \<Longrightarrow> free_block vm i f = Inr f' \<Longrightarrow> P f'"
    and P_root: "P f \<Longrightarrow> set_root_block vm r f = Inr f' \<Longrightarrow> P f'"
begin

lemmas P_simps = P_store P_errno

lemma free_blocks_frame: "free_blocks vm bs f = Inr f' \<Longrightarrow> P f \<Longrightarrow> P f'"
  by (induction bs arbitrary: f) (auto simp: result_simps dest: P_free)

lemma set_root_frame: "set_root_block vm r f = Inr f' \<Longrightarrow> P f \<Longrightarrow> P f'"
  by (rule P_root)

lemma get_path_frame: "get_path fuel bm path f = Inr (bs, f') \<Longrightarrow> P f' = P f"
  by (auto simp: get_path_def P_simps result_simps)

lemma getattr_frame: "getattr fuel bm path st f = Inr (r, f') \<Longrightarrow> P f' = P f"
  by (auto simp: getattr_def resolve_inode_def set_no_such_file_or_dir_def P_simps result_simps
      split: option.splits dest: get_path_frame)

lemma mkdir_valid_frame: "mkdir_valid fuel bm path f = Inr (r, f') \<Longrightarrow> P f' = P f"
  by (auto simp: mkdir_valid_def result_simps split: if_splits dest!: getattr_frame get_path_frame)

lemma mkdir_frame: "mkdir fuel bm vm env path m f = Inr (r, f') \<Longrightarrow> P f \<Longrightarrow> P f'"
  by (auto simp: mkdir_def Let_def P_simps result_simps split: if_splits
      dest!: mkdir_valid_frame set_root_frame free_blocks_frame)

lemma rmdir_frame: "rmdir fuel bm vm path f = Inr (r, f') \<Longrightarrow> P f \<Longrightarrow> P f'"
  by (auto simp: rmdir_def Let_def P_simps result_simps split: if_splits
      dest!: get_path_frame set_root_frame free_blocks_frame)

lemma readdir_frame: "readdir fuel bm path b fl f = Inr (r, f') \<Longrightarrow> P f' = P f"
  by (auto simp: readdir_def set_no_such_file_or_dir_def Let_def P_simps result_simps
      split: if_splits option.splits prod.splits dest!: get_path_frame)

lemma read_frame: "read fuel bm path sz offset f = Inr (r, f') \<Longrightarrow> P f' = P f"
  by (auto simp: read_def set_no_such_file_or_dir_def Let_def P_simps result_simps
      split: if_splits option.splits prod.splits dest!: get_path_frame)

lemma create_file_block_frame:
  "create_file_block fuel bm vm env path sz md f = Inr (r, f') \<Longrightarrow> P f \<Longrightarrow> P f'"
  by (auto simp: create_file_block_def Let_def P_simps result_simps split: if_splits
      dest!: get_path_frame set_root_frame free_blocks_frame)

lemma create_frame: "create fuel bm vm env path m f = Inr (r, f') \<Longrightarrow> P f \<Longrightarrow> P f'"
  by (auto simp: create_def set_file_exists_def set_no_such_file_or_dir_def Let_def P_simps result_simps
      split: if_splits dest!: get_path_frame create_file_block_frame)

lemma write_node_frame:
  "write_file_starting_at_node fuel bm vm env bs c f = Inr f' \<Longrightarrow> P f \<Longrightarrow> P f'"
  by (auto simp: write_file_starting_at_node_def Let_def P_simps result_simps split: if_splits
      dest!: set_root_frame free_blocks_frame)

lemma write_frame: "fuse_write fuel bm vm env path b sz offset f = Inr (r, f') \<Longrightarrow> P f \<Longrightarrow> P f'"
  by (auto simp: fuse_write_def set_error_because_dir_def set_no_such_file_or_dir_def Let_def P_simps
      result_simps split: if_splits dest!: get_path_frame write_node_frame)

lemma call_frame:
  "wrapper_call (Some (BlockFuse_object fuel bm vm env)) c f = Inr (r, f') \<Longrightarrow> P f \<Longrightarrow> P f'"
  by (cases c) (auto simp: BlockFuse_object_def reply_def unlink_def result_simps
      dest!: getattr_frame mkdir_frame rmdir_frame readdir_frame read_frame create_frame write_frame)

lemma run_frame:
  "wrapper_run (Some (BlockFuse_object fuel bm vm env)) cs f = Inr (rs, f') \<Longrightarrow> P f \<Longrightarrow> P f'"
proof (induction cs arbitrary: f rs)
  case (Cons c cs)
  then obtain r f1 rs1 where "wrapper_call (Some (BlockFuse_object fuel bm vm env)) c f = Inr (r, f1)"
    "wrapper_run (Some (BlockFuse_object fuel bm vm env)) cs f1 = Inr (rs1, f')"
    by (auto simp: result_simps)
  with Cons show ?case using call_frame by blast
qed simp

end

end
