(* ===== verification/Revertible.thy ===== *)
theory Revertible
  imports FsFrame
begin

text \<open>
  \<open>RevertibleBlockFuse\<close> (\<open>revertible_block_fuse.hpp\<close>, \<open>revertible_block_fuse.cc\<close>): a
  \<open>BlockFuse\<close> whose state has two more fields. Making a directory whose path starts with the
  sentinel records the current root as a checkpoint and stops the freeing of blocks; removing it
  makes the recorded root current again.
\<close>

section \<open>State and operations\<close>

record 's revertible = "'s block_fuse" +
  checkpoint_requested :: bool
  checkpoints :: "string \<rightharpoonup> block option"

definition REVERT_DIR_SENTINEL :: string where
  "REVERT_DIR_SENTINEL = ''/__checkpoint_''"

definition RevertibleBlockFuse_init ::
  "'s block_manager \<Rightarrow> os_env \<Rightarrow> dev_t \<Rightarrow> 's \<Rightarrow> 's revertible result" where
  "RevertibleBlockFuse_init bm env d s =
     bind_result (BlockFuse_init bm env d s) (\<lambda>f.
       Inr (block_fuse.extend f (revertible.fields False Map.empty)))"

definition checkpoint :: "'s revertible \<Rightarrow> block option \<times> 's revertible" where
  "checkpoint f = (let f' = f\<lparr>checkpoint_requested := True\<rparr> in (root_block f', f'))"

definition rev_free_block :: "'s block_manager \<Rightarrow> block_id \<Rightarrow> 's revertible \<Rightarrow> 's revertible result" where
  "rev_free_block bm block_id f =
     (if checkpoint_requested f then Inr f else Inr (f\<lparr>store := bm_free bm block_id (store f)\<rparr>))"

definition Revertible_methods ::
  "'s block_manager \<Rightarrow> ('s, \<lparr>checkpoint_requested :: bool, checkpoints :: string \<rightharpoonup> block option\<rparr>) fuse_methods" where
  "Revertible_methods bm = \<lparr>free_block = rev_free_block bm, set_root_block = base_set_root_block\<rparr>"

definition revert :: "'s block_manager \<Rightarrow> block option \<Rightarrow> 's revertible \<Rightarrow> 's revertible result" where
  "revert bm reverted_root f = set_root_block (Revertible_methods bm) reverted_root f"

text \<open>
  \<open>std::mismatch\<close> of the sentinel with the path, up to whether it reaches the sentinel's end. A
  path that ends before the sentinel is compared at its terminating null character, which differs
  from every character of the sentinel.
\<close>

fun mismatch_at_end :: "string \<Rightarrow> string \<Rightarrow> bool" where
  "mismatch_at_end [] path_str = True"
| "mismatch_at_end (c # cs) [] = False"
| "mismatch_at_end (c # cs) (d # ds) = (c = d \<and> mismatch_at_end cs ds)"

definition rev_mkdir ::
  "nat \<Rightarrow> 's block_manager \<Rightarrow> os_env \<Rightarrow> string \<Rightarrow> mode_t \<Rightarrow> 's revertible \<Rightarrow> (int \<times> 's revertible) result"
where
  "rev_mkdir fuel bm env path m f =
     (let f1 = (if mismatch_at_end REVERT_DIR_SENTINEL path
                then case checkpoint f of
                       (root, f') \<Rightarrow> f'\<lparr>checkpoints := (checkpoints f')(path \<mapsto> root)\<rparr>
                else f)
      in mkdir fuel bm (Revertible_methods bm) env path m f1)"

text \<open>
  \<open>rmdir\<close> of a checkpoint reverts to it and then flows off the end of the function without
  returning a value, which is undefined; \<open>rmdir_reverted\<close> is the object at that point.
\<close>

definition rmdir_reverted ::
  "'s block_manager \<Rightarrow> string \<Rightarrow> block option \<Rightarrow> 's revertible \<Rightarrow> 's revertible result" where
  "rmdir_reverted bm path root f =
     bind_result (revert bm root f) (\<lambda>f1. Inr (f1\<lparr>checkpoints := (checkpoints f1)(path := None)\<rparr>))"

definition rev_rmdir ::
  "nat \<Rightarrow> 's block_manager \<Rightarrow> string \<Rightarrow> 's revertible \<Rightarrow> (int \<times> 's revertible) result" where
  "rev_rmdir fuel bm path f =
     (case checkpoints f path of
        None \<Rightarrow> rmdir fuel bm (Revertible_methods bm) path f
      | Some root \<Rightarrow>
          bind_result (rmdir_reverted bm path root f) (\<lambda>_.
            Inl (Undefined_Behaviour ''rmdir returns no value'')))"

definition RevertibleBlockFuse_object ::
  "nat \<Rightarrow> 's block_manager \<Rightarrow> os_env \<Rightarrow> ('s revertible, 'b) fuse_object" where
  "RevertibleBlockFuse_object fuel bm env =
     (BlockFuse_object fuel bm (Revertible_methods bm) env)
       \<lparr>obj_mkdir := rev_mkdir fuel bm env, obj_rmdir := rev_rmdir fuel bm,
        obj_unlink := unlink (rev_rmdir fuel bm)\<rparr>"

lemma mismatch_at_end_iff: "mismatch_at_end xs ys \<longleftrightarrow> prefix xs ys"
  by (induction xs ys rule: mismatch_at_end.induct) auto

section \<open>The operations leave the fields of the subclass alone\<close>

interpretation rev_more: fuse_frame "Revertible_methods bm" "\<lambda>f. block_fuse.more f = m" for bm m
  by unfold_locales (auto simp: Revertible_methods_def rev_free_block_def base_set_root_block_def
      split: if_splits)

section \<open>Calls on a revertible file system\<close>

text \<open>The calls that only add blocks, and the calls that revert.\<close>

fun additive :: "'b fuse_call \<Rightarrow> bool" where
  "additive (Rmdir path) = False"
| "additive (Unlink path) = False"
| "additive (Write path buffer sz offset) = False"
| "additive c = True"

fun removed_path :: "'b fuse_call \<Rightarrow> string option" where
  "removed_path (Rmdir path) = Some path"
| "removed_path (Unlink path) = Some path"
| "removed_path c = None"

lemma additive_removed: "additive c \<Longrightarrow> removed_path c = None"
  by (cases c) simp_all

text \<open>The object in which a call runs the operation of \<open>BlockFuse\<close>.\<close>

fun take_checkpoint :: "'b fuse_call \<Rightarrow> 's revertible \<Rightarrow> 's revertible" where
  "take_checkpoint (Mkdir path m) f =
     (if mismatch_at_end REVERT_DIR_SENTINEL path
      then f\<lparr>checkpoint_requested := True, checkpoints := (checkpoints f)(path \<mapsto> root_block f)\<rparr>
      else f)"
| "take_checkpoint c f = f"

lemma take_checkpoint_same:
  "store (take_checkpoint c f) = store f" "tree_state lookup ok T (take_checkpoint c f) = tree_state lookup ok T f"
  "abs_fs T (take_checkpoint c f) = abs_fs T f"
  "checkpoint_requested f \<Longrightarrow> checkpoint_requested (take_checkpoint c f)"
  "\<forall>m. c \<noteq> Mkdir p m \<Longrightarrow> checkpoints (take_checkpoint c f) p = checkpoints f p"
  by (cases c; simp add: tree_state_def abs_fs_def)+

lemma rev_call_base:
  assumes "\<forall>p. removed_path c = Some p \<longrightarrow> checkpoints f p = None"
  shows "wrapper_call (Some (RevertibleBlockFuse_object fuel bm env)) c f =
     wrapper_call (Some (BlockFuse_object fuel bm (Revertible_methods bm) env)) c (take_checkpoint c f)"
  using assms
  by (cases c) (simp_all add: RevertibleBlockFuse_object_def BlockFuse_object_def rev_mkdir_def
      checkpoint_def rev_rmdir_def unlink_def Let_def)

context block_fuse_ops
begin

lemma additive_call_keeps:
  assumes T: "tree_state lookup wf T f" and ok: "call_ok c" and add: "additive c"
    and fuel: "fheight (strip T) < fuel" and cost: "call_cost env c (abs_fs T f) \<le> room (store f)"
    and keeps: "keeps f" and call: "wrapper_call (Some (BlockFuse_object fuel bm vm env)) c f = Inr (r, f')"
  shows "lookup (store f) \<subseteq>\<^sub>m lookup (store f')"
proof -
  have ne: "call_path c \<noteq> []" using ok by (cases c) (auto simp: fuse_path_def)
  note fuel' = less_imp_le [OF fuel]
  show ?thesis
  proof (cases c)
    case (Getattr path stbuf)
    with getattr_refines [OF T _ fuel', of path stbuf] ne call show ?thesis
      by (auto simp: BlockFuse_object_def reply_def result_simps split: if_splits)
  next
    case (Mkdir path m)
    with mkdir_refines [OF T _ fuel', of path env m] ok cost keeps call show ?thesis
      by (auto simp: BlockFuse_object_def reply_def result_simps)
  next
    case (Create path m)
    show ?thesis
    proof (cases "bwalk (fs_parts path) T = None")
      case False
      with create_errors(1) [OF T _ fuel', of path env m] Create ne call show ?thesis
        by (auto simp: BlockFuse_object_def reply_def result_simps)
    next
      case True
      show ?thesis
      proof (cases "Mode_of_mode_t m")
        case (Inl e)
        with create_errors(2) [OF T _ fuel' True Inl, of env] Create ne call show ?thesis
          by (auto simp: BlockFuse_object_def reply_def result_simps)
      next
        case (Inr md)
        with create_refines [OF T _ fuel _ Inr, of path env] Create ok cost keeps call show ?thesis
          by (auto simp: BlockFuse_object_def reply_def result_simps)
      qed
    qed
  next
    case (Readdir path buf filler)
    with readdir_refines [OF T _ fuel', of path buf filler] ne call show ?thesis
      by (auto simp: BlockFuse_object_def reply_def result_simps split: prod.splits)
  next
    case (Read path sz offset)
    with read_refines [OF T _ fuel', of path sz offset] ne call show ?thesis
      by (auto simp: BlockFuse_object_def reply_def result_simps split: sum.splits prod.splits)
  qed (use add in simp_all)
qed

end

text \<open>
  The sequences of calls after which no checkpoint has been removed: no removal at a path that
  starts with the sentinel, the only paths that can be checkpoints.
\<close>

definition no_reverts :: "'b fuse_call list \<Rightarrow> bool" where
  "no_reverts cs \<longleftrightarrow>
     list_all (\<lambda>c. case removed_path c of
         None \<Rightarrow> True | Some p \<Rightarrow> \<not> mismatch_at_end REVERT_DIR_SENTINEL p) cs"

definition sentinel_keys :: "'s revertible \<Rightarrow> bool" where
  "sentinel_keys f \<longleftrightarrow> (\<forall>p \<in> dom (checkpoints f). mismatch_at_end REVERT_DIR_SENTINEL p)"

lemma take_checkpoint_keys: "sentinel_keys f \<Longrightarrow> sentinel_keys (take_checkpoint c f)"
  by (cases c) (auto simp: sentinel_keys_def)

lemma more_fields:
  assumes "block_fuse.more f' = block_fuse.more f"
  shows "checkpoint_requested f' = checkpoint_requested f" and "checkpoints f' = checkpoints f"
    and "sentinel_keys f' = sentinel_keys f"
  using assms by (cases f; cases f'; simp add: sentinel_keys_def)+

locale revertible_store = block_store bm lookup room wf
  for bm :: "'s block_manager" and lookup room wf

sublocale revertible_store \<subseteq> block_fuse_ops bm lookup room wf "Revertible_methods bm" checkpoint_requested
  by unfold_locales (auto simp: Revertible_methods_def rev_free_block_def base_set_root_block_def)

context revertible_store
begin

lemma revertible_ops: "block_fuse_ops bm lookup room wf (Revertible_methods bm) checkpoint_requested"
  by (rule block_fuse_ops_axioms)

lemma rev_init:
  assumes "wf s" and "0 < room s" and "lookup s = Map.empty"
  shows "\<exists>f T. RevertibleBlockFuse_init bm env d s = Inr f \<and> tree_state lookup wf T f \<and>
     abs_fs T f = spec_init env d \<and> sentinel_keys f \<and> room (store f) = room s - 1"
proof -
  from init_tree [OF assms, of env d] obtain f T where f: "BlockFuse_init bm env d s = Inr f"
    "tree_state lookup wf T f" "abs_fs T f = spec_init env d" "room (store f) = room s - 1"
    by auto
  let ?f = "block_fuse.extend f (revertible.fields False Map.empty) :: 's revertible"
  have sel: "store ?f = store f" "root_block ?f = root_block f" "dev ?f = dev f" "errno ?f = errno f"
    "checkpoints ?f = Map.empty"
    by (simp_all add: block_fuse.defs revertible.defs)
  with f show ?thesis
    by (intro exI [of _ ?f] exI [of _ T])
      (simp add: RevertibleBlockFuse_init_def tree_state_def abs_fs_def sentinel_keys_def)
qed

lemma rev_call:
  assumes T: "tree_state lookup wf T f" and ok: "call_ok c"
    and fuel: "fheight (strip T) < fuel" and cost: "call_cost env c (abs_fs T f) \<le> room (store f)"
    and nr: "\<forall>p. removed_path c = Some p \<longrightarrow> checkpoints f p = None"
  shows "case spec_call env c (abs_fs T f) of
       Inl e \<Rightarrow> wrapper_call (Some (RevertibleBlockFuse_object fuel bm env)) c f = Inl e
     | Inr (r, a') \<Rightarrow> \<exists>T' f'. wrapper_call (Some (RevertibleBlockFuse_object fuel bm env)) c f = Inr (r, f') \<and>
         tree_state lookup wf T' f' \<and> abs_fs T' f' = a' \<and> dev f' = dev f \<and>
         room (store f) \<le> room (store f') + call_cost env c (abs_fs T f) \<and>
         block_fuse.more f' = block_fuse.more (take_checkpoint c f) \<and>
         (additive c \<and> checkpoint_requested (take_checkpoint c f) \<longrightarrow>
            lookup (store f) \<subseteq>\<^sub>m lookup (store f'))"
proof -
  let ?f = "take_checkpoint c f"
  have T1: "tree_state lookup wf T ?f" "call_cost env c (abs_fs T ?f) \<le> room (store ?f)"
    using T cost by (simp_all add: take_checkpoint_same)
  note call = call_refines [OF T1(1) ok fuel T1(2)]
  have keeps: "lookup (store f) \<subseteq>\<^sub>m lookup (store f')"
    if "wrapper_call (Some (BlockFuse_object fuel bm (Revertible_methods bm) env)) c ?f = Inr (r, f')"
      "additive c" "checkpoint_requested ?f" for r f'
    using additive_call_keeps [OF T1(1) ok that(2) fuel T1(2) that(3,1)]
    by (simp add: take_checkpoint_same)
  show ?thesis
  proof (cases "spec_call env c (abs_fs T f)")
    case (Inl e)
    with call show ?thesis by (simp add: rev_call_base [OF nr] take_checkpoint_same)
  next
    case (Inr q)
    obtain r a' where q: "q = (r, a')" by (cases q)
    with call Inr obtain f' where f':
      "wrapper_call (Some (BlockFuse_object fuel bm (Revertible_methods bm) env)) c ?f = Inr (r, f')"
      "steps_to lookup wf room checkpoint_requested (call_cost env c (abs_fs T f)) T ?f a' f'"
      by (auto simp: take_checkpoint_same)
    from f'(2) obtain T' where "tree_state lookup wf T' f'" "abs_fs T' f' = a'"
      "room (store f) \<le> room (store f') + call_cost env c (abs_fs T f)"
      by (auto simp: steps_to_def take_checkpoint_same)
    moreover have "block_fuse.more f' = block_fuse.more ?f"
      by (rule rev_more.call_frame [OF f'(1)]) simp
    moreover have "fs_dev a' = dev f"
      using spec_call_local(3) [of "abs_fs T f" env c r a'] tree_stateD(4,7) [OF T] Inr q by simp
    then have "dev f' = dev f" if "abs_fs T' f' = a'" for T' using that by auto
    ultimately show ?thesis using f'(1) keeps [OF f'(1)] Inr q by (auto simp: rev_call_base [OF nr])
  qed
qed

lemma rev_run:
  assumes "tree_state lookup wf T f" and "run_ok env fuel ids cs (abs_fs T f)"
    and "ids \<le> room (store f)" and "no_reverts cs" and "sentinel_keys f"
  shows "case spec_run env cs (abs_fs T f) of
       Inl e \<Rightarrow> wrapper_run (Some (RevertibleBlockFuse_object fuel bm env)) cs f = Inl e
     | Inr (rs, a') \<Rightarrow> \<exists>T' f'. wrapper_run (Some (RevertibleBlockFuse_object fuel bm env)) cs f = Inr (rs, f') \<and>
         tree_state lookup wf T' f' \<and> abs_fs T' f' = a' \<and> dev f' = dev f \<and> sentinel_keys f' \<and>
         (list_all additive cs \<and> checkpoint_requested f \<longrightarrow> lookup (store f) \<subseteq>\<^sub>m lookup (store f')) \<and>
         (\<forall>p. (\<forall>m. Mkdir p m \<notin> set cs) \<longrightarrow> checkpoints f' p = checkpoints f p)"
  using assms
proof (induction cs arbitrary: T f ids)
  case Nil
  then show ?case by auto
next
  case (Cons c cs)
  let ?n = "call_cost env c (abs_fs T f)"
  let ?w = "Some (RevertibleBlockFuse_object fuel bm env)"
  have c: "call_ok c" "fheight (strip T) < fuel" "?n \<le> room (store f)"
    using Cons.prems(2,3) by auto
  have nr: "\<forall>p. removed_path c = Some p \<longrightarrow> checkpoints f p = None" "no_reverts cs"
    using Cons.prems(4,5) by (auto simp: no_reverts_def sentinel_keys_def dom_def split: option.splits)
  note call = rev_call [OF Cons.prems(1) c nr(1)]
  show ?case
  proof (cases "spec_call env c (abs_fs T f)")
    case (Inl e)
    with call show ?thesis by simp
  next
    case (Inr q)
    obtain r a1 where q: "q = (r, a1)" by (cases q)
    from call Inr q obtain T1 f1 where f1: "wrapper_call ?w c f = Inr (r, f1)"
      "tree_state lookup wf T1 f1" "abs_fs T1 f1 = a1" "room (store f) \<le> room (store f1) + ?n"
      "block_fuse.more f1 = block_fuse.more (take_checkpoint c f)"
      "additive c \<and> checkpoint_requested (take_checkpoint c f) \<longrightarrow>
         lookup (store f) \<subseteq>\<^sub>m lookup (store f1)" "dev f1 = dev f"
      by auto
    have "run_ok env fuel (ids - ?n) cs (abs_fs T1 f1)" using Cons.prems(2) Inr q f1(3) by simp
    moreover have "ids - ?n \<le> room (store f1)" using Cons.prems(3) f1(4) by linarith
    moreover have "sentinel_keys f1"
      using more_fields(3) [OF f1(5)] take_checkpoint_keys [OF Cons.prems(5)] by simp
    ultimately have IH: "case spec_run env cs a1 of
       Inl e \<Rightarrow> wrapper_run ?w cs f1 = Inl e
     | Inr (rs, a') \<Rightarrow> \<exists>T' f'. wrapper_run ?w cs f1 = Inr (rs, f') \<and>
         tree_state lookup wf T' f' \<and> abs_fs T' f' = a' \<and> dev f' = dev f1 \<and> sentinel_keys f' \<and>
         (list_all additive cs \<and> checkpoint_requested f1 \<longrightarrow> lookup (store f1) \<subseteq>\<^sub>m lookup (store f')) \<and>
         (\<forall>p. (\<forall>m. Mkdir p m \<notin> set cs) \<longrightarrow> checkpoints f' p = checkpoints f1 p)"
      using Cons.IH [OF f1(2) _ _ nr(2)] by (simp add: f1(3))
    have req: "checkpoint_requested f \<Longrightarrow> checkpoint_requested f1"
      by (simp add: more_fields(1) [OF f1(5)] take_checkpoint_same(4))
    have cp: "checkpoints f1 p = checkpoints f p" if "\<forall>m. c \<noteq> Mkdir p m" for p
      using that by (simp add: more_fields(2) [OF f1(5)] take_checkpoint_same(5))
    show ?thesis
    proof (cases "spec_run env cs a1")
      case (Inl e)
      with IH f1(1) Inr q show ?thesis by simp
    next
      case inr: (Inr z)
      obtain rs a2 where z: "z = (rs, a2)" by (cases z)
      from IH inr z obtain T' f' where f': "wrapper_run ?w cs f1 = Inr (rs, f')"
        "tree_state lookup wf T' f'" "abs_fs T' f' = a2" "dev f' = dev f1 \<and> sentinel_keys f'"
        "list_all additive cs \<and> checkpoint_requested f1 \<longrightarrow> lookup (store f1) \<subseteq>\<^sub>m lookup (store f')"
        "\<forall>p. (\<forall>m. Mkdir p m \<notin> set cs) \<longrightarrow> checkpoints f' p = checkpoints f1 p"
        by auto
      have "lookup (store f) \<subseteq>\<^sub>m lookup (store f')"
        if "list_all additive (c # cs)" "checkpoint_requested f"
        using that f1(6) f'(5) req take_checkpoint_same(4) map_le_trans by auto
      moreover have "checkpoints f' p = checkpoints f p" if "\<forall>m. Mkdir p m \<notin> set (c # cs)" for p
      proof -
        have "\<forall>m. c \<noteq> Mkdir p m" "\<forall>m. Mkdir p m \<notin> set cs" using that by auto
        with f'(6) cp show ?thesis by simp
      qed
      ultimately show ?thesis using f1(1,7) f'(1-4) Inr q inr z by auto
    qed
  qed
qed

text \<open>A tree stays represented by its root block as long as the store keeps its blocks.\<close>

lemma reverted_tree:
  assumes "tree_state lookup wf T f" and "lookup (store f) \<subseteq>\<^sub>m lookup (store f')" and "wf (store f')"
    and "root_block f'' = Some (tblock T)" "store f'' = store f'"
  shows "tree_state lookup wf T f''"
  using tree_stateD [OF assms(1)] assms(2-5) stored_map_le by (auto simp: tree_state_def)

text \<open>What is left of a checkpoint after calls that only look or add.\<close>

lemma checkpoint_kept:
  fixes cs :: "'b fuse_call list"
  assumes T: "tree_state lookup wf T f" "sentinel_keys f" and cp: "mismatch_at_end REVERT_DIR_SENTINEL cp"
    and ok: "run_ok env fuel ids (Mkdir cp m # cs) (abs_fs T f)" "ids \<le> room (store f)"
    and add: "list_all additive cs" "\<forall>m. Mkdir cp m \<notin> set cs"
    and run: "wrapper_run (Some (RevertibleBlockFuse_object fuel bm env)) (Mkdir cp m # cs) f = Inr (rs, f')"
  shows "checkpoints f' cp = Some (Some (tblock T)) \<and> lookup (store f) \<subseteq>\<^sub>m lookup (store f') \<and>
     wf (store f') \<and> dev f' = dev f \<and> sentinel_keys f'"
proof -
  let ?c = "Mkdir cp m :: 'b fuse_call"
  let ?w = "Some (RevertibleBlockFuse_object fuel bm env)"
  let ?n = "call_cost env ?c (abs_fs T f)"
  have c: "call_ok ?c" "fheight (strip T) < fuel" "?n \<le> room (store f)" using ok by auto
  have nr: "no_reverts cs" using add(1) by (simp add: no_reverts_def list_all_iff additive_removed)
  have tc: "checkpoint_requested (take_checkpoint ?c f)"
    "checkpoints (take_checkpoint ?c f) cp = Some (Some (tblock T))"
    using cp tree_stateD(6) [OF T(1)] by simp_all
  obtain f1 r where f1: "wrapper_call ?w ?c f = Inr (r, f1)"
    using run by (auto simp: result_simps)
  obtain T1 a1 where T1: "spec_call env ?c (abs_fs T f) = Inr (r, a1)" "tree_state lookup wf T1 f1"
    "abs_fs T1 f1 = a1" "dev f1 = dev f" "room (store f) \<le> room (store f1) + ?n"
    "block_fuse.more f1 = block_fuse.more (take_checkpoint ?c f)" "lookup (store f) \<subseteq>\<^sub>m lookup (store f1)"
    using rev_call [OF T(1) c] f1 tc(1) by (auto split: sum.splits prod.splits)
  note more = more_fields [OF T1(6)]
  have "run_ok env fuel (ids - ?n) cs (abs_fs T1 f1)" using ok(1) T1(1,3) by simp
  moreover have "ids - ?n \<le> room (store f1)" using ok(2) T1(5) by linarith
  moreover have "sentinel_keys f1" using more(3) take_checkpoint_keys [OF T(2)] by blast
  moreover have "wrapper_run ?w cs f1 = Inr (tl rs, f')" using run f1 by (auto simp: result_simps)
  ultimately show ?thesis
    using rev_run [OF T1(2) _ _ nr, of env fuel "ids - ?n"] T1(4,7) add tc more(1,2)
    by (auto split: sum.splits intro: map_le_trans dest: tree_stateD(1))
qed

end

section \<open>The program over the memory block manager\<close>

type_synonym rev_fuse = "counter memory_manager revertible"

interpretation mem_rev: revertible_store mem_bm mem_lookup
  "\<lambda>m. counter_remaining (id_state m)" "mem_wf counter_fresh"
  by (simp add: mem_bm_def revertible_store_def counter_memory.block_store_axioms)

definition rev_ok :: "fs \<Rightarrow> rev_fuse \<Rightarrow> bool" where
  "rev_ok a f \<longleftrightarrow>
     (\<exists>T. tree_state mem_lookup (mem_wf counter_fresh) T f \<and> abs_fs T f = a) \<and> sentinel_keys f"

definition rev_ids_left :: "rev_fuse \<Rightarrow> nat" where
  "rev_ids_left f = counter_remaining (id_state (store f))"

definition rev_main ::
  "nat \<Rightarrow> os_env \<Rightarrow> 'b fuse_call list \<Rightarrow> ('b fuse_reply list \<times> rev_fuse) result" where
  "rev_main fuel env calls =
     bind_result (RevertibleBlockFuse_init mem_bm env 55 (mem_init counter_init)) (\<lambda>f.
       wrapper_run (Some (RevertibleBlockFuse_object fuel mem_bm env)) calls f)"

lemma rev_start:
  "\<exists>f. RevertibleBlockFuse_init mem_bm env 55 (mem_init counter_init) = Inr f \<and>
     rev_ok (spec_init env 55) f \<and> rev_ids_left f = 2 ^ 64 - 2"
proof -
  let ?s = "mem_init counter_init :: counter memory_manager"
  have "counter_remaining (id_state ?s) = 2 ^ 64 - 1"
    by (simp add: counter_remaining_def mem_init_def counter_init_def)
  moreover have "mem_lookup ?s = Map.empty" by (rule ext) (simp add: mem_init_def mem_lookup_def)
  ultimately show ?thesis
    using mem_rev.rev_init [OF mem_wf_init, of counter_init env 55]
    by (auto simp: rev_ok_def rev_ids_left_def)
qed

lemma rev_okE:
  assumes "rev_ok a f"
  obtains T where "tree_state mem_lookup (mem_wf counter_fresh) T f" "abs_fs T f = a" "fs_tree a = strip T"
    "sentinel_keys f"
  using assms by (auto simp: rev_ok_def)

text \<open>
  C11. As long as no checkpoint is removed, the revertible file system gives the replies of
  the abstract file system to every sequence of calls: taking checkpoints, and the blocks it then no
  longer frees, show nowhere.
\<close>

theorem revertible_program:
  assumes "run_ok env fuel (2 ^ 64 - 2) calls (spec_init env 55)" and "no_reverts calls"
  shows "case spec_run env calls (spec_init env 55) of
       Inl e \<Rightarrow> rev_main fuel env calls = Inl e
     | Inr (rs, a') \<Rightarrow> \<exists>f'. rev_main fuel env calls = Inr (rs, f') \<and> rev_ok a' f'"
proof -
  obtain f where f: "RevertibleBlockFuse_init mem_bm env 55 (mem_init counter_init) = Inr f"
    "rev_ok (spec_init env 55) f" "rev_ids_left f = 2 ^ 64 - 2"
    using rev_start by blast
  obtain T where T: "tree_state mem_lookup (mem_wf counter_fresh) T f" "abs_fs T f = spec_init env 55"
    "sentinel_keys f"
    using f(2) by (rule rev_okE)
  have "2 ^ 64 - 2 \<le> counter_remaining (id_state (store f))" using f(3) by (simp add: rev_ids_left_def)
  from mem_rev.rev_run [OF T(1) _ this assms(2) T(3), of env fuel] assms(1) f(1) T(2) show ?thesis
    by (fastforce simp: rev_main_def rev_ok_def split: sum.splits)
qed

theorem revertible_program_witness:
  "\<exists>f'. rev_main 9 example_env [Mkdir ''/__checkpoint_1'' 0x1ED, Create ''/f'' 0x81A4, Rmdir ''/f'' :: unit fuse_call] =
     Inr ([Code 0, Code 0, Code 0], f')"
proof -
  let ?calls = "[Mkdir ''/__checkpoint_1'' 0x1ED, Create ''/f'' 0x81A4, Rmdir ''/f'' :: unit fuse_call]"
  have "run_ok example_env 9 100 ?calls (spec_init example_env 55)" by code_simp
  then have ok: "run_ok example_env 9 (2 ^ 64 - 2) ?calls (spec_init example_env 55)"
    by (rule run_ok_mono) simp
  have "map_sum id fst (spec_run example_env ?calls (spec_init example_env 55)) = Inr [Code 0, Code 0, Code 0]"
    "no_reverts ?calls" by code_simp+
  with revertible_program [OF ok] show ?thesis
    by (cases "spec_run example_env ?calls (spec_init example_env 55)") auto
qed



text \<open>The reply of \<open>getattr\<close> after calls and the revert to a checkpoint.\<close>

definition getattr_after_revert :: "unit fuse_call list \<Rightarrow> string \<Rightarrow> string \<Rightarrow> int result" where
  "getattr_after_revert calls cp path =
     bind_result (rev_main 9 example_env calls) (\<lambda>(rs, f).
     bind_result (deref (checkpoints f cp)) (\<lambda>root.
     bind_result (rmdir_reverted mem_bm cp root f) (\<lambda>f'.
     bind_result (getattr 9 mem_bm path local_stbuf f') (\<lambda>((r, _), _). Inr r))))"


end
