(* ===== verification/StoreSim.thy ===== *)
theory StoreSim
  imports Revertible
begin

text \<open>
  Programs over two stores. If two block managers answer alike from states that a relation \<open>R\<close>
  ties, every operation of \<open>BlockFuse\<close> and of \<open>RevertibleBlockFuse\<close> answers alike over
  them. The second manager is meant to be the simpler one, such as the \<open>IdealStore\<close>.
\<close>

section \<open>Results that agree\<close>

text \<open>
  The second result is the ideal one; where the ideal store has nothing to answer with,
  \<open>Waits_Forever\<close>, or the fuel of the model does not last, the first may be anything.
\<close>

definition agree :: "('a \<Rightarrow> 'b \<Rightarrow> bool) \<Rightarrow> 'a result \<Rightarrow> 'b result \<Rightarrow> bool" where
  "agree A x y \<longleftrightarrow> y = Inl Waits_Forever \<or> y = Inl Out_Of_Fuel \<or> rel_sum (=) A x y"

abbreviation agree_with :: "('s \<Rightarrow> 't \<Rightarrow> bool) \<Rightarrow> ('a \<times> 's) result \<Rightarrow> ('a \<times> 't) result \<Rightarrow> bool" where
  "agree_with R \<equiv> agree (rel_prod (=) R)"

named_theorems agree_rules "how results agree"

lemma agree_Inl [agree_rules]: "agree A (Inl e) (Inl e)"
  by (simp add: agree_def)

lemma agree_wait: "agree A x (Inl Waits_Forever)" "agree A x (Inl Out_Of_Fuel)"
  by (simp_all add: agree_def)

lemma agree_Inr: "A x y \<Longrightarrow> agree A (Inr x) (Inr y)"
  by (simp add: agree_def)

lemma agree_with_Inr [agree_rules]: "R s t \<Longrightarrow> agree_with R (Inr (a, s)) (Inr (a, t))"
  by (simp add: agree_def)

lemma agree_bind:
  assumes "agree A m m'" and "\<And>x y. A x y \<Longrightarrow> agree B (k x) (k' y)"
  shows "agree B (bind_result m k) (bind_result m' k')"
  using assms by (cases m; cases m') (auto simp: agree_def)

lemma agree_bind_final:
  assumes "agree A m m'" and "\<And>x y. m' = Inr y \<Longrightarrow> A x y \<Longrightarrow> agree B (k x) (k' y)"
  shows "agree B (bind_result m k) (bind_result m' k')"
  using assms by (cases m; cases m') (auto simp: agree_def)

lemma agree_bind_with:
  assumes "agree_with R m m'" and "\<And>a s t. R s t \<Longrightarrow> agree B (k a s) (k' a t)"
  shows "agree B (bind_result m (\<lambda>(a, s). k a s)) (bind_result m' (\<lambda>(a, s). k' a s))"
  by (rule agree_bind [OF assms(1)]) (auto intro: assms(2))

lemma agree_bind_with_final:
  assumes "agree_with R m m'" and "\<And>a s t. m' = Inr (a, t) \<Longrightarrow> R s t \<Longrightarrow> agree B (k a s) (k' a t)"
  shows "agree B (bind_result m (\<lambda>(a, s). k a s)) (bind_result m' (\<lambda>(a, s). k' a s))"
  by (rule agree_bind_final [OF assms(1)]) (auto intro: assms(2))

lemma agree_refl: "agree (=) m m"
  by (cases m) (simp_all add: agree_def)

text \<open>A wrapper that adds to the state of the first program.\<close>

lemma agree_wrap:
  assumes "agree_with R m m'" and "\<And>a s t. R s t \<Longrightarrow> \<exists>x. k a s = Inr (a, x) \<and> R' x t"
  shows "agree_with R' (bind_result m (\<lambda>(a, s). k a s)) m'"
proof (cases "m' = Inl Waits_Forever \<or> m' = Inl Out_Of_Fuel")
  case False
  then show ?thesis
  proof (cases m)
    case (Inl e)
    with assms(1) False show ?thesis by (cases m') (auto simp: agree_def)
  next
    case (Inr p)
    then obtain a s t where "m = Inr (a, s)" "m' = Inr (a, t)" "R s t"
      using assms(1) False by (cases p; cases m') (auto simp: agree_def)
    with assms(2) [of s t a] show ?thesis by (auto simp: agree_def)
  qed
qed (auto simp: agree_def)

lemma agree_mono: "agree A x y \<Longrightarrow> (\<And>a b. A a b \<Longrightarrow> B a b) \<Longrightarrow> agree B x y"
  by (cases x; cases y) (auto simp: agree_def)

lemma agree_bind_same:
  assumes "\<And>x. agree B (k x) (k' x)"
  shows "agree B (bind_result m k) (bind_result m k')"
  using assms by (cases m) (auto simp: agree_def)

lemma agree_deref:
  assumes "\<And>x. p = Some x \<Longrightarrow> agree B (k x) (k' x)"
  shows "agree B (bind_result (deref p) k) (bind_result (deref p) k')"
  using assms by (cases p) (auto intro: agree_Inl)

lemma agree_if:
  assumes "c \<Longrightarrow> agree A x x'" and "\<not> c \<Longrightarrow> agree A y y'"
  shows "agree A (if c then x else y) (if c then x' else y')"
  using assms by simp

lemma agree_option:
  assumes "p = None \<Longrightarrow> agree A x x'" and "\<And>a. p = Some a \<Longrightarrow> agree A (k a) (k' a)"
  shows "agree A (case p of None \<Rightarrow> x | Some a \<Rightarrow> k a) (case p of None \<Rightarrow> x' | Some a \<Rightarrow> k' a)"
  using assms by (cases p) auto

lemma agree_pair:
  assumes "\<And>a b. agree A (k a b) (k' a b)"
  shows "agree A (case p of (a, b) \<Rightarrow> k a b) (case p of (a, b) \<Rightarrow> k' a b)"
  using assms by (cases p) simp

lemma agree_pair_of:
  assumes "\<And>a b. agree A (k a b x) (k' a b y)"
  shows "agree A ((case p of (a, b) \<Rightarrow> k a b) x) ((case p of (a, b) \<Rightarrow> k' a b) y)"
  using assms by (cases p) simp

lemmas agree_steps = agree_rules agree_if agree_option agree_pair agree_pair_of agree_bind_same

text \<open>Results that agree provided that the ideal one is as expected.\<close>

definition agree_provided :: "('b \<Rightarrow> bool) \<Rightarrow> ('a \<Rightarrow> 'b \<Rightarrow> bool) \<Rightarrow> 'a result \<Rightarrow> 'b result \<Rightarrow> bool" where
  "agree_provided P A x y \<longleftrightarrow> ((\<forall>z. y = Inr z \<longrightarrow> P z) \<longrightarrow> agree A x y)"

lemma provided_agree: "agree A x y \<Longrightarrow> agree_provided P A x y"
  by (simp add: agree_provided_def)

lemma provided_bind:
  assumes "agree A m m'" and "\<And>x y. A x y \<Longrightarrow> agree_provided P B (k x) (k' y)"
  shows "agree_provided P B (bind_result m k) (bind_result m' k')"
  using assms(2) unfolding agree_provided_def
  by (intro impI agree_bind_final [OF assms(1)]) simp

lemma provided_bind_with:
  assumes "agree_with R m m'" and "\<And>a s t. R s t \<Longrightarrow> agree_provided P B (k a s) (k' a t)"
  shows "agree_provided P B (bind_result m (\<lambda>(a, s). k a s)) (bind_result m' (\<lambda>(a, s). k' a s))"
  by (rule provided_bind [OF assms(1)]) (auto intro: assms(2))

lemma provided_bind_same:
  assumes "\<And>x. agree_provided P B (k x) (k' x)"
  shows "agree_provided P B (bind_result m k) (bind_result m k')"
  by (rule provided_bind [OF agree_refl]) (simp add: assms)

lemma provided_if:
  assumes "c \<Longrightarrow> agree A x x'" and "\<not> c \<Longrightarrow> agree_provided P A y y'"
  shows "agree_provided P A (if c then x else y) (if c then x' else y')"
  using assms by (simp add: provided_agree)

text \<open>What follows for the program over the first store.\<close>

lemma agreeD: "agree A x y \<Longrightarrow> y = Inr b \<Longrightarrow> \<exists>a. x = Inr a \<and> A a b"
  by (cases x) (auto simp: agree_def)

lemma agree_withD:
  assumes "agree_with R x y"
  shows "y = Inr (a, t) \<Longrightarrow> \<exists>s. x = Inr (a, s) \<and> R s t"
    and "y = Inl e \<Longrightarrow> e \<noteq> Waits_Forever \<Longrightarrow> e \<noteq> Out_Of_Fuel \<Longrightarrow> x = Inl e"
  using assms by (cases x; auto simp: agree_def)+

section \<open>Block tree operations\<close>

text \<open>
  \<open>change_sim\<close> is about creating and freeing blocks only, \<open>manager_sim\<close> about responses that are
  equal, too.
\<close>

locale change_sim =
  fixes bm :: "'s block_manager" and bm' :: "'t block_manager" and R :: "'s \<Rightarrow> 't \<Rightarrow> bool"
  assumes create_sim: "R s t \<Longrightarrow> agree_with R (bm_create bm d s) (bm_create bm' d t)"
    and free_sim: "R s t \<Longrightarrow> R (bm_free bm i s) (bm_free bm' i t)"
begin

lemmas create_bind = agree_bind_with [OF create_sim]

lemma replace_block_sim:
  "R s t \<Longrightarrow> agree_with R (replace_block_with_diff_children bm b cs s)
     (replace_block_with_diff_children bm' b cs t)"
  unfolding replace_block_with_diff_children_def by (intro agree_steps create_sim)

lemma replace_chain_sim:
  "R s t \<Longrightarrow> agree_with R (replace_chain bm bs rem add s) (replace_chain bm' bs rem add t)"
proof -
  have "R s t \<Longrightarrow> agree_with R (replace_chain_loop bm bs rem add l s) (replace_chain_loop bm' bs rem add l t)" for l
    by (induction bs arbitrary: rem l s t)
      (auto intro!: agree_steps agree_bind_with [OF replace_block_sim])
  then show "R s t \<Longrightarrow> agree_with R (replace_chain bm bs rem add s) (replace_chain bm' bs rem add t)"
    by (simp add: replace_chain_def)
qed

lemma free_all_sim: "R s t \<Longrightarrow> R (free_all bm ids s) (free_all bm' ids t)"
  by (induction ids arbitrary: s t) (simp_all add: free_sim)

lemma build_sim:
  "R s t \<Longrightarrow> agree_with R (replace_blocks_for_contents cl bm bs fc ids n k s)
     (replace_blocks_for_contents cl bm' bs fc ids n k t)"
proof -
  have layer: "R s t \<Longrightarrow> agree_with R (add_link_layer_loop bm bs k is nl s) (add_link_layer_loop bm' bs k is nl t)"
    for bs k "is" nl s t
    by (induction "is" arbitrary: nl s t) (auto intro!: agree_steps create_bind)
  have layers: "R s t \<Longrightarrow> agree_with R (link_layers bm k d bs s) (link_layers bm' k d bs t)" for k d bs s t
    by (induction d arbitrary: bs s t)
      (auto simp: add_link_layer_def Let_def intro!: agree_steps agree_bind_with [OF layer])
  have leaves: "R s t \<Longrightarrow> agree_with R (create_leaves bm ls bs s) (create_leaves bm' ls bs t)" for ls bs s t
    by (induction ls arbitrary: bs s t) (auto intro!: agree_steps create_bind)
  show "R s t \<Longrightarrow> ?thesis"
    unfolding replace_blocks_for_contents_def Let_def
    by (intro agree_steps agree_bind_with [OF leaves] agree_bind_with [OF layers])
qed

end

locale manager_sim = change_sim +
  assumes get_sim: "R s t \<Longrightarrow> agree_with R (bm_get bm ids s) (bm_get bm' ids t)"
begin

lemmas get_bind = agree_bind_with [OF get_sim]

lemma get_file_contents_loop_sim:
  assumes "\<And>ids fbs s t. R s t \<Longrightarrow>
     agree_with R (get_file_contents n bm ids fbs s) (get_file_contents n bm' ids fbs t)"
  shows "R s t \<Longrightarrow>
     agree_with R (get_file_contents_loop n bm rs fbs s) (get_file_contents_loop n bm' rs fbs t)"
  by (induction rs arbitrary: fbs s t) (auto intro!: agree_steps agree_bind_with [OF assms])

lemma get_file_contents_sim:
  "R s t \<Longrightarrow> agree_with R (get_file_contents n bm ids fbs s) (get_file_contents n bm' ids fbs t)"
  by (induction n arbitrary: ids fbs s t) (auto intro!: agree_steps get_bind get_file_contents_loop_sim)

lemma read_file_contents_sim:
  "R s t \<Longrightarrow> agree_with R (read_file_contents n bm d s) (read_file_contents n bm' d t)"
  unfolding read_file_contents_def
  by (intro agree_steps agree_bind_with [OF get_file_contents_sim])

lemma recursive_free_sim:
  "R s t \<Longrightarrow> agree R (recursive_free_children_blocks n bm b s) (recursive_free_children_blocks n bm' b t)"
proof (induction n arbitrary: b s t)
  case 0
  show ?case by (simp add: agree_Inl)
next
  case (Suc n)
  have loop: "R s t \<Longrightarrow> agree R (recursive_free_loop n bm rs s) (recursive_free_loop n bm' rs t)" for rs s t
    by (induction rs arbitrary: s t) (auto intro!: agree_steps agree_Inr intro: agree_bind [OF Suc.IH])
  from Suc.prems show ?case
    by (auto intro!: agree_steps agree_Inr get_bind loop free_all_sim)
qed

lemma get_path_part_loop_sim:
  "R s t \<Longrightarrow> agree (rel_prod (=) (rel_prod (=) R)) (get_path_part_loop n bm p ids r s)
     (get_path_part_loop n bm' p ids r t)"
  by (induction n arbitrary: ids r s t) (auto intro!: agree_steps agree_Inr get_bind)

lemma get_path_part_sim:
  "R s t \<Longrightarrow> agree_with R (get_path_part n bm root p b bs s) (get_path_part n bm' root p b bs t)"
  unfolding get_path_part_def
  by (intro agree_steps agree_bind [OF get_path_part_loop_sim]) (auto intro!: agree_steps)

lemma get_path_loop_sim:
  "R s t \<Longrightarrow> agree_with R (get_path_loop n bm root ps b bs s) (get_path_loop n bm' root ps b bs t)"
  by (induction ps arbitrary: b bs s t) (auto intro!: agree_steps agree_bind_with [OF get_path_part_sim])

lemma get_dir_files_sim:
  "R s t \<Longrightarrow> agree_with R (get_dir_files_from_dir n bm d s) (get_dir_files_from_dir n bm' d t)"
proof -
  have "R s t \<Longrightarrow> agree_with R (get_dir_files_loop n bm ids cs s) (get_dir_files_loop n bm' ids cs t)" for ids cs
    by (induction n arbitrary: ids cs s t) (auto intro!: agree_steps get_bind)
  then show "R s t \<Longrightarrow> ?thesis" by (simp add: get_dir_files_from_dir_def)
qed

end

section \<open>Operations\<close>

text \<open>Objects that differ in their stores only.\<close>

definition same_object ::
  "('s \<Rightarrow> 't \<Rightarrow> bool) \<Rightarrow> ('s, 'm) block_fuse_scheme \<Rightarrow> ('t, 'm) block_fuse_scheme \<Rightarrow> bool" where
  "same_object R f g \<longleftrightarrow> R (store f) (store g) \<and> root_block g = root_block f \<and> dev g = dev f \<and>
     errno g = errno f \<and> block_fuse.more g = block_fuse.more f"

lemma same_object_store: "same_object R f g \<Longrightarrow> R (store f) (store g)"
  by (simp add: same_object_def)

lemma same_object_set_store: "same_object R f g \<Longrightarrow> R s t \<Longrightarrow> same_object R (f\<lparr>store := s\<rparr>) (g\<lparr>store := t\<rparr>)"
  by (simp add: same_object_def)

lemma same_object_errno: "same_object R f g \<Longrightarrow> same_object R (f\<lparr>errno := e\<rparr>) (g\<lparr>errno := e\<rparr>)"
  by (simp add: same_object_def)

lemma same_object_dev: "same_object R f g \<Longrightarrow> dev g = dev f"
  by (simp add: same_object_def)

text \<open>
  What the operations ask of a store besides: searches agree in objects whose ideal one is
  \<open>searchable\<close>; if it is \<open>good\<close>, the contents and the entries of what they find agree, the
  entries as far as a filler with \<open>filler_ok\<close> sees them, and so does freeing what is below; freeing
  any tree agrees if it leaves the ideal store \<open>proper\<close>. \<open>n\<close> is the fuel.
\<close>

definition same_entries ::
  "('s \<Rightarrow> 't \<Rightarrow> bool) \<Rightarrow> 'b filler \<Rightarrow> dir_file_data list \<times> 's \<Rightarrow> dir_file_data list \<times> 't \<Rightarrow> bool" where
  "same_entries R fl p q \<longleftrightarrow> R (snd p) (snd q) \<and>
     (\<forall>d st b. fill_children fl d (fst p) st b = fill_children fl d (fst q) st b)"

text \<open>The state in which \<open>create\<close> resolves the path of its new file.\<close>

definition new_file_state ::
  "nat \<Rightarrow> 's block_manager \<Rightarrow> ('s, 'm) fuse_methods \<Rightarrow> os_env \<Rightarrow> string \<Rightarrow> nat \<Rightarrow> mode \<Rightarrow>
     ('s, 'm) block_fuse_scheme \<Rightarrow> ('s, 'm) block_fuse_scheme \<Rightarrow> bool" where
  "new_file_state fuel bm vm env path sz md f f4 \<longleftrightarrow>
     (\<exists>f1 parts parent blocks f2 b s3 new_root s4 f3.
        get_path fuel bm path f = Inr ([], f1) \<and> separate_path path = Inr parts \<and>
        join_paths (butlast parts) = Inr parent \<and> get_path fuel bm parent f1 = Inr (blocks, f2) \<and> blocks \<noteq> [] \<and>
        bm_create bm (DirFileBlockData \<lparr>df_name = last parts, df_stat = gen_file_stat env md sz, df_children = []\<rparr>)
          (store f2) = Inr (b, s3) \<and>
        replace_chain bm (rev blocks) [] [get_id b] s3 = Inr (new_root, s4) \<and>
        set_root_block vm new_root (f2\<lparr>store := s4\<rparr>) = Inr f3 \<and> free_blocks vm blocks f3 = Inr f4)"

locale methods_sim = change_sim bm bm' R
  for bm :: "'s block_manager" and bm' :: "'t block_manager" and R +
  fixes vm :: "('s, 'm) fuse_methods" and vm' :: "('t, 'm) fuse_methods"
  assumes free_block_sim: "same_object R f g \<Longrightarrow>
      agree (same_object R) (free_block vm i f) (free_block vm' i g)"
    and set_root_sim: "same_object R f g \<Longrightarrow>
      agree (same_object R) (set_root_block vm r f) (set_root_block vm' r g)"

locale object_sim = methods_sim bm bm' R vm vm'
  for bm :: "'s block_manager" and bm' :: "'t block_manager" and R
    and vm :: "('s, 'm) fuse_methods" and vm' :: "('t, 'm) fuse_methods" +
  fixes n :: nat
    and searchable good :: "('t, 'm) block_fuse_scheme \<Rightarrow> bool"
    and node_of :: "('t, 'm) block_fuse_scheme \<Rightarrow> block \<Rightarrow> bool"
    and filler_ok :: "'b filler \<Rightarrow> bool" and proper :: "'t \<Rightarrow> bool"
  assumes good_searchable: "good g \<Longrightarrow> searchable g"
    and good_errno: "good g \<Longrightarrow> good (g\<lparr>errno := e\<rparr>)"
    and get_path_sim: "same_object R f g \<Longrightarrow> searchable g \<Longrightarrow>
      agree_with (same_object R) (get_path n bm path f) (get_path n bm' path g)"
    and get_path_good: "good g \<Longrightarrow> get_path n bm' path g = Inr (bs, g') \<Longrightarrow> good g' \<and> (\<forall>b \<in> set bs. node_of g' b)"
    and contents_sim: "R s (store g) \<Longrightarrow> good g \<Longrightarrow> node_of g b \<Longrightarrow> try_cast_dir_file b = Some d \<Longrightarrow>
      agree_with R (read_file_contents n bm d s) (read_file_contents n bm' d (store g))"
    and entries_sim: "R s (store g) \<Longrightarrow> good g \<Longrightarrow> node_of g b \<Longrightarrow> try_cast_dir_file b = Some d \<Longrightarrow> filler_ok fl \<Longrightarrow>
      agree (same_entries R fl) (get_dir_files_from_dir n bm d s) (get_dir_files_from_dir n bm' d (store g))"
    and contents_good: "good g \<Longrightarrow> node_of g b \<Longrightarrow> read_file_contents n bm' d (store g) = Inr (c, t) \<Longrightarrow>
      good (g\<lparr>store := t\<rparr>) \<and> node_of (g\<lparr>store := t\<rparr>) b"
    and free_contents_sim: "R s (store g) \<Longrightarrow> good g \<Longrightarrow> node_of g b \<Longrightarrow>
      agree R (recursive_free_children_blocks n bm b s) (recursive_free_children_blocks n bm' b (store g))"
    and free_tree_sim: "R s t \<Longrightarrow> (\<And>t'. recursive_free_children_blocks n bm' b t = Inr t' \<Longrightarrow> proper t') \<Longrightarrow>
      agree R (recursive_free_children_blocks n bm b s) (recursive_free_children_blocks n bm' b t)"
begin

lemmas same_intros = same_object_store [where R = R] same_object_set_store [where R = R]
  same_object_errno [where R = R]

lemma get_path_bind:
  assumes "same_object R f g" and "good g"
    and "\<And>bs f g. same_object R f g \<Longrightarrow> good g \<Longrightarrow> \<forall>b \<in> set bs. node_of g b \<Longrightarrow> agree B (k bs f) (k' bs g)"
  shows "agree B (bind_result (get_path n bm path f) (\<lambda>(bs, f). k bs f))
    (bind_result (get_path n bm' path g) (\<lambda>(bs, g). k' bs g))"
  by (rule agree_bind_final [OF get_path_sim [OF assms(1) good_searchable [OF assms(2)]]])
    (use get_path_good [OF assms(2)] assms(3) in auto)

lemma get_path_last:
  assumes "same_object R f g" and "searchable g"
    and "\<And>bs f g. same_object R f g \<Longrightarrow> agree B (k bs f) (k' bs g)"
  shows "agree B (bind_result (get_path n bm path f) (\<lambda>(bs, f). k bs f))
    (bind_result (get_path n bm' path g) (\<lambda>(bs, g). k' bs g))"
  by (rule agree_bind_with [OF get_path_sim [OF assms(1,2)] assms(3)])

lemmas create_store_bind = agree_bind_with [OF create_sim [OF same_object_store [where R = R]]]
lemmas set_root_bind = agree_bind [OF set_root_sim [OF same_object_set_store [where R = R]]]

text \<open>The contents of the last block of a path.\<close>

lemma contents_bind:
  assumes "same_object R f g" and "good g" and "\<forall>b \<in> set bs. node_of g b" and "bs \<noteq> []"
    and "try_cast_dir_file (last bs) = Some d"
    and "\<And>c s g'. R s (store g') \<Longrightarrow> good g' \<Longrightarrow> node_of g' (last bs) \<Longrightarrow> agree B (k c s) (k' c (store g'))"
  shows "agree B (bind_result (read_file_contents n bm d (store f)) (\<lambda>(c, s). k c s))
    (bind_result (read_file_contents n bm' d (store g)) (\<lambda>(c, t). k' c t))"
proof (rule agree_bind_with_final [OF contents_sim [OF same_object_store [OF assms(1)] assms(2) _ assms(5)]])
  show "node_of g (last bs)" using assms(3,4) by simp
  fix c s t
  assume "read_file_contents n bm' d (store g) = Inr (c, t)" "R s t"
  with contents_good [OF assms(2) \<open>node_of g (last bs)\<close>] assms(6) [of s "g\<lparr>store := t\<rparr>" c]
  show "agree B (k c s) (k' c t)" by simp
qed

lemma getattr_sim:
  assumes "same_object R f g" "good g"
  shows "agree_with (\<lambda>f g. same_object R f g \<and> good g) (getattr n bm path st f) (getattr n bm' path st g)"
  unfolding getattr_def resolve_inode_def set_no_such_file_or_dir_def bind_result_assoc prod.case case_prod_beta
  by (rule agree_bind_final [OF get_path_sim [OF assms(1) good_searchable [OF assms(2)]]])
    (use get_path_good [OF assms(2)] in \<open>auto simp: same_object_dev good_errno intro!: agree_steps same_intros\<close>)

lemma free_blocks_sim:
  "same_object R f g \<Longrightarrow> agree (same_object R) (free_blocks vm bs f) (free_blocks vm' bs g)"
  by (induction bs arbitrary: f g) (auto intro: agree_Inr agree_bind [OF free_block_sim])

lemma getattr_bind:
  assumes "same_object R f g" and "good g"
    and "\<And>r f g. same_object R f g \<Longrightarrow> good g \<Longrightarrow> agree B (k r f) (k' r g)"
  shows "agree B (bind_result (getattr n bm path st f) (\<lambda>((r, _), f). k r f))
    (bind_result (getattr n bm' path st g) (\<lambda>((r, _), g). k' r g))"
  by (rule agree_bind [OF getattr_sim [OF assms(1,2)]]) (auto intro: assms(3))

lemma mkdir_valid_sim:
  "same_object R f g \<Longrightarrow> good g \<Longrightarrow>
     agree_with (same_object R) (mkdir_valid n bm path f) (mkdir_valid n bm' path g)"
  unfolding mkdir_valid_def
  by (intro agree_bind_same agree_if agree_rules getattr_bind get_path_bind)

lemma mkdir_sim:
  "same_object R f g \<Longrightarrow> good g \<Longrightarrow>
     agree_with (same_object R) (mkdir n bm vm env path m f) (mkdir n bm' vm' env path m g)"
  unfolding mkdir_def Let_def
  by (intro agree_bind_with [OF mkdir_valid_sim] agree_steps create_store_bind
      agree_bind_with [OF replace_chain_sim] set_root_bind agree_bind [OF free_blocks_sim])

text \<open>\<open>rmdir\<close> frees the tree below its path at the end.\<close>

lemma free_last_sim:
  assumes "same_object R f g"
  shows "agree_provided (\<lambda>p. proper (store (snd p))) (rel_prod (=) (same_object R))
    (bind_result (recursive_free_children_blocks n bm b (store f)) (\<lambda>s. Inr (0 :: int, f\<lparr>store := s\<rparr>)))
    (bind_result (recursive_free_children_blocks n bm' b (store g)) (\<lambda>s. Inr (0, g\<lparr>store := s\<rparr>)))"
  unfolding agree_provided_def
  by (intro impI agree_bind [OF free_tree_sim [OF same_object_store [OF assms]]] agree_rules
      same_object_set_store [OF assms]) auto

lemma rmdir_sim:
  assumes "same_object R f g" and "good g"
    and "\<And>r g'. rmdir n bm' vm' path g = Inr (r, g') \<Longrightarrow> proper (store g')"
  shows "agree_with (same_object R) (rmdir n bm vm path f) (rmdir n bm' vm' path g)"
proof -
  have "agree_provided (\<lambda>p. proper (store (snd p))) (rel_prod (=) (same_object R))
      (rmdir n bm vm path f) (rmdir n bm' vm' path g)"
    unfolding rmdir_def Let_def
    by (intro provided_bind_with [OF get_path_sim [OF assms(1) good_searchable [OF assms(2)]]] provided_if
        agree_rules provided_bind_same provided_bind_with [OF replace_chain_sim]
        provided_bind [OF set_root_sim] provided_bind [OF free_blocks_sim] free_last_sim same_intros)
  with assms(3) show ?thesis by (auto simp: agree_provided_def)
qed

lemma read_sim:
  "same_object R f g \<Longrightarrow> good g \<Longrightarrow> agree_with (same_object R) (read n bm path sz off f) (read n bm' path sz off g)"
  unfolding read_def set_no_such_file_or_dir_def prod.case
  by (intro get_path_bind agree_deref agree_steps contents_bind same_intros)

lemma write_node_sim:
  "same_object R f g \<Longrightarrow> agree (same_object R) (write_file_starting_at_node n bm vm env bs c f)
     (write_file_starting_at_node n bm' vm' env bs c g)"
  unfolding write_file_starting_at_node_def Let_def
  by (intro agree_steps agree_bind_with [where R = R] build_sim agree_bind_with [OF replace_chain_sim]
      set_root_bind free_blocks_sim same_intros)

lemma write_sim:
  "same_object R f g \<Longrightarrow> good g \<Longrightarrow> agree_with (same_object R) (fuse_write n bm vm env path b sz off f)
     (fuse_write n bm' vm' env path b sz off g)"
  unfolding fuse_write_def Let_def set_error_because_dir_def set_no_such_file_or_dir_def
  by (intro get_path_bind agree_deref agree_steps contents_bind
      agree_bind [OF free_contents_sim] agree_bind [OF write_node_sim] same_intros)

lemma readdir_sim:
  assumes "same_object R f g" and "good g" and "filler_ok fl"
  shows "agree_with (same_object R) (readdir n bm path b fl f) (readdir n bm' path b fl g)"
  unfolding readdir_def Let_def set_no_such_file_or_dir_def
  by (intro get_path_bind [OF assms(1,2)] agree_steps same_intros)
    (auto simp: same_object_dev same_entries_def intro!: agree_steps same_intros agree_bind [OF entries_sim [OF _ _ _ _ assms(3)]])

text \<open>\<open>create\<close> resolves the path once more in the state it leaves, \<open>g4\<close>.\<close>

lemma get_path_bind_final:
  assumes "same_object R f g" and "good g"
    and "\<And>bs f' g'. get_path n bm' path g = Inr (bs, g') \<Longrightarrow> same_object R f' g' \<Longrightarrow> good g' \<Longrightarrow>
      \<forall>b \<in> set bs. node_of g' b \<Longrightarrow> agree B (k bs f') (k' bs g')"
  shows "agree B (bind_result (get_path n bm path f) (\<lambda>(bs, f). k bs f))
    (bind_result (get_path n bm' path g) (\<lambda>(bs, g). k' bs g))"
  by (rule agree_bind_with_final [OF get_path_sim [OF assms(1) good_searchable [OF assms(2)]]])
    (use get_path_good [OF assms(2)] assms(3) in auto)

lemma create_file_block_sim:
  assumes f: "same_object R f g" and g: "good g"
    and last: "\<And>g4. new_file_state n bm' vm' env path sz md g g4 \<Longrightarrow> searchable g4"
  shows "agree_with (same_object R)
     (create_file_block n bm vm env path sz md f) (create_file_block n bm' vm' env path sz md g)"
  unfolding create_file_block_def
proof (rule get_path_bind_final [OF f g], rule agree_if, goal_cases)
  case (2 existing f1 g1)
  have new: "new_file_state n bm' vm' env path sz md g g4"
    if "separate_path path = Inr parts" "join_paths (butlast parts) = Inr parent"
      "get_path n bm' parent g1 = Inr (blocks, g2)" "blocks \<noteq> []"
      "bm_create bm' (DirFileBlockData \<lparr>df_name = last parts, df_stat = gen_file_stat env md sz,
         df_children = []\<rparr>) (store g2) = Inr (b, t3)"
      "replace_chain bm' (rev blocks) [] [get_id b] t3 = Inr (new_root, t4)"
      "set_root_block vm' new_root (g2\<lparr>store := t4\<rparr>) = Inr g3" "free_blocks vm' blocks g3 = Inr g4"
    for parts parent blocks g2 b t3 new_root t4 g3 g4
    unfolding new_file_state_def using 2 that by blast
  show ?case
    unfolding Let_def
    by (rule agree_bind_final [OF agree_refl], hypsubst, rule agree_bind_final [OF agree_refl], hypsubst,
        rule get_path_bind_final [OF 2(2,3)], rule agree_if, rule agree_rules, assumption,
        rule agree_bind_with_final [OF create_sim [OF same_object_store]], assumption,
        rule agree_bind_with_final [OF replace_chain_sim], assumption,
        rule agree_bind_final [OF set_root_sim [OF same_object_set_store]], assumption, assumption,
        rule agree_bind_final [OF free_blocks_sim], assumption,
        rule get_path_last, assumption, rule last, rule new, assumption+)
       (intro agree_steps)
qed (intro agree_rules)

lemma create_file_sim:
  assumes f: "same_object R f g" and g: "good g"
    and last: "\<And>md g1 g4. Mode_of_mode_t m = Inr md \<Longrightarrow> get_path n bm' path g = Inr ([], g1) \<Longrightarrow>
      new_file_state n bm' vm' env path 0 md g1 g4 \<Longrightarrow> searchable g4"
  shows "agree_with (same_object R) (create n bm vm env path m f) (create n bm' vm' env path m g)"
  unfolding create_def set_file_exists_def set_no_such_file_or_dir_def
proof (rule get_path_bind_final [OF f g], rule agree_if, goal_cases)
  case (2 bs f1 g1)
  show ?case
  proof (rule agree_bind_final [OF agree_refl], hypsubst)
    fix md
    assume md: "Mode_of_mode_t m = Inr md"
    have "searchable g4" if "new_file_state n bm' vm' env path 0 md g1 g4" for g4
      using last [OF md _ that] 2 by simp
    then show "agree_with (same_object R)
       (bind_result (create_file_block n bm vm env path 0 md f1) (\<lambda>((succeeded, _), f2).
          if \<not> succeeded then Inr (- ENOENT, f2\<lparr>errno := ENOENT\<rparr>) else Inr (0, f2)))
       (bind_result (create_file_block n bm' vm' env path 0 md g1) (\<lambda>((succeeded, _), f2).
          if \<not> succeeded then Inr (- ENOENT, f2\<lparr>errno := ENOENT\<rparr>) else Inr (0, f2)))"
      by (intro agree_bind_with [OF create_file_block_sim [OF 2(2,3)]] agree_steps same_intros)
  qed
qed (intro agree_rules same_intros)

lemma reply_sim: "agree_with S x y \<Longrightarrow> agree_with S (reply k x) (reply k y)"
  unfolding reply_def by (erule agree_bind) (auto intro: agree_rules)

text \<open>What a call asks of its filler, and of the state it leaves if it is a \<open>create\<close>.\<close>

definition call_fits :: "os_env \<Rightarrow> 'b fuse_call \<Rightarrow> ('t, 'm) block_fuse_scheme \<Rightarrow> bool" where
  "call_fits env c g \<longleftrightarrow> good g \<and>
     (case c of Readdir path b fl \<Rightarrow> filler_ok fl
      | Rmdir path \<Rightarrow> (\<forall>r g'. rmdir n bm' vm' path g = Inr (r, g') \<longrightarrow> proper (store g'))
      | Unlink path \<Rightarrow> (\<forall>r g'. rmdir n bm' vm' path g = Inr (r, g') \<longrightarrow> proper (store g'))
      | Create path m \<Rightarrow> (\<forall>md g1 g4. Mode_of_mode_t m = Inr md \<longrightarrow> get_path n bm' path g = Inr ([], g1) \<longrightarrow>
          new_file_state n bm' vm' env path 0 md g1 g4 \<longrightarrow> searchable g4)
      | _ \<Rightarrow> True)"

lemma call_fitsD:
  "call_fits env c g \<Longrightarrow> good g" "call_fits env (Readdir path b fl) g \<Longrightarrow> filler_ok fl"
  "call_fits env (Rmdir path) g \<Longrightarrow> rmdir n bm' vm' path g = Inr (r, g') \<Longrightarrow> proper (store g')"
  "call_fits env (Unlink path) g \<Longrightarrow> rmdir n bm' vm' path g = Inr (r, g') \<Longrightarrow> proper (store g')"
  "call_fits env (Create path m) g \<Longrightarrow> Mode_of_mode_t m = Inr md \<Longrightarrow> get_path n bm' path g = Inr ([], g1) \<Longrightarrow>
     new_file_state n bm' vm' env path 0 md g1 g4 \<Longrightarrow> searchable g4"
  by (auto simp: call_fits_def split: fuse_call.splits)

lemma getattr_same:
  "same_object R f g \<Longrightarrow> good g \<Longrightarrow>
     agree_with (same_object R) (getattr n bm path st f) (getattr n bm' path st g)"
  by (rule agree_mono [OF getattr_sim]) auto

lemmas calls_sim = getattr_same mkdir_sim rmdir_sim readdir_sim read_sim create_file_sim write_sim

lemma call_sim:
  assumes "same_object R f g" and "call_fits env c g"
  shows "agree_with (same_object R) (wrapper_call (Some (BlockFuse_object n bm vm env)) c f)
     (wrapper_call (Some (BlockFuse_object n bm' vm' env)) c g)"
  using assms
  by (cases c) (auto simp: BlockFuse_object_def unlink_def
    intro!: reply_sim calls_sim dest: call_fitsD)

end

lemma wrapper_run_sim:
  assumes "\<And>c f g. S f g \<Longrightarrow> agree_with S (wrapper_call w c f) (wrapper_call w' c g)"
  shows "S f g \<Longrightarrow> agree_with S (wrapper_run w cs f) (wrapper_run w' cs g)"
  by (induction cs arbitrary: f g)
    (auto intro!: agree_rules agree_bind_with [OF assms] intro: agree_bind_with)

section \<open>Programs\<close>

text \<open>The methods of the two classes.\<close>

sublocale change_sim \<subseteq> base_methods: methods_sim bm bm' R "BlockFuse_methods bm" "BlockFuse_methods bm'"
  by unfold_locales
    (auto simp: BlockFuse_methods_def base_free_block_def base_set_root_block_def same_object_def
      intro!: agree_Inr free_sim)

lemma same_revertible:
  fixes f :: "'s revertible" and g :: "'t revertible"
  shows "same_object R f g \<longleftrightarrow> R (store f) (store g) \<and> root_block g = root_block f \<and> dev g = dev f \<and>
     errno g = errno f \<and> checkpoint_requested g = checkpoint_requested f \<and> checkpoints g = checkpoints f"
  by (cases f; cases g) (auto simp: same_object_def)

sublocale change_sim \<subseteq> rev_methods: methods_sim bm bm' R "Revertible_methods bm" "Revertible_methods bm'"
  by unfold_locales
    (auto simp: Revertible_methods_def rev_free_block_def base_set_root_block_def same_revertible
      intro!: agree_Inr free_sim)

context change_sim
begin

lemma base_init_sim:
  "R s t \<Longrightarrow> agree (same_object R) (BlockFuse_init bm env d s) (BlockFuse_init bm' env d t)"
  unfolding BlockFuse_init_def
  by (rule agree_bind_with [OF create_sim]) (auto simp: same_object_def intro: agree_Inr)

lemma rev_init_sim:
  "R s t \<Longrightarrow> agree (same_object R) (RevertibleBlockFuse_init bm env d s) (RevertibleBlockFuse_init bm' env d t)"
  unfolding RevertibleBlockFuse_init_def
  by (rule agree_bind [OF base_init_sim])
    (auto simp: same_object_def block_fuse.defs revertible.defs intro!: agree_Inr)

lemma base_methods_sim: "methods_sim bm bm' R (BlockFuse_methods bm) (BlockFuse_methods bm')"
  by (rule base_methods.methods_sim_axioms)

lemma rev_methods_sim: "methods_sim bm bm' R (Revertible_methods bm) (Revertible_methods bm')"
  by (rule rev_methods.methods_sim_axioms)

end

lemma same_take_checkpoint:
  "same_object R f g \<Longrightarrow> same_object R (take_checkpoint c f) (take_checkpoint c g)"
  by (cases c) (auto simp: same_revertible)

text \<open>Where the responses are equal, every object is good.\<close>

context manager_sim
begin

lemma get_path_same:
  "same_object R f g \<Longrightarrow> agree_with (same_object R) (get_path n bm path f) (get_path n bm' path g)"
  unfolding get_path_def
  by (auto simp: same_object_def intro!: agree_steps agree_bind_with [OF get_path_loop_sim])

lemma same_entries_eq:
  assumes "R s t"
  shows "agree (same_entries R fl) (get_dir_files_from_dir n bm d s) (get_dir_files_from_dir n bm' d t)"
  by (rule agree_mono [OF get_dir_files_sim [OF assms]]) (auto simp: same_entries_def)

lemma objects_sim:
  assumes "methods_sim bm bm' R vm vm'"
  shows "object_sim bm bm' R vm vm' n (\<lambda>_. True) (\<lambda>_. True) (\<lambda>_ _. True) (\<lambda>_. True)
     (\<lambda>_. True)"
  using assms
  by (simp add: object_sim_def object_sim_axioms_def get_path_same read_file_contents_sim same_entries_eq
      recursive_free_sim)

lemma objects_run_sim:
  assumes "methods_sim bm bm' R vm vm'" and "same_object R f g"
  shows "agree_with (same_object R) (wrapper_run (Some (BlockFuse_object n bm vm env)) cs f)
     (wrapper_run (Some (BlockFuse_object n bm' vm' env)) cs g)"
  by (rule wrapper_run_sim [OF object_sim.call_sim [OF objects_sim [OF assms(1)]] assms(2)])
    (auto simp: object_sim.call_fits_def [OF objects_sim [OF assms(1)]] split: fuse_call.splits)

lemmas base_run_sim = objects_run_sim [OF base_methods.methods_sim_axioms]

end

sublocale manager_sim \<subseteq> rev: object_sim bm bm' R "Revertible_methods bm" "Revertible_methods bm'" n
    "\<lambda>_. True" "\<lambda>_. True" "\<lambda>_ _. True" "\<lambda>_. True" "\<lambda>_. True" for n
  by (rule objects_sim [OF rev_methods.methods_sim_axioms])

context manager_sim
begin

lemma rev_mkdir_sim:
  "same_object R f g \<Longrightarrow>
     agree_with (same_object R) (rev_mkdir n bm env path m f) (rev_mkdir n bm' env path m g)"
  by (auto simp: rev_mkdir_def checkpoint_def Let_def same_revertible intro!: rev.mkdir_sim)

lemma rev_rmdir_sim:
  "same_object R f g \<Longrightarrow>
     agree_with (same_object R) (rev_rmdir n bm path f) (rev_rmdir n bm' path g)"
  by (auto simp: rev_rmdir_def rmdir_reverted_def revert_def Revertible_methods_def base_set_root_block_def
      same_revertible [THEN iffD1] rev.rmdir_sim [unfolded Revertible_methods_def]
      intro: agree_Inl split: option.splits)

lemma rev_call_sim:
  "same_object R f g \<Longrightarrow> agree_with (same_object R)
     (wrapper_call (Some (RevertibleBlockFuse_object n bm env)) c f)
     (wrapper_call (Some (RevertibleBlockFuse_object n bm' env)) c g)"
  by (cases c) (simp_all add: RevertibleBlockFuse_object_def BlockFuse_object_def unlink_def rev.reply_sim
      rev.getattr_same rev_mkdir_sim rev_rmdir_sim rev.readdir_sim rev.read_sim rev.create_file_sim rev.write_sim)

lemma rev_run_sim:
  assumes "same_object R f g"
  shows "agree_with (same_object R) (wrapper_run (Some (RevertibleBlockFuse_object n bm env)) cs f)
     (wrapper_run (Some (RevertibleBlockFuse_object n bm' env)) cs g)"
  by (rule wrapper_run_sim [OF rev_call_sim assms])

end

end
