(* ===== verification/IdealStore.thy ===== *)
theory IdealStore
  imports StoreSim
begin

text \<open>
  A store that keeps a map and answers what the contract of a store promises, and no more. A store
  with a life of its own between the calls (blocks that come by, threads that wake) cannot keep that
  contract to the letter, but it can be like this one, and then the file system over it gives the
  replies of the abstract file system.
\<close>

section \<open>The ideal store\<close>

text \<open>
  A map from ids to data, with the ids it gave out. It answers only what a store has to answer: an
  id given out twice, or a request for ids that are not bound, waits for ever, and so does everything
  after a call that frees an id that is not bound.
\<close>

record 'i ideal_store =
  ideal_ids :: 'i
  issued :: "block_id set"
  ideal_blocks :: "block_id \<rightharpoonup> block_data"
  misused :: bool

definition ideal_start :: "'i \<Rightarrow> 'i ideal_store" where
  "ideal_start ids = \<lparr>ideal_ids = ids, issued = {}, ideal_blocks = Map.empty, misused = False\<rparr>"

definition ideal_create ::
  "'i id_supplier \<Rightarrow> block_data \<Rightarrow> 'i ideal_store \<Rightarrow> (block \<times> 'i ideal_store) result" where
  "ideal_create supplier d m =
     (if misused m then Inl Waits_Forever
      else bind_result (supply_next supplier (ideal_ids m)) (\<lambda>(i, ids').
        if i \<in> issued m then Inl Waits_Forever
        else Inr (mk_block i d, m\<lparr>ideal_ids := ids', issued := insert i (issued m),
               ideal_blocks := (ideal_blocks m)(i \<mapsto> d)\<rparr>)))"

definition ideal_free :: "block_id \<Rightarrow> 'i ideal_store \<Rightarrow> 'i ideal_store" where
  "ideal_free i m =
     (if ideal_blocks m i = None then m\<lparr>misused := True\<rparr>
      else m\<lparr>ideal_blocks := (ideal_blocks m)(i := None)\<rparr>)"

definition ideal_get :: "block_request \<Rightarrow> 'i ideal_store \<Rightarrow> (block_response \<times> 'i ideal_store) result" where
  "ideal_get ids m =
     (if \<not> misused m \<and> distinct ids \<and> (\<forall>i \<in> set ids. ideal_blocks m i \<noteq> None)
      then Inr (map (\<lambda>i. Some (mk_block i (the (ideal_blocks m i)))) ids, m)
      else Inl Waits_Forever)"

definition IdealStore :: "'i id_supplier \<Rightarrow> 'i ideal_store block_manager" where
  "IdealStore supplier =
     \<lparr>bm_create = ideal_create supplier, bm_free = ideal_free, bm_get = ideal_get\<rparr>"

definition ideal_wf :: "('i \<Rightarrow> block_id set) \<Rightarrow> 'i ideal_store \<Rightarrow> bool" where
  "ideal_wf fresh m \<longleftrightarrow> \<not> misused m \<and> issued m \<inter> fresh (ideal_ids m) = {} \<and> dom (ideal_blocks m) \<subseteq> issued m"

lemma ideal_start_wf: "ideal_wf fresh (ideal_start ids)" "ideal_blocks (ideal_start ids) = Map.empty"
    "ideal_ids (ideal_start ids) = ids"
  by (simp_all add: ideal_wf_def ideal_start_def)

sublocale id_supply \<subseteq> ideal: block_store "IdealStore supplier" ideal_blocks
  "\<lambda>m. remaining (ideal_ids m)" "ideal_wf fresh"
proof
  fix m :: "'i ideal_store" and d
  assume wf: "ideal_wf fresh m" and "0 < remaining (ideal_ids m)"
  then obtain x i' where n: "supply_next supplier (ideal_ids m) = Inr (x, i')"
    "x \<in> fresh (ideal_ids m)" "x \<notin> fresh i'" "fresh i' \<subseteq> fresh (ideal_ids m)"
    "remaining i' = remaining (ideal_ids m) - 1"
    by (auto elim: next_cases)
  then have "x \<notin> issued m" "ideal_blocks m x = None" using wf by (auto simp: ideal_wf_def)
  with n wf show "\<exists>i s'. bm_create (IdealStore supplier) d m = Inr (mk_block i d, s') \<and>
      ideal_blocks m i = None \<and> ideal_blocks s' = (ideal_blocks m)(i \<mapsto> d) \<and> ideal_wf fresh s' \<and>
      remaining (ideal_ids s') = remaining (ideal_ids m) - 1"
    by (auto simp: IdealStore_def ideal_create_def ideal_wf_def)
qed (auto simp: IdealStore_def ideal_free_def ideal_get_def ideal_wf_def split: if_splits)

text \<open>The specification never waits.\<close>

lemma Mode_of_mode_t_answers: "Mode_of_mode_t m \<noteq> Inl Waits_Forever" "Mode_of_mode_t m \<noteq> Inl Out_Of_Fuel"
  by (auto simp: Mode_of_mode_t_def file_type_from_mode_t_def bind_result_eq_Inl split: if_splits)

lemma spec_call_answers: "spec_call env c a \<noteq> Inl Waits_Forever" "spec_call env c a \<noteq> Inl Out_Of_Fuel"
  by (cases c; auto simp: spec_read_def bind_result_eq_Inl read_range_def Let_def Mode_of_mode_t_answers
    split: prod.splits option.splits if_splits)+

lemma spec_run_answers: "spec_run env cs a \<noteq> Inl Waits_Forever" "spec_run env cs a \<noteq> Inl Out_Of_Fuel"
  by (induction cs arbitrary: a) (auto simp: bind_result_eq_Inl spec_call_answers)

section \<open>The in-memory store\<close>

definition mem_as_ideal :: "counter memory_manager \<Rightarrow> counter ideal_store \<Rightarrow> bool" where
  "mem_as_ideal m a \<longleftrightarrow> misused a \<or> id_state m = ideal_ids a \<and> mem_lookup m = ideal_blocks a \<and>
     dom (ideal_blocks a) \<subseteq> issued a \<and> mem_wf (\<lambda>_. {}) m"

lemma mem_lookup_create:
  "mem_lookup (m\<lparr>id_state := i, block_map := (block_map m)(x \<mapsto> Some (mk_block x d))\<rparr>) = (mem_lookup m)(x \<mapsto> d)"
  by (rule ext) (simp add: mem_lookup_def)

interpretation mem_sim: manager_sim "MemoryBlockManager CounterSupplier" "IdealStore CounterSupplier"
  mem_as_ideal
proof
  fix m :: "counter memory_manager" and a and i
  assume R: "mem_as_ideal m a"
  then show "mem_as_ideal (bm_free (MemoryBlockManager CounterSupplier) i m)
      (bm_free (IdealStore CounterSupplier) i a)"
    using mem_lookup_free [of CounterSupplier i m]
    by (auto simp: mem_as_ideal_def MemoryBlockManager_def IdealStore_def ideal_free_def
        CounterSupplier_def counter_free_id_def mem_free_block_def mem_wf_def)
next
  fix m :: "counter memory_manager" and a and d
  assume R: "mem_as_ideal m a"
  show "agree_with mem_as_ideal (bm_create (MemoryBlockManager CounterSupplier) d m)
      (bm_create (IdealStore CounterSupplier) d a)"
  proof (cases "misused a \<or> ideal_ids a \<in> issued a")
    case True
    then show ?thesis
      using R by (auto simp: IdealStore_def ideal_create_def CounterSupplier_def counter_next_id_def
        MemoryBlockManager_def mem_create_block_def mem_as_ideal_def agree_wait agree_Inl)
  next
    case False
    with R show ?thesis
      by (auto simp: mem_as_ideal_def MemoryBlockManager_def IdealStore_def ideal_create_def mem_create_block_def
        CounterSupplier_def counter_next_id_def mem_wf_def mem_lookup_create Let_def
        intro!: agree_with_Inr agree_Inl dest: subsetD [OF _ domI])
  qed
next
  fix m :: "counter memory_manager" and a and ids
  assume R: "mem_as_ideal m a"
  show "agree_with mem_as_ideal (bm_get (MemoryBlockManager CounterSupplier) ids m)
      (bm_get (IdealStore CounterSupplier) ids a)"
  proof (cases "\<not> misused a \<and> distinct ids \<and> (\<forall>i \<in> set ids. ideal_blocks a i \<noteq> None)")
    case True
    with R have "mem_wf (\<lambda>_. {}) m" "mem_lookup m = ideal_blocks a" "set ids \<subseteq> dom (mem_lookup m)"
      by (auto simp: mem_as_ideal_def)
    with R mem_get_bound [of "\<lambda>_. {}" m ids] show ?thesis
      by (simp add: MemoryBlockManager_def IdealStore_def ideal_get_def agree_def)
  next
    case False
    then show ?thesis by (auto simp: IdealStore_def ideal_get_def agree_wait)
  qed
qed

section \<open>Programs over a store that is like the ideal one\<close>

lemma base_methods_ops:
  assumes "block_store bm lookup room ok"
  shows "block_fuse_ops bm lookup room ok (BlockFuse_methods bm) (\<lambda>_. False)"
  using assms by (simp add: block_fuse_ops_def block_fuse_ops_axioms_def BlockFuse_methods_def
      base_free_block_def base_set_root_block_def)

lemma no_garbage_count:
  assumes "tree_state lookup ok T f" and "no_garbage lookup T f"
  shows "card (dom (lookup (store f))) = fsize (fs_tree (abs_fs T f))"
  using distinct_card [OF tree_stateD(3) [OF assms(1)]] assms(2) by (simp add: no_garbage_def length_tids)

text \<open>The programs over the ideal store.\<close>

context id_supply
begin

lemma ideal_is_store:
  "block_store (IdealStore supplier) ideal_blocks (\<lambda>m. remaining (ideal_ids m)) (ideal_wf fresh)"
  by (rule ideal.block_store_axioms)

lemma ideal_program:
  assumes "0 < remaining i" and "run_ok env fuel (remaining i - 1) calls (spec_init env d)"
  shows "case spec_run env calls (spec_init env d) of
       Inl e \<Rightarrow> bind_result (BlockFuse_init (IdealStore supplier) env d (ideal_start i))
         (wrapper_run (Some (BlockFuse_object fuel (IdealStore supplier) (BlockFuse_methods (IdealStore supplier)) env)) calls) = Inl e
     | Inr (rs, a') \<Rightarrow> \<exists>f. bind_result (BlockFuse_init (IdealStore supplier) env d (ideal_start i))
         (wrapper_run (Some (BlockFuse_object fuel (IdealStore supplier) (BlockFuse_methods (IdealStore supplier)) env)) calls) =
           Inr (rs, f) \<and> \<not> misused (store f) \<and> card (dom (ideal_blocks (store f))) = fsize (fs_tree a')"
proof -
  have room: "0 < remaining (ideal_ids (ideal_start i))" using assms(1) by (simp add: ideal_start_wf)
  from ideal.init_tree [OF ideal_start_wf(1) room ideal_start_wf(2), of env d] obtain f T where
    f: "BlockFuse_init (IdealStore supplier) env d (ideal_start i) = Inr f" "tree_state ideal_blocks (ideal_wf fresh) T f"
    "no_garbage ideal_blocks T f" "abs_fs T f = spec_init env d"
    "remaining (ideal_ids (store f)) = remaining i - 1"
    by (auto simp: ideal_start_wf)
  have "\<not> misused (store f') \<and> card (dom (ideal_blocks (store f'))) = fsize (fs_tree (abs_fs T' f'))"
    if "tree_state ideal_blocks (ideal_wf fresh) T' f'" "no_garbage ideal_blocks T' f'"
    for T' and f' :: "'i ideal_store block_fuse"
    using no_garbage_count [OF that] tree_stateD(1) [OF that(1)] by (simp add: ideal_wf_def)
  with block_fuse_ops.run_refines [OF base_methods_ops [OF ideal.block_store_axioms] f(2),
      of env fuel "remaining i - 1" calls] f assms(2)
  show ?thesis by (fastforce split: sum.splits)
qed

lemma ideal_rev_program:
  assumes "0 < remaining i" and "run_ok env fuel (remaining i - 1) calls (spec_init env d)"
    and "no_reverts calls"
  shows "map_sum id fst (bind_result (RevertibleBlockFuse_init (IdealStore supplier) env d (ideal_start i))
       (wrapper_run (Some (RevertibleBlockFuse_object fuel (IdealStore supplier) env)) calls)) =
     map_sum id fst (spec_run env calls (spec_init env d))"
proof -
  have room: "0 < remaining (ideal_ids (ideal_start i))" using assms(1) by (simp add: ideal_start_wf)
  have rs: "revertible_store (IdealStore supplier) ideal_blocks (\<lambda>m. remaining (ideal_ids m)) (ideal_wf fresh)"
    using ideal.block_store_axioms by (simp add: revertible_store_def)
  from revertible_store.rev_init [OF rs ideal_start_wf(1) room ideal_start_wf(2), of env d] obtain f T where
    f: "RevertibleBlockFuse_init (IdealStore supplier) env d (ideal_start i) = Inr f"
    "tree_state ideal_blocks (ideal_wf fresh) T f" "sentinel_keys f" "abs_fs T f = spec_init env d"
    "remaining (ideal_ids (store f)) = remaining i - 1"
    by (auto simp: ideal_start_wf)
  with revertible_store.rev_run [OF rs f(2), of env fuel "remaining i - 1" calls] assms(2,3)
  show ?thesis by (fastforce split: sum.splits)
qed

end

text \<open>And over a store that is like it.\<close>

definition plain_program ::
  "nat \<Rightarrow> os_env \<Rightarrow> 'b fuse_call list \<Rightarrow> dev_t \<Rightarrow> 's block_manager \<Rightarrow> 's \<Rightarrow>
     ('b fuse_reply list \<times> 's block_fuse) result" where
  "plain_program fuel env calls d bm s = bind_result (BlockFuse_init bm env d s)
     (wrapper_run (Some (BlockFuse_object fuel bm (BlockFuse_methods bm) env)) calls)"

lemma agreed_program:
  assumes agree: "agree_with (same_object R) (plain_program fuel env calls d bm s)
      (plain_program fuel env calls d (IdealStore supplier) (ideal_start i))"
    and ids: "id_supply supplier fresh remaining" and room: "0 < remaining i"
    and ok: "run_ok env fuel (remaining i - 1) calls (spec_init env d)"
  shows "case spec_run env calls (spec_init env d) of
       Inl e \<Rightarrow> plain_program fuel env calls d bm s = Inl e
     | Inr (rs, a') \<Rightarrow> \<exists>f m. plain_program fuel env calls d bm s = Inr (rs, f) \<and>
         R (store f) m \<and> \<not> misused m \<and> card (dom (ideal_blocks m)) = fsize (fs_tree a')"
proof -
  note ideal = id_supply.ideal_program [OF ids room ok, folded plain_program_def]
  show ?thesis
  proof (cases "spec_run env calls (spec_init env d)")
    case (Inl e)
    then have "e \<noteq> Waits_Forever" "e \<noteq> Out_Of_Fuel" using spec_run_answers [of env calls "spec_init env d"] by auto
    with ideal Inl agree_withD(2) [OF agree, of e] show ?thesis by simp
  next
    case (Inr p)
    obtain rs a' where p: "p = (rs, a')" by (cases p)
    with ideal Inr obtain g where "plain_program fuel env calls d (IdealStore supplier) (ideal_start i) = Inr (rs, g)"
      "\<not> misused (store g)" "card (dom (ideal_blocks (store g))) = fsize (fs_tree a')" by auto
    with Inr p agree_withD(1) [OF agree, of rs g] show ?thesis by (auto simp: same_object_def)
  qed
qed

definition rev_program ::
  "nat \<Rightarrow> os_env \<Rightarrow> 'b fuse_call list \<Rightarrow> dev_t \<Rightarrow> 's block_manager \<Rightarrow> 's \<Rightarrow>
     ('b fuse_reply list \<times> 's revertible) result" where
  "rev_program fuel env calls d bm s = bind_result (RevertibleBlockFuse_init bm env d s)
     (wrapper_run (Some (RevertibleBlockFuse_object fuel bm env)) calls)"

lemma agreed_rev_program:
  assumes agree: "agree_with (same_object R) (rev_program fuel env calls d bm s)
      (rev_program fuel env calls d (IdealStore supplier) (ideal_start i))"
    and ids: "id_supply supplier fresh remaining" and room: "0 < remaining i"
    and ok: "run_ok env fuel (remaining i - 1) calls (spec_init env d)" "no_reverts calls"
  shows "map_sum id fst (rev_program fuel env calls d bm s) = map_sum id fst (spec_run env calls (spec_init env d))"
proof -
  note ideal = id_supply.ideal_rev_program [OF ids room ok, folded rev_program_def]
  have "rev_program fuel env calls d (IdealStore supplier) (ideal_start i) \<notin> {Inl Waits_Forever, Inl Out_Of_Fuel}"
    using ideal spec_run_answers [of env calls "spec_init env d"]
    by (cases "spec_run env calls (spec_init env d)") auto
  with agree have "map_sum id fst (rev_program fuel env calls d bm s) =
      map_sum id fst (rev_program fuel env calls d (IdealStore supplier) (ideal_start i))"
    by (auto simp: agree_def rel_sum.simps)
  with ideal show ?thesis by simp
qed

end
