(* ===== verification/FsLoose.thy ===== *)
theory FsLoose
  imports FsRead
begin

text \<open>
  What reading gives over a store that answers in any order (\<open>loose_store\<close>): the leaves of a file
  in some order, so the contents if there is one leaf at most, and the entries of a directory in
  some order, which a filler that commutes does not see.
\<close>

section \<open>Contents\<close>

text \<open>The leaves of a file.\<close>

definition leaves_of :: "ftree \<Rightarrow> string list" where
  "leaves_of t = concat (map fleaves (fkids t))"

lemma fcontents_leaves: "fcontents t = concat (leaves_of t)"
  by (simp add: fcontents_def leaves_of_def)

context loose_store
begin

lemma contents_loose:
  "holds L s \<Longrightarrow> \<forall>t \<in> set ts. stored L t \<and> fheight (strip t) \<le> n \<Longrightarrow> distinct (concat (map tids ts)) \<Longrightarrow>
     \<exists>ls s'. get_file_contents (Suc n) bm (map tid ts) acc s = Inr (acc @ ls, s') \<and> holds L s' \<and>
       mset ls = mset (concat (map (\<lambda>t. fleaves (strip t)) ts))"
proof (induction n arbitrary: ts acc s)
  case 0
  have "ts = []"
  proof (rule ccontr)
    assume "ts \<noteq> []"
    then obtain c where "c \<in> set ts" by (cases ts) auto
    with 0 fheight_pos [of "strip c"] show False by auto
  qed
  with get_stored_loose [OF 0(1), of "[]"] show ?case by auto
next
  case (Suc n)
  have loop: "\<exists>ls s'. get_file_contents_loop (Suc n) bm (map (\<lambda>c. Some (tblock c)) us) acc s = Inr (acc @ ls, s') \<and>
      holds L s' \<and> mset ls = mset (concat (map (\<lambda>t. fleaves (strip t)) us))"
    if "set us \<subseteq> set ts" "holds L s" for us acc s
    using that
  proof (induction us arbitrary: acc s)
    case (Cons u us)
    have u: "stored L u" "fheight (strip u) \<le> Suc n" "set us \<subseteq> set ts"
      using Cons.prems Suc.prems by auto
    have kids: "\<forall>c \<in> set (kids u). stored L c \<and> fheight (strip c) \<le> n"
      using u stored_kid height_kids [of u n] by blast
    have "distinct (tids u)" using Suc.prems(3) Cons.prems by (auto simp: distinct_concat_iff)
    then have "distinct (concat (map tids (kids u)))" by (simp add: tids_eq [of u])
    from Suc.IH [OF Cons.prems(2) kids this, of acc] obtain ls1 s1 where
      1: "get_file_contents (Suc n) bm (map tid (kids u)) acc s = Inr (acc @ ls1, s1)" "holds L s1"
      "mset ls1 = mset (concat (map (\<lambda>t. fleaves (strip t)) (kids u)))" by blast
    show ?case
    proof (cases "tkind u")
      case (KDir nm st)
      with Cons.IH [OF u(3) Cons.prems(2), of acc] show ?thesis
        by (auto simp: try_cast_tblock strip_eq [of u] simp del: get_file_contents.simps)
    next
      case KLink
      from Cons.IH [OF u(3) 1(2), of "acc @ ls1"] obtain ls2 s2 where
        "get_file_contents_loop (Suc n) bm (map (\<lambda>c. Some (tblock c)) us) (acc @ ls1) s1 = Inr ((acc @ ls1) @ ls2, s2)"
        "holds L s2" "mset ls2 = mset (concat (map (\<lambda>t. fleaves (strip t)) us))" by blast
      with KLink 1 show ?thesis
        by (intro exI [of _ "ls1 @ ls2"] exI [of _ s2])
          (simp add: try_cast_tblock strip_eq [of u] comp_def del: get_file_contents.simps)
    next
      case (KLeaf c)
      from Cons.IH [OF u(3) Cons.prems(2), of "acc @ [c]"] obtain ls2 s2 where
        "get_file_contents_loop (Suc n) bm (map (\<lambda>c. Some (tblock c)) us) (acc @ [c]) s = Inr ((acc @ [c]) @ ls2, s2)"
        "holds L s2" "mset ls2 = mset (concat (map (\<lambda>t. fleaves (strip t)) us))" by blast
      with KLeaf show ?thesis
        by (intro exI [of _ "c # ls2"] exI [of _ s2])
          (simp add: try_cast_tblock strip_eq [of u] del: get_file_contents.simps)
    qed
  qed simp
  from Suc.prems get_stored_loose [OF Suc.prems(1) _ distinct_kid_ids [OF Suc.prems(3)]] obtain us s1 where
    us: "mset us = mset ts" "bm_get bm (map tid ts) s = Inr (map (\<lambda>c. Some (tblock c)) us, s1)" "holds L s1"
    by blast
  have "mset (concat (map (\<lambda>t. fleaves (strip t)) us)) = mset (concat (map (\<lambda>t. fleaves (strip t)) ts))"
    by (rule mset_concat_order [OF us(1)])
  with loop [OF _ us(3), of us acc] mset_eq_setD [OF us(1)] us(2) show ?case by auto
qed

lemma one_leaf: "mset ls = mset ks \<Longrightarrow> length ks \<le> 1 \<Longrightarrow> ls = ks"
  by (cases ks) auto

lemma read_contents_loose:
  assumes "holds L s" and "stored L t" and "fheight (strip t) \<le> n"
    and "try_cast_dir_file (tblock t) = Some d" and "\<not> df_is_dir d" and "distinct (tids t)"
    and "length (leaves_of (strip t)) \<le> 1"
  shows "\<exists>s'. read_file_contents n bm d s = Inr (fcontents (strip t), s') \<and> holds L s'"
proof -
  obtain m where n: "n = Suc m" using assms(3) fheight_pos [of "strip t"] by (cases n) auto
  have ch: "df_children d = map tid (kids t)"
    using assms(4) by (cases "tkind t") (auto simp: try_cast_tblock)
  have "\<forall>c \<in> set (kids t). stored L c \<and> fheight (strip c) \<le> m"
    using assms(2,3) stored_kid height_kids [of t m] n by blast
  moreover have "distinct (concat (map tids (kids t)))" using assms(6) by (simp add: tids_eq [of t])
  ultimately obtain ls s' where r: "get_file_contents n bm (map tid (kids t)) [] s = Inr ([] @ ls, s')" "holds L s'"
    "mset ls = mset (leaves_of (strip t))"
    using contents_loose [OF assms(1), of "kids t" m "[]"] by (auto simp: n leaves_of_def comp_def)
  from one_leaf [OF r(3) assms(7)] r(1,2) assms(5) show ?thesis
    by (simp add: read_file_contents_def ch file_blocks_to_contents_concat fcontents_leaves)
qed

section \<open>Entries\<close>

lemma kid_dirs_order: "mset us = mset ts \<Longrightarrow> mset (kid_dirs us) = mset (kid_dirs ts)"
proof -
  have eq: "kid_dirs vs = concat (map (\<lambda>t. case try_cast_dir_file (tblock t) of Some d \<Rightarrow> [d] | None \<Rightarrow> []) vs)" for vs
    by (induction vs) (auto split: option.splits)
  show "mset us = mset ts \<Longrightarrow> ?thesis" unfolding eq by (rule mset_concat_order)
qed

lemma dir_files_loose:
  "holds L s \<Longrightarrow> \<forall>t \<in> set ts. stored L t \<and> fshape (strip t) \<and> fheight (strip t) \<le> n \<Longrightarrow>
     distinct (concat (map tids ts)) \<Longrightarrow>
     \<exists>ds s'. get_dir_files_loop n bm (map tid ts) acc s = Inr (acc @ ds, s') \<and> holds L s' \<and>
       mset ds = mset (kid_dirs ts)"
proof (induction n arbitrary: ts acc s)
  case 0
  have "ts = []"
  proof (rule ccontr)
    assume "ts \<noteq> []"
    then obtain c where "c \<in> set ts" by (cases ts) auto
    with 0 fheight_pos [of "strip c"] show False by auto
  qed
  with 0 show ?case by simp
next
  case (Suc n)
  show ?case
  proof (cases "ts = []")
    case False
    from Suc.prems get_stored_loose [OF Suc.prems(1) _ distinct_kid_ids [OF Suc.prems(3)]] obtain us s1 where
      us: "mset us = mset ts" "bm_get bm (map tid ts) s = Inr (map (\<lambda>c. Some (tblock c)) us, s1)" "holds L s1"
      by blast
    note set_us = mset_eq_setD [OF us(1)]
    let ?next = "concat (map link_kids us)"
    have nx: "stored L c \<and> fshape (strip c) \<and> fheight (strip c) \<le> n \<and> \<not> is_dir_file (tkind c)"
      if "c \<in> set ?next" for c
    proof -
      from that obtain t where t: "t \<in> set ts" "c \<in> set (link_kids t)" using set_us by auto
      then have k: "c \<in> set (kids t)" by (auto simp: link_kids_def split: if_splits)
      have "stored L c" using Suc.prems t(1) k stored_kid by blast
      moreover have "fheight (strip c) \<le> n" using Suc.prems t(1) k height_kids by blast
      moreover have "fshape (strip c)" "\<not> is_dir_file (tkind c)"
        using fshape_link_kid [of t c] Suc.prems t by auto
      ultimately show ?thesis by blast
    qed
    have "distinct (concat (map tids us))"
      using mset_concat_order [OF us(1)] Suc.prems(3) by (metis mset_eq_imp_distinct_iff)
    from Suc.IH [OF us(3) _ distinct_link_kids [OF this], of "acc @ kid_dirs us"] nx obtain ds s2 where
      "get_dir_files_loop n bm (map tid ?next) (acc @ kid_dirs us) s1 = Inr ((acc @ kid_dirs us) @ ds, s2)"
      "holds L s2" "mset ds = mset (kid_dirs ?next)" by blast
    moreover have "kid_dirs ?next = []" using nx by (intro kid_dirs_none) blast
    ultimately show ?thesis using us(2) False kid_dirs_order [OF us(1)] by (simp add: collect_tree)
  qed (use Suc.prems in simp)
qed

end

text \<open>A filler that commutes: the result does not depend on the order of the entries.\<close>

definition any_order_filler :: "'b filler \<Rightarrow> bool" where
  "any_order_filler fl \<longleftrightarrow>
     (\<forall>b x sx y sy. snd (fl (snd (fl b x sx)) y sy) = snd (fl (snd (fl b y sy)) x sx))"

lemma fill_children_fold:
  "fill_children fl d cs st b =
     fold (\<lambda>c b. snd (fl b (df_name c) (Some (update_stat (df_stat c) d 1 st)))) cs b"
proof (induction cs arbitrary: st b)
  case (Cons c cs)
  have "update_stat x d 1 (update_stat y d 1 st) = update_stat x d 1 st" for x y
    by (simp add: update_stat_def)
  with Cons show ?case by (simp add: Let_def)
qed simp

lemma fill_children_order:
  assumes "any_order_filler fl" and "mset cs = mset ds"
  shows "fill_children fl d cs st b = fill_children fl d ds st b"
proof -
  let ?f = "\<lambda>c b. snd (fl b (df_name c) (Some (update_stat (df_stat c) d 1 st)))"
  have "fold ?f cs = fold ?f ds"
    using assms by (intro fold_multiset_equiv) (auto simp: any_order_filler_def comp_def)
  then show ?thesis by (simp add: fill_children_fold)
qed

end
