(* ===== verification/FsSlim.thy ===== *)
theory FsSlim
  imports FsLoose FuseWrapper
begin

text \<open>
  File systems whose files have at most one leaf: they stay so as long as no write makes a file
  longer than a block.
\<close>

section \<open>Files of at most one leaf\<close>

fun slim :: "ftree \<Rightarrow> bool" where
  "slim (FNode k ts) \<longleftrightarrow> length (concat (map fleaves ts)) \<le> 1 \<and> (\<forall>t \<in> set ts. slim t)"

lemma slim_leaves: "slim t \<Longrightarrow> length (leaves_of t) \<le> 1"
  by (cases t) (simp add: leaves_of_def)

lemma slim_kid: "slim t \<Longrightarrow> c \<in> set (fkids t) \<Longrightarrow> slim c"
  by (cases t) auto

lemma slim_eq: "slim t \<longleftrightarrow> length (leaves_of t) \<le> 1 \<and> (\<forall>c \<in> set (fkids t). slim c)"
  by (cases t) (simp add: leaves_of_def)

lemma dir_no_leaves: "is_dir_file (fkind t) \<Longrightarrow> fleaves t = []"
  by (cases t; cases "fkind t") auto

text \<open>The tree of a file that fits in one block.\<close>

lemma block_tree_slim: "is_block_tree t \<Longrightarrow> length (fleaves t) \<le> 1 \<Longrightarrow> slim t"
proof (induction t)
  case (FNode k ts)
  show ?case
  proof (cases k)
    case KLink
    have "length (fleaves t) \<le> length (concat (map fleaves ts))" if "t \<in> set ts" for t
      using that by (induction ts) auto
    with KLink FNode show ?thesis by (fastforce simp: is_block_tree_def)
  qed (use FNode in \<open>auto simp: is_block_tree_def\<close>)
qed

lemma written_slim:
  assumes "length c \<le> BYTES_PER_BLOCK" and "slim t"
  shows "slim (written_file env c t)"
proof (cases "fkind t")
  case (KDir n st)
  let ?ts = "file_forest (ceil_log env) BYTES_PER_BLOCK BRANCHING_FACTOR c"
  have leaves: "length (concat (map fleaves ?ts)) \<le> 1"
  proof (cases "c = []")
    case False
    have "0 < BRANCHING_FACTOR" by (simp add: BRANCHING_FACTOR_def)
    with False leaf_strings_short [of c BYTES_PER_BLOCK] assms(1) show ?thesis
      by (simp add: file_forest_def flayers_contents comp_def)
  qed (simp add: file_forest_def)
  have "slim t'" if "t' \<in> set ?ts" for t'
  proof (rule block_tree_slim)
    show "is_block_tree t'" using file_forest_shape that by blast
    have "length (fleaves t') \<le> length (concat (map fleaves ts))" if "t' \<in> set ts" for ts
      using that by (induction ts) auto
    then show "length (fleaves t') \<le> 1" using leaves that le_trans by blast
  qed
  with leaves KDir show ?thesis by (simp add: written_file_def)
qed (use assms in \<open>simp_all add: written_file_def\<close>)

section \<open>Updates\<close>

lemma leaves_remove_first:
  "length (concat (map fleaves (remove_first p ts))) \<le> length (concat (map fleaves ts))"
  by (induction ts) auto

lemma slim_update:
  "slim t \<Longrightarrow> is_dir_file (fkind t) \<Longrightarrow> flookup ps t = Some d \<Longrightarrow> slim (g d) \<Longrightarrow> is_dir_file (fkind (g d)) \<Longrightarrow>
     slim (fupdate ps g t) \<and> is_dir_file (fkind (fupdate ps g t))"
proof (induction ps arbitrary: t)
  case (Cons p ps)
  obtain k ts where t: "t = FNode k ts" by (cases t)
  from Cons.prems(3) obtain c where c: "ffind p ts = Some c" "flookup ps c = Some d"
    by (auto simp: t split: option.splits)
  from ffind_Some [OF c(1)] have ck: "c \<in> set ts" "is_dir_file (fkind c)"
    using kind_named_is_dir_file by auto
  from Cons.IH [OF slim_kid [OF Cons.prems(1)] ck(2) c(2) Cons.prems(4,5)] ck(1)
  have u: "slim (fupdate ps g c)" "is_dir_file (fkind (fupdate ps g c))" by (simp_all add: t)
  have "length (concat (map fleaves (remove_first (\<lambda>t. kind_named p (fkind t)) ts))) \<le> 1"
    using leaves_remove_first [of "\<lambda>t. kind_named p (fkind t)" ts] Cons.prems(1) by (simp add: t)
  with u dir_no_leaves [OF u(2)] Cons.prems(1,2) set_remove_first [of "\<lambda>t. kind_named p (fkind t)" ts] show ?case
    by (auto simp: t c(1))
qed simp

lemma slim_add_kid:
  "slim t \<Longrightarrow> slim (add_kid (FNode (KDir n st) []) t) \<and> fkind (add_kid (FNode (KDir n st) []) t) = fkind t"
  by (cases t) (simp add: add_kid_def)

lemma slim_remove_kid: "slim t \<Longrightarrow> slim (remove_kid p t) \<and> fkind (remove_kid p t) = fkind t"
  using leaves_remove_first [of "\<lambda>t. kind_named p (fkind t)" "fkids t"]
    set_remove_first [of "\<lambda>t. kind_named p (fkind t)" "fkids t"]
  by (cases t) (auto simp: remove_kid_def)

lemma slim_lookup: "slim t \<Longrightarrow> flookup ps t = Some d \<Longrightarrow> slim d"
proof (induction ps arbitrary: t)
  case (Cons p ps)
  then show ?case using slim_kid [OF Cons.prems(1)] by (auto split: option.splits dest!: ffind_Some)
qed simp

section \<open>Calls\<close>

text \<open>Writes that leave a file of one block at most.\<close>

fun call_small :: "'b fuse_call \<Rightarrow> fs \<Rightarrow> bool" where
  "call_small (Write path buffer sz offset) a \<longleftrightarrow>
     (case flookup (fs_parts path) (fs_tree a) of
        None \<Rightarrow> True
      | Some t \<Rightarrow> is_file t \<longrightarrow> length (spliced (fcontents t) buffer sz offset) \<le> BYTES_PER_BLOCK)"
| "call_small c a \<longleftrightarrow> True"

fun run_small :: "os_env \<Rightarrow> 'b fuse_call list \<Rightarrow> fs \<Rightarrow> bool" where
  "run_small env [] a \<longleftrightarrow> True"
| "run_small env (c # cs) a \<longleftrightarrow>
     call_small c a \<and> (case spec_call env c a of Inl e \<Rightarrow> True | Inr (r, a') \<Rightarrow> run_small env cs a')"

definition slim_tree :: "ftree \<Rightarrow> bool" where
  "slim_tree t \<longleftrightarrow> slim t \<and> is_dir_file (fkind t)"

lemma slim_tree_update:
  assumes "slim_tree t" and "flookup ps t = Some d" and "slim_tree d \<Longrightarrow> slim_tree (g d)"
  shows "slim_tree (fupdate ps g t)"
  using assms slim_update [of t ps d g] slim_lookup [of t ps d] flookup_dir [of t ps d] by (simp add: slim_tree_def)

lemma slim_tree_edits:
  "slim_tree t \<Longrightarrow> slim_tree (add_kid (FNode (KDir n st) []) t)"
  "slim_tree t \<Longrightarrow> slim_tree (remove_kid p t)"
  "slim_tree t \<Longrightarrow> length c \<le> BYTES_PER_BLOCK \<Longrightarrow> slim_tree (written_file env c t)"
  using slim_add_kid [of t n st] slim_remove_kid [of t p] written_slim [of c t env]
  by (auto simp: slim_tree_def written_file_def split: kind.splits)

lemma slim_tree_edited:
  assumes "slim_tree t" and "flookup ps t = Some d"
  shows "slim_tree (fupdate ps (add_kid (FNode (KDir n st) [])) t)"
    and "slim_tree (fupdate ps (remove_kid p) t)"
    and "length c \<le> BYTES_PER_BLOCK \<Longrightarrow> slim_tree (fupdate ps (written_file env c) t)"
  by (rule slim_tree_update [OF assms], erule slim_tree_edits; assumption)+

lemma slim_tree_init: "slim_tree (fs_tree (spec_init env d))"
  by (simp add: slim_tree_def spec_init_def)

lemma spec_rmdir_slim:
  assumes "slim_tree (fs_tree a)"
  shows "slim_tree (fs_tree (snd (spec_rmdir path a)))"
proof (cases "flookup (fs_parts path) (fs_tree a) = None \<or> fs_parts path = []")
  case False
  then have "flookup (butlast (fs_parts path) @ [last (fs_parts path)]) (fs_tree a) \<noteq> None" by simp
  then obtain d where "flookup (butlast (fs_parts path)) (fs_tree a) = Some d"
    by (auto simp: flookup_append split: option.splits)
  from slim_tree_edited(2) [OF assms this] False show ?thesis by (auto simp: spec_rmdir_def Let_def)
qed (use assms in \<open>simp add: spec_rmdir_def Let_def\<close>)

lemma spec_call_slim:
  assumes "slim_tree (fs_tree a)" and "call_small c a" and "spec_call env c a = Inr (r, a')"
  shows "slim_tree (fs_tree a')"
proof (cases c)
  case (Write path b sz off)
  with assms show ?thesis
    by (auto simp: spec_write_def split: option.splits if_splits intro: slim_tree_edited)
next
  case (Rmdir path)
  with assms spec_rmdir_slim [OF assms(1), of path] show ?thesis by (auto split: prod.splits)
next
  case (Unlink path)
  with assms spec_rmdir_slim [OF assms(1), of path] show ?thesis by (auto split: prod.splits)
next
  case (Mkdir path m)
  with assms show ?thesis
    by (auto simp: spec_mkdir_def Let_def split: option.splits prod.splits if_splits)
      (rule slim_tree_edited(1); assumption)
next
  case (Create path m)
  with assms show ?thesis
    by (auto simp: spec_create_def Let_def bind_result_eq_Inr split: option.splits prod.splits if_splits)
      (rule slim_tree_edited(1); assumption)
qed (use assms in \<open>auto simp: spec_getattr_def spec_readdir_def spec_read_def Let_def bind_result_eq_Inr
    split: option.splits prod.splits if_splits\<close>)

end
