(* ===== verification/AnyOrder.thy ===== *)
theory AnyOrder
  imports IdealStore FsSlim
begin

text \<open>
  Stores that bring every block that is asked for, in any order. Searches, frees and updates do not
  depend on the order; the contents of a file are its leaves in the order in which they come, so that
  files of one leaf are read as they were written; and a directory is listed in the order in which
  its entries come. With files of at most one leaf and fillers that commute, the file system over
  such a store gives the replies of the abstract file system.
\<close>

section \<open>Managers that keep their state when they answer\<close>

locale reader =
  fixes bm :: "'s block_manager"
  assumes get_same: "bm_get bm ids s = Inr (r, s') \<Longrightarrow> s' = s"
begin

lemma path_loop_same: "get_path_part_loop n bm p ids r s = Inr (x, r', s') \<Longrightarrow> s' = s"
  by (induction n arbitrary: ids r s) (auto simp: bind_result_eq_Inr dest: get_same split: if_splits option.splits)

lemma path_part_same: "get_path_part n bm root p b bs s = Inr (x, s') \<Longrightarrow> s' = s"
  by (auto simp: get_path_part_def bind_result_eq_Inr dest: path_loop_same split: if_splits option.splits)

lemma path_same: "get_path_loop n bm root ps b bs s = Inr (x, s') \<Longrightarrow> s' = s"
  by (induction ps arbitrary: b bs s) (auto simp: bind_result_eq_Inr dest: path_part_same split: if_splits)

lemma get_path_same: "get_path n bm path f = Inr (bs, f') \<Longrightarrow> f' = f"
  by (auto simp: get_path_def bind_result_eq_Inr dest: path_same)

lemma contents_loop_same:
  assumes "\<And>ids acc s x s'. get_file_contents n bm ids acc s = Inr (x, s') \<Longrightarrow> s' = s"
  shows "get_file_contents_loop n bm rs acc s = Inr (x, s') \<Longrightarrow> s' = s"
  by (induction rs arbitrary: acc s) (auto simp: bind_result_eq_Inr dest: assms split: option.splits)

lemma contents_same: "get_file_contents n bm ids acc s = Inr (x, s') \<Longrightarrow> s' = s"
  by (induction n arbitrary: ids acc s x s')
    (auto simp: bind_result_eq_Inr dest!: get_same contents_loop_same [rotated])

lemma read_contents_same: "read_file_contents n bm d s = Inr (c, s') \<Longrightarrow> s' = s"
  by (auto simp: read_file_contents_def bind_result_eq_Inr dest: contents_same)

end

interpretation ideal_reader: reader "IdealStore supplier" for supplier
  by unfold_locales (auto simp: IdealStore_def ideal_get_def split: if_splits)

section \<open>Freeing a tree in the ideal store\<close>

lemma ideal_free_all:
  "distinct ids \<Longrightarrow> \<forall>i \<in> set ids. ideal_blocks m i \<noteq> None \<Longrightarrow>
     free_all (IdealStore supplier) ids m = m\<lparr>ideal_blocks := ideal_blocks m |` (- set ids)\<rparr>"
proof (induction ids arbitrary: m)
  case (Cons i ids)
  let ?m = "m\<lparr>ideal_blocks := (ideal_blocks m)(i := None)\<rparr>"
  have free: "bm_free (IdealStore supplier) i m = ?m" using Cons.prems by (auto simp: IdealStore_def ideal_free_def)
  have "\<forall>j \<in> set ids. ideal_blocks ?m j \<noteq> None" using Cons.prems by auto
  with Cons.IH [of ?m] Cons.prems have
    "free_all (IdealStore supplier) ids ?m = ?m\<lparr>ideal_blocks := ideal_blocks ?m |` (- set ids)\<rparr>"
    by (simp del: fun_upd_apply)
  also have "ideal_blocks ?m |` (- set ids) = ideal_blocks m |` (- set (i # ids))"
    by (rule ext) (simp add: restrict_map_def)
  also have "?m\<lparr>ideal_blocks := X\<rparr> = m\<lparr>ideal_blocks := X\<rparr>" for X by simp
  finally show ?case by (simp only: free_all.simps free)
qed (simp add: restrict_map_def)

lemma misused_free: "misused m \<Longrightarrow> misused (free_all (IdealStore supplier) ids m)"
  by (induction ids arbitrary: m) (simp_all add: IdealStore_def ideal_free_def)

lemma misused_stays:
  "recursive_free_children_blocks n (IdealStore supplier) b m = Inr m' \<Longrightarrow> misused m \<Longrightarrow> misused m'"
  "recursive_free_loop n (IdealStore supplier) rs m = Inr m' \<Longrightarrow> misused m \<Longrightarrow> misused m'"
proof (induction n "IdealStore supplier" b m and n "IdealStore supplier" rs m arbitrary: m' and m'
    rule: recursive_free_children_blocks_recursive_free_loop.induct)
  case (2 fuel b s)
  then show ?case
    by (auto simp: bind_result_eq_Inr IdealStore_def ideal_get_def split: option.splits if_splits)
next
  case (4 fuel p ps s)
  then show ?case by (auto simp: bind_result_eq_Inr)
qed simp_all

lemma ideal_free_error:
  "recursive_free_children_blocks n (IdealStore supplier) b m = Inl e \<Longrightarrow> e = Waits_Forever \<or> e = Out_Of_Fuel"
  "recursive_free_loop n (IdealStore supplier) rs m = Inl e \<Longrightarrow> None \<notin> set rs \<Longrightarrow> e = Waits_Forever \<or> e = Out_Of_Fuel"
proof (induction n "IdealStore supplier" b m and n "IdealStore supplier" rs m arbitrary: e and e
    rule: recursive_free_children_blocks_recursive_free_loop.induct)
  case (2 fuel b s)
  then show ?case
    by (fastforce simp: bind_result_eq_Inl IdealStore_def ideal_get_def split: option.splits if_splits)
next
  case (4 fuel p ps s)
  then show ?case by (cases p) (auto simp: bind_result_eq_Inl)
qed simp_all

text \<open>If freeing what is below a block succeeds, a tree is stored there, and exactly it is freed.\<close>

definition freed_tree :: "nat \<Rightarrow> btree \<Rightarrow> 'i ideal_store \<Rightarrow> 'i ideal_store \<Rightarrow> bool" where
  "freed_tree n T m m' \<longleftrightarrow> trim T \<and> fheight (strip T) \<le> n \<and> (\<forall>c \<in> set (kids T). stored (ideal_blocks m) c) \<and>
     distinct (concat (map tids (kids T))) \<and>
     m' = m\<lparr>ideal_blocks := ideal_blocks m |` (- set (concat (map tids (kids T))))\<rparr>"

lemma node_of_children:
  assumes ch: "case get_children b of None \<Rightarrow> ids = [] | Some cs \<Rightarrow> ids = cs"
  shows "\<exists>k. b = mk_block (get_id b) (node_data k ids) \<and> ((\<exists>c. k = KLeaf c) \<longrightarrow> ids = [])"
proof -
  obtain i d where b: "b = mk_block i d" by (cases b)
  show ?thesis
  proof (cases d)
    case (DirFileBlockData df)
    with ch b show ?thesis
      by (intro exI [of _ "KDir (df_name df) (df_stat df)"])
        (cases df, simp add: get_children_def try_cast_defs)
  next
    case (LinkBlockData cs)
    with ch b show ?thesis
      by (intro exI [of _ KLink]) (simp add: get_children_def try_cast_defs)
  next
    case (FileContentsBlockData c)
    with ch b show ?thesis
      by (intro exI [of _ "KLeaf c"]) (simp add: get_children_def try_cast_defs)
  qed
qed

lemma distinct_below:
  assumes "distinct (map tid us)" and "distinct (concat (map (\<lambda>u. concat (map tids (kids u))) us))"
    and "set (map tid us) \<inter> set (concat (map (\<lambda>u. concat (map tids (kids u))) us)) = {}"
  shows "distinct (concat (map tids us))"
proof -
  have "mset (concat (map tids us)) = mset (map tid us @ concat (map (\<lambda>u. concat (map tids (kids u))) us))" for us
  proof (induction us)
    case (Cons u us)
    then show ?case by (simp add: tids_eq [of u] ac_simps)
  qed simp
  from distinct_mset_eq [OF this] assms show ?thesis by simp
qed

lemma freed_loop:
  assumes IH: "\<And>b m m'. recursive_free_children_blocks n (IdealStore supplier) b m = Inr m' \<Longrightarrow> \<not> misused m' \<Longrightarrow>
      \<exists>T. tblock T = b \<and> freed_tree n T m m'"
  shows "recursive_free_loop n (IdealStore supplier) (map Some bs) m = Inr m' \<Longrightarrow> \<not> misused m' \<Longrightarrow>
    \<exists>us. map tblock us = bs \<and> (\<forall>u \<in> set us. trim u \<and> fheight (strip u) \<le> n \<and>
        (\<forall>c \<in> set (kids u). stored (ideal_blocks m) c)) \<and>
      distinct (concat (map (\<lambda>u. concat (map tids (kids u))) us)) \<and>
      m' = m\<lparr>ideal_blocks := ideal_blocks m |` (- set (concat (map (\<lambda>u. concat (map tids (kids u))) us)))\<rparr>"
proof (induction bs arbitrary: m)
  case (Cons b bs)
  then obtain m1 where m1: "recursive_free_children_blocks n (IdealStore supplier) b m = Inr m1"
    "recursive_free_loop n (IdealStore supplier) (map Some bs) m1 = Inr m'"
    by (auto simp: bind_result_eq_Inr)
  have "\<not> misused m1" using misused_stays(2) [OF m1(2)] Cons.prems(2) by blast
  from IH [OF m1(1) this] obtain T where T: "tblock T = b" "freed_tree n T m m1" by blast
  from Cons.IH [OF m1(2) Cons.prems(2)] obtain us where us: "map tblock us = bs"
    "\<forall>u \<in> set us. trim u \<and> fheight (strip u) \<le> n \<and> (\<forall>c \<in> set (kids u). stored (ideal_blocks m1) c)"
    "distinct (concat (map (\<lambda>u. concat (map tids (kids u))) us))"
    "m' = m1\<lparr>ideal_blocks := ideal_blocks m1 |` (- set (concat (map (\<lambda>u. concat (map tids (kids u))) us)))\<rparr>"
    by blast
  let ?below = "set (concat (map tids (kids T)))" and ?rest = "set (concat (map (\<lambda>u. concat (map tids (kids u))) us))"
  have m1_blocks: "ideal_blocks m1 = ideal_blocks m |` (- ?below)" using T(2) by (simp add: freed_tree_def)
  have "set (tids c) \<inter> ?below = {}" if "u \<in> set us" "c \<in> set (kids u)" for u c
  proof -
    have "set (tids c) \<subseteq> dom (ideal_blocks m1)" using us(2) that stored_dom by blast
    then show ?thesis unfolding m1_blocks by auto
  qed
  then have "?rest \<inter> ?below = {}" by auto
  moreover have "stored (ideal_blocks m) c" if "u \<in> set us" "c \<in> set (kids u)" for u c
  proof -
    have "stored (ideal_blocks m1) c" using us(2) that by blast
    then show ?thesis unfolding m1_blocks by (rule stored_map_le) (simp add: map_le_def)
  qed
  moreover have "ideal_blocks m |` (- ?below) |` (- ?rest) =
      ideal_blocks m |` (- set (concat (map (\<lambda>u. concat (map tids (kids u))) (T # us))))"
    by (simp add: Int_commute)
  ultimately show ?case
    using T us unfolding freed_tree_def by (intro exI [of _ "T # us"]) auto
qed (simp add: restrict_map_def)

lemma ideal_freed_tree:
  "recursive_free_children_blocks n (IdealStore supplier) b m = Inr m' \<Longrightarrow> \<not> misused m' \<Longrightarrow>
     \<exists>T. tblock T = b \<and> freed_tree n T m m'"
proof (induction n arbitrary: b m m')
  case (Suc n)
  show ?case
  proof (cases "get_children b")
    case None
    then obtain k where k: "b = mk_block (get_id b) (node_data k [])" "(\<exists>c. k = KLeaf c) \<longrightarrow> [] = []"
      using node_of_children [where b = b and ids = "[]"] by auto
    with None Suc.prems(1) show ?thesis
      by (intro exI [of _ "Node (get_id b) k []"]) (simp add: freed_tree_def tblock_def tdata_def restrict_map_def)
  next
    case (Some cs)
    let ?L = "ideal_blocks m"
    from Some Suc.prems(1) have ids: "\<not> misused m" "distinct cs" "\<forall>i \<in> set cs. ?L i \<noteq> None"
      and loop: "recursive_free_loop n (IdealStore supplier) (map Some (map (\<lambda>i. mk_block i (the (?L i))) cs))
        (free_all (IdealStore supplier) cs m) = Inr m'"
      by (auto simp: bind_result_eq_Inr IdealStore_def ideal_get_def comp_def split: if_splits)
    let ?m1 = "m\<lparr>ideal_blocks := ?L |` (- set cs)\<rparr>"
    from freed_loop [OF Suc.IH loop [unfolded ideal_free_all [OF ids(2,3)]] Suc.prems(2)] obtain us where
      us: "map tblock us = map (\<lambda>i. mk_block i (the (?L i))) cs"
      "\<forall>u \<in> set us. trim u \<and> fheight (strip u) \<le> n \<and> (\<forall>c \<in> set (kids u). stored (?L |` (- set cs)) c)"
      "distinct (concat (map (\<lambda>u. concat (map tids (kids u))) us))"
      "m' = m\<lparr>ideal_blocks := ?L |` (- set cs) |` (- set (concat (map (\<lambda>u. concat (map tids (kids u))) us)))\<rparr>"
      by auto
    have "map get_id (map tblock us) = cs" unfolding us(1) by (simp add: comp_def)
    then have cs: "cs = map tid us" by (simp add: comp_def)
    have "stored ?L u" if u: "u \<in> set us" for u
    proof -
      have "tblock u \<in> set (map tblock us)" using u by simp
      then obtain i where i: "i \<in> set cs" "tblock u = mk_block i (the (?L i))" unfolding us(1) by auto
      then have "?L (tid u) = Some (tdata u)" using ids(3) by (auto simp: tblock_def)
      moreover have "stored ?L c" if "c \<in> set (kids u)" for c
      proof -
        have "stored (?L |` (- set cs)) c" using us(2) u that by blast
        then show ?thesis by (rule stored_map_le) (simp add: map_le_def)
      qed
      ultimately show ?thesis using stored_iff by blast
    qed
    moreover have "set cs \<inter> set (concat (map (\<lambda>u. concat (map tids (kids u))) us)) = {}"
    proof -
      have "set (tids c) \<subseteq> - set cs" if "u \<in> set us" "c \<in> set (kids u)" for u c
      proof -
        have "stored (?L |` (- set cs)) c" using us(2) that by blast
        from stored_dom [OF this] show ?thesis by auto
      qed
      then show ?thesis by auto
    qed
    then have "distinct (concat (map tids us))" using distinct_below us(3) ids(2) cs by blast
    moreover obtain k where k: "b = mk_block (get_id b) (node_data k cs)" "(\<exists>c. k = KLeaf c) \<longrightarrow> cs = []"
      using node_of_children [where b = b and ids = cs] Some by auto
    let ?T = "Node (get_id b) k us"
    have "tblock ?T = b" using k(1) by (simp add: tblock_def tdata_def cs)
    moreover have "trim ?T" using k(2) us(2) cs by auto
    moreover have "fheight (strip ?T) \<le> Suc n" using us(2) by (simp only: height_kids) simp
    moreover have "?L |` (- set cs) |` (- set (concat (map (\<lambda>u. concat (map tids (kids u))) us))) =
        ?L |` (- set (concat (map tids us)))"
      unfolding concat_ids [of us] restrict_restrict by (simp add: cs)
    ultimately show ?thesis using us(4) unfolding freed_tree_def by (intro exI [of _ ?T]) simp
  qed
qed simp

section \<open>Stores that bring the blocks in any order\<close>

locale any_order_sim = change_sim bm "IdealStore supplier" R
  for bm :: "'s block_manager" and supplier :: "'i id_supplier" and R :: "'s \<Rightarrow> 'i ideal_store \<Rightarrow> bool" +
  assumes get_any: "R s m \<Longrightarrow> \<not> misused m \<Longrightarrow> distinct ids \<Longrightarrow> \<forall>i \<in> set ids. ideal_blocks m i \<noteq> None \<Longrightarrow>
      \<exists>order s'. mset order = mset ids \<and>
        bm_get bm ids s = Inr (map (\<lambda>i. Some (mk_block i (the (ideal_blocks m i)))) order, s') \<and> R s' m"

sublocale any_order_sim \<subseteq> at: loose_manager bm
    "\<lambda>L s. \<not> misused m \<and> R s (m\<lparr>ideal_blocks := L\<rparr>)" for m
proof
  fix L s and ids :: "block_id list"
  assume "\<not> misused m \<and> R s (m\<lparr>ideal_blocks := L\<rparr>)" "distinct ids" "set ids \<subseteq> dom L"
  then show "\<exists>order s'. mset order = mset ids \<and>
      bm_get bm ids s = Inr (map (\<lambda>i. Some (mk_block i (the (L i)))) order, s') \<and>
      \<not> misused m \<and> R s' (m\<lparr>ideal_blocks := L\<rparr>)"
    using get_any [of s "m\<lparr>ideal_blocks := L\<rparr>" ids] by auto
next
  fix L s i
  assume "\<not> misused m \<and> R s (m\<lparr>ideal_blocks := L\<rparr>)" "i \<in> dom L"
  then show "\<not> misused m \<and> R (bm_free bm i s) (m\<lparr>ideal_blocks := L(i := None)\<rparr>)"
    using free_sim [of s "m\<lparr>ideal_blocks := L\<rparr>" i] by (auto simp: IdealStore_def ideal_free_def)
qed

context any_order_sim
begin

lemma free_tree_any:
  assumes "R s m"
    and "\<And>m'. recursive_free_children_blocks n (IdealStore supplier) b m = Inr m' \<Longrightarrow> \<not> misused m'"
  shows "agree R (recursive_free_children_blocks n bm b s) (recursive_free_children_blocks n (IdealStore supplier) b m)"
proof (cases "recursive_free_children_blocks n (IdealStore supplier) b m")
  case (Inl e)
  with ideal_free_error(1) [OF this] show ?thesis by (auto simp: agree_wait)
next
  case (Inr m')
  note ok = assms(2) [OF Inr]
  from ideal_freed_tree [OF Inr ok] obtain T where T: "tblock T = b" "freed_tree n T m m'" by blast
  have "\<not> misused m" using misused_stays(1) [OF Inr] ok by blast
  with assms(1) have "\<not> misused m \<and> R s (m\<lparr>ideal_blocks := ideal_blocks m\<rparr>)" by simp
  from at.recursive_free_loose [OF this, of T n] T Inr show ?thesis
    by (auto simp: freed_tree_def intro!: agree_Inr)
qed

end

section \<open>Stored trees\<close>

text \<open>What a stored tree of a height that the fuel allows says of a block.\<close>

definition held :: "nat \<Rightarrow> (block_id \<rightharpoonup> block_data) \<Rightarrow> btree \<Rightarrow> bool" where
  "held n L t \<longleftrightarrow> stored L t \<and> distinct (tids t) \<and> fshape (strip t) \<and> fheight (strip t) \<le> n \<and> slim (strip t)"

lemma held_kid:
  assumes "held n L t" and "c \<in> set (kids t)"
  shows "held n L c"
proof -
  obtain h where h: "fheight (strip t) = Suc h" using fheight_pos [of "strip t"]
    by (cases "fheight (strip t)") auto
  with height_kids [of t h] assms(2) have "fheight (strip c) \<le> h" by simp
  with assms h stored_kid distinct_tids_kid fshape_kid slim_kid [of "strip t" "strip c"] show ?thesis
    by (auto simp: held_def)
qed

lemma held_walk: "bwalk ps t = Some cs \<Longrightarrow> held n L t \<Longrightarrow> c \<in> set (t # cs) \<Longrightarrow> held n L c"
proof (induction ps arbitrary: t cs)
  case (Cons p ps)
  then obtain u cs' where u: "bfind p t = Some u" "bwalk ps u = Some cs'" "cs = u # cs'"
    by (auto split: option.splits)
  from bfind_kid [OF u(1)] held_kid [OF Cons.prems(2)] have "held n L u" by blast
  with Cons u show ?case by auto
qed simp

section \<open>Operations\<close>

text \<open>Calls that do not see the order in which a directory is listed.\<close>

definition any_order_calls :: "'b fuse_call list \<Rightarrow> bool" where
  "any_order_calls calls \<longleftrightarrow> (\<forall>path b fl. Readdir path b fl \<in> set calls \<longrightarrow> any_order_filler fl)"

locale any_order_objects = any_order_sim bm supplier R + methods_sim bm "IdealStore supplier" R vm vm' +
    ops: block_fuse_ops "IdealStore supplier" ideal_blocks "\<lambda>m. remaining (ideal_ids m)" "ideal_wf fresh" vm' keeps
  for bm :: "'s block_manager" and supplier :: "'i id_supplier" and R :: "'s \<Rightarrow> 'i ideal_store \<Rightarrow> bool"
    and vm :: "('s, 'm) fuse_methods" and vm' :: "('i ideal_store, 'm) fuse_methods" and keeps
    and remaining :: "'i \<Rightarrow> nat" and fresh
begin

definition within :: "nat \<Rightarrow> ('i ideal_store, 'm) block_fuse_scheme \<Rightarrow> bool" where
  "within n g \<longleftrightarrow> (\<exists>T. tree_state ideal_blocks (ideal_wf fresh) T g \<and> fheight (strip T) \<le> n)"

definition good :: "nat \<Rightarrow> ('i ideal_store, 'm) block_fuse_scheme \<Rightarrow> bool" where
  "good n g \<longleftrightarrow> (\<exists>T. tree_state ideal_blocks (ideal_wf fresh) T g \<and> held n (ideal_blocks (store g)) T)"

definition node_in :: "nat \<Rightarrow> ('i ideal_store, 'm) block_fuse_scheme \<Rightarrow> block \<Rightarrow> bool" where
  "node_in n g b \<longleftrightarrow> (\<exists>c. b = tblock c \<and> held n (ideal_blocks (store g)) c)"

lemma good_store:
  assumes "good n g" and "R s (store g)"
  shows "ideal_wf fresh (store g)" and "\<not> misused (store g)"
    and "\<not> misused (store g) \<and> R s ((store g)\<lparr>ideal_blocks := ideal_blocks (store g)\<rparr>)"
  using assms by (auto simp: good_def tree_state_def ideal_wf_def)

lemma get_path_any:
  assumes "same_object R f g" and "within n g"
  shows "agree_with (same_object R) (get_path n bm path f) (get_path n (IdealStore supplier) path g)"
proof (cases "path = []")
  case True
  then show ?thesis by (simp add: get_path_def separate_path_spec agree_Inl)
next
  case False
  from assms(2) obtain T where T: "tree_state ideal_blocks (ideal_wf fresh) T g" "fheight (strip T) \<le> n"
    by (auto simp: within_def)
  note TT = tree_stateD [OF T(1)]
  have "\<not> misused (store g) \<and> R (store f) ((store g)\<lparr>ideal_blocks := ideal_blocks (store g)\<rparr>)"
    using TT(1) same_object_store [OF assms(1)] by (simp add: ideal_wf_def)
  from at.get_path_loop_loose [OF TT(2,4,3,7) T(2) root_not_part [of path] this,
      where root = "root_block f" and acc = "[tblock T]"]
  obtain s' where s': "get_path_loop n bm (root_block f) (fs_parts path) (Some (tblock T)) [tblock T] (store f) =
      Inr (case bwalk (fs_parts path) T of None \<Rightarrow> [] | Some cs \<Rightarrow> [tblock T] @ map tblock cs, s')" "R s' (store g)"
    by auto
  have root: "root_block f = Some (tblock T)" using assms(1) TT(6) by (simp add: same_object_def)
  have "get_path_part n bm (root_block f) ''/'' None [] (store f) = Inr ([tblock T], store f)"
    by (simp add: get_path_part_def PATH_SEPARATOR_def root)
  with s' have "get_path n bm path f = Inr (case bwalk (fs_parts path) T of None \<Rightarrow> [] | Some cs \<Rightarrow> map tblock (T # cs),
      f\<lparr>store := s'\<rparr>)"
    by (simp add: get_path_def separate_fs_parts [OF False] split: option.splits)
  with ops.get_path_tree [OF T(1) False T(2)] same_object_set_store [OF assms(1) s'(2)] show ?thesis
    by (simp add: agree_def)
qed

lemma get_path_held:
  assumes "good n g" and "get_path n (IdealStore supplier) path g = Inr (bs, g')"
  shows "good n g' \<and> (\<forall>b \<in> set bs. node_in n g' b)"
proof -
  from assms(1) obtain T where T: "tree_state ideal_blocks (ideal_wf fresh) T g" "held n (ideal_blocks (store g)) T"
    by (auto simp: good_def)
  have "path \<noteq> []" using assms(2) by (auto simp: get_path_def separate_path_spec)
  from ops.get_path_tree [OF T(1) this] T(2) assms(2) have
    "bs = (case bwalk (fs_parts path) T of None \<Rightarrow> [] | Some cs \<Rightarrow> map tblock (T # cs))" "g' = g"
    by (auto simp: held_def)
  with assms(1) held_walk [OF _ T(2)] show ?thesis
    by (auto simp: node_in_def simp del: list.map split: option.splits)
qed

lemma contents_any:
  assumes s: "R s (store g)" and g: "good n g" and b: "node_in n g b" and d: "try_cast_dir_file b = Some d"
  shows "agree_with R (read_file_contents n bm d s) (read_file_contents n (IdealStore supplier) d (store g))"
proof (cases "df_is_dir d")
  case True
  then show ?thesis by (simp add: read_file_contents_def assert_that_def agree_Inl)
next
  case False
  from b obtain c where c: "b = tblock c" "held n (ideal_blocks (store g)) c" by (auto simp: node_in_def)
  note h = c(2) [unfolded held_def]
  from at.read_contents_loose [OF good_store(3) [OF g s], of c n d] c(1) d h False slim_leaves obtain s' where
    "read_file_contents n bm d s = Inr (fcontents (strip c), s')" "R s' (store g)" by auto
  moreover have "read_file_contents n (IdealStore supplier) d (store g) = Inr (fcontents (strip c), store g)"
    using ops.read_contents_tree [OF good_store(1) [OF g s]] c(1) d h False by blast
  ultimately show ?thesis by (simp add: agree_with_Inr)
qed

lemma entries_any:
  assumes s: "R s (store g)" and g: "good n g" and b: "node_in n g b" and d: "try_cast_dir_file b = Some d"
    and fl: "any_order_filler fl"
  shows "agree (same_entries R fl) (get_dir_files_from_dir n bm d s)
    (get_dir_files_from_dir n (IdealStore supplier) d (store g))"
proof -
  from b obtain c where c: "b = tblock c" "held n (ideal_blocks (store g)) c" by (auto simp: node_in_def)
  have ch: "df_children d = map tid (kids c)"
    using d c(1) by (cases "tkind c") (auto simp: try_cast_tblock)
  have kids: "\<forall>t \<in> set (kids c). stored (ideal_blocks (store g)) t \<and> fshape (strip t) \<and> fheight (strip t) \<le> n"
    using held_kid [OF c(2)] by (auto simp: held_def)
  have ids: "distinct (concat (map tids (kids c)))" using c(2) by (simp add: held_def tids_eq [of c])
  from at.dir_files_loose [OF good_store(3) [OF g s] kids ids, of "[]"] obtain ds s' where
    ds: "get_dir_files_from_dir n bm d s = Inr (ds, s')" "R s' (store g)" "mset ds = mset (kid_dirs (kids c))"
    by (auto simp: get_dir_files_from_dir_def ch)
  have "get_dir_files_from_dir n (IdealStore supplier) d (store g) = Inr (kid_dirs (kids c), store g)"
    using ops.dir_files_tree [OF good_store(1) [OF g s] kids ids] by (simp add: get_dir_files_from_dir_def ch)
  with ds fill_children_order [OF fl ds(3)] show ?thesis by (simp add: agree_def same_entries_def)
qed

lemma free_contents_any:
  assumes s: "R s (store g)" and g: "good n g" and b: "node_in n g b"
  shows "agree R (recursive_free_children_blocks n bm b s)
    (recursive_free_children_blocks n (IdealStore supplier) b (store g))"
proof (rule free_tree_any [OF s])
  fix m'
  assume m': "recursive_free_children_blocks n (IdealStore supplier) b (store g) = Inr m'"
  from b obtain c where c: "b = tblock c" "held n (ideal_blocks (store g)) c" by (auto simp: node_in_def)
  have "\<forall>t \<in> set (kids c). stored (ideal_blocks (store g)) t" using held_kid [OF c(2)] by (auto simp: held_def)
  moreover have "distinct (concat (map tids (kids c)))" using c(2) by (simp add: held_def tids_eq [of c])
  ultimately show "\<not> misused m'"
    using ops.recursive_free_tree [OF good_store(1) [OF g s], of c n] c m' by (auto simp: held_def ideal_wf_def)
qed

lemma objects_any:
  "object_sim bm (IdealStore supplier) R vm vm' n (within n) (good n) (node_in n) any_order_filler (\<lambda>m. \<not> misused m)"
proof
  show "good n g \<Longrightarrow> within n g" for g by (auto simp: good_def within_def held_def)
  show "good n g \<Longrightarrow> good n (g\<lparr>errno := e\<rparr>)" for g e by (simp add: good_def)
  show "good n g \<Longrightarrow> node_in n g b \<Longrightarrow> read_file_contents n (IdealStore supplier) d (store g) = Inr (c, t) \<Longrightarrow>
      good n (g\<lparr>store := t\<rparr>) \<and> node_in n (g\<lparr>store := t\<rparr>) b" for g b d c t
    by (auto dest: ideal_reader.read_contents_same)
qed (simp_all add: get_path_any get_path_held contents_any entries_any free_contents_any free_tree_any)

text \<open>What \<open>object_sim\<close> asks of a call holds within the fuel and the ids that are left.\<close>

lemma create_within:
  assumes T: "tree_state ideal_blocks (ideal_wf fresh) T g" and fuel: "fheight (strip T) < n"
    and path: "fuse_path path" and room: "length (fs_parts path) + 1 \<le> remaining (ideal_ids (store g))"
    and md: "Mode_of_mode_t m = Inr md" and new: "get_path n (IdealStore supplier) path g = Inr ([], g1)"
      "new_file_state n (IdealStore supplier) vm' env path 0 md g1 g4"
  shows "within n g4"
proof -
  have g1: "g1 = g" by (rule ideal_reader.get_path_same [OF new(1)])
  from ops.create_refines [OF T path fuel room md, of env] obtain g5 T' where
    g5: "create n (IdealStore supplier) vm' env path m g = Inr (fst (spec_create env path md (abs_fs T g)), g5)"
    "tree_state ideal_blocks (ideal_wf fresh) T' g5" "abs_fs T' g5 = snd (spec_create env path md (abs_fs T g))"
    by (auto simp: steps_to_def)
  have "g5 = g4"
    using g5(1) new(2) unfolding new_file_state_def g1
    by (auto simp: create_def create_file_block_def new(1) [unfolded g1] md bind_result_eq_Inr
        dest: ideal_reader.get_path_same)
  have "fheight (strip T') \<le> fheight (strip T) + 1"
    using arg_cong [OF g5(3), of fs_tree]
      fheight_fupdate [of "butlast (fs_parts path)" "strip T" _ "add_kid (FNode (KDir (last (fs_parts path)) (new_stat env md 0)) [])" 1]
      fheight_add_kid [of "FNode (KDir (last (fs_parts path)) (new_stat env md 0)) []"]
    by (auto simp: spec_create_def Let_def split: if_splits)
  with g5(2) fuel show ?thesis unfolding \<open>g5 = g4\<close> within_def by (intro exI [of _ T']) simp
qed

lemma call_fits_any:
  assumes T: "tree_state ideal_blocks (ideal_wf fresh) T g" and slim: "slim (strip T)" and ok: "call_ok c"
    and fuel: "fheight (strip T) < n" and cost: "call_cost env c (abs_fs T g) \<le> remaining (ideal_ids (store g))"
    and fl: "\<And>path b fl. c = Readdir path b fl \<Longrightarrow> any_order_filler fl"
  shows "object_sim.call_fits (IdealStore supplier) vm' n (within n) (good n) any_order_filler
    (\<lambda>m. \<not> misused m) env c g"
proof -
  have good: "good n g"
    using tree_stateD [OF T] T slim fuel unfolding good_def held_def by (intro exI [of _ T]) simp
  have proper: "\<not> misused (store g')"
    if "spec_rmdir path (abs_fs T g) = (r0, a')" "call_ok (Rmdir path :: 'x fuse_call)"
      "call_cost env (Rmdir path :: 'x fuse_call) (abs_fs T g) \<le> remaining (ideal_ids (store g))"
      "rmdir n (IdealStore supplier) vm' path g = Inr (r, g')" for path r g' r0 a'
    using ops.call_refines [OF T that(2) fuel that(3)] that(1,4)
    by (auto simp: BlockFuse_object_def reply_def steps_to_def tree_state_def ideal_wf_def)
  note fits = object_sim.call_fits_def [OF objects_any]
  show ?thesis
  proof (cases c)
    case (Rmdir path)
    with proper [of path] good ok cost show ?thesis by (cases "spec_rmdir path (abs_fs T g)") (auto simp: fits)
  next
    case (Unlink path)
    with proper [of path] good ok cost show ?thesis by (cases "spec_rmdir path (abs_fs T g)") (auto simp: fits)
  next
    case (Create path m)
    with create_within [OF T fuel] good ok cost show ?thesis by (auto simp: fits)
  qed (use good fl in \<open>auto simp: fits\<close>)
qed

text \<open>A call that fits is answered the same, in whatever order the blocks come.\<close>

lemma call_any:
  assumes "same_object R f g" and "tree_state ideal_blocks (ideal_wf fresh) T g" and "slim (strip T)"
    and "call_ok c" "fheight (strip T) < n" "call_cost env c (abs_fs T g) \<le> remaining (ideal_ids (store g))"
    and "any_order_calls (c # calls)"
  shows "agree_with (same_object R) (wrapper_call (Some (BlockFuse_object n bm vm env)) c f)
    (wrapper_call (Some (BlockFuse_object n (IdealStore supplier) vm' env)) c g)"
  by (rule object_sim.call_sim [OF objects_any assms(1) call_fits_any [OF assms(2-6)]])
    (use assms(7) in \<open>simp add: any_order_calls_def\<close>)

lemma run_any:
  "same_object R f g \<Longrightarrow> tree_state ideal_blocks (ideal_wf fresh) T g \<Longrightarrow> slim_tree (strip T) \<Longrightarrow>
     run_ok env n ids calls (abs_fs T g) \<Longrightarrow> ids \<le> remaining (ideal_ids (store g)) \<Longrightarrow>
     run_small env calls (abs_fs T g) \<Longrightarrow>
     any_order_calls calls \<Longrightarrow>
     agree_with (same_object R) (wrapper_run (Some (BlockFuse_object n bm vm env)) calls f)
       (wrapper_run (Some (BlockFuse_object n (IdealStore supplier) vm' env)) calls g)"
proof (induction calls arbitrary: f g T ids)
  case (Cons c calls)
  let ?k = "call_cost env c (abs_fs T g)"
  note T = Cons.prems(2)
  have c: "call_ok c" "fheight (strip T) < n" "?k \<le> remaining (ideal_ids (store g))" "slim (strip T)"
    using Cons.prems(3-5) by (auto simp: slim_tree_def)
  note call_any [OF Cons.prems(1) T c(4,1,2,3) Cons.prems(7)]
  then show ?case unfolding wrapper_run.simps
  proof (rule agree_bind_with_final)
    fix r f1 g1
    assume 1: "wrapper_call (Some (BlockFuse_object n (IdealStore supplier) vm' env)) c g = Inr (r, g1)"
      "same_object R f1 g1"
    from ops.call_refines [OF T c(1-3)] 1(1) obtain T1 where T1:
      "spec_call env c (abs_fs T g) = Inr (r, abs_fs T1 g1)" "tree_state ideal_blocks (ideal_wf fresh) T1 g1"
      "remaining (ideal_ids (store g)) \<le> remaining (ideal_ids (store g1)) + ?k"
      by (auto simp: steps_to_def split: sum.splits)
    have "slim_tree (strip T1)"
      using spec_call_slim [OF _ _ T1(1)] Cons.prems(3,6) by simp
    with Cons.IH [OF 1(2) T1(2), of "ids - ?k"] Cons.prems(4-7) T1(1,3) show
      "agree_with (same_object R)
        (bind_result (wrapper_run (Some (BlockFuse_object n bm vm env)) calls f1) (\<lambda>(rs, f''). Inr (r # rs, f'')))
        (bind_result (wrapper_run (Some (BlockFuse_object n (IdealStore supplier) vm' env)) calls g1)
          (\<lambda>(rs, f''). Inr (r # rs, f'')))"
      by (intro agree_bind_with [where R = "same_object R"] agree_rules) (auto simp: any_order_calls_def)
  qed
qed (simp add: agree_with_Inr)

end

section \<open>The revertible file system\<close>

lemma id_supply_revertible:
  "id_supply supplier fresh remaining \<Longrightarrow>
     revertible_store (IdealStore supplier) ideal_blocks (\<lambda>m. remaining (ideal_ids m)) (ideal_wf fresh)"
  by (simp add: revertible_store_def id_supply.ideal_is_store)

lemma rev_run_any:
  assumes any: "any_order_sim bm supplier R" and ids: "id_supply supplier fresh remaining"
  shows "same_object R f g \<Longrightarrow> tree_state ideal_blocks (ideal_wf fresh) T g \<Longrightarrow> slim_tree (strip T) \<Longrightarrow>
     run_ok env n k calls (abs_fs T g) \<Longrightarrow> k \<le> remaining (ideal_ids (store g)) \<Longrightarrow>
     run_small env calls (abs_fs T g) \<Longrightarrow> any_order_calls calls \<Longrightarrow> no_reverts calls \<Longrightarrow> sentinel_keys g \<Longrightarrow>
     agree_with (same_object R) (wrapper_run (Some (RevertibleBlockFuse_object n bm env)) calls f)
       (wrapper_run (Some (RevertibleBlockFuse_object n (IdealStore supplier) env)) calls g)"
proof (induction calls arbitrary: f g T k)
  case (Cons c calls)
  let ?k = "call_cost env c (abs_fs T g)" and ?w = "\<lambda>bm. Some (RevertibleBlockFuse_object n bm env)"
  have sim: "change_sim bm (IdealStore supplier) R" using any by (simp add: any_order_sim_def)
  note rs = id_supply_revertible [OF ids]
  have objects: "any_order_objects bm supplier R (Revertible_methods bm) (Revertible_methods (IdealStore supplier))
      checkpoint_requested remaining fresh"
    using any change_sim.rev_methods_sim [OF sim] revertible_store.revertible_ops [OF rs]
    by (simp add: any_order_objects_def)
  have c: "call_ok c" "fheight (strip T) < n" "?k \<le> remaining (ideal_ids (store g))" "slim (strip T)"
    using Cons.prems(3-5) by (auto simp: slim_tree_def)
  have nr: "\<forall>p. removed_path c = Some p \<longrightarrow> checkpoints g p = None" "checkpoints f = checkpoints g" "no_reverts calls"
    using Cons.prems(1,8,9) by (auto simp: no_reverts_def sentinel_keys_def dom_def same_revertible split: option.splits)
  have "agree_with (same_object R) (wrapper_call (?w bm) c f) (wrapper_call (?w (IdealStore supplier)) c g)"
    using any_order_objects.call_any [OF objects same_take_checkpoint [OF Cons.prems(1)], where T = T and c = c and n = n and env = env and calls = calls]
      Cons.prems(2,7) c nr by (simp add: rev_call_base take_checkpoint_same)
  then show ?case unfolding wrapper_run.simps
  proof (rule agree_bind_with_final)
    fix r f1 g1
    assume 1: "wrapper_call (?w (IdealStore supplier)) c g = Inr (r, g1)" "same_object R f1 g1"
    from revertible_store.rev_call [OF rs Cons.prems(2) c(1-3) nr(1)] 1(1) obtain T1 where T1:
      "spec_call env c (abs_fs T g) = Inr (r, abs_fs T1 g1)" "tree_state ideal_blocks (ideal_wf fresh) T1 g1"
      "remaining (ideal_ids (store g)) \<le> remaining (ideal_ids (store g1)) + ?k"
      "block_fuse.more g1 = block_fuse.more (take_checkpoint c g)"
      by (auto split: sum.splits)
    have "slim_tree (strip T1)"
      using spec_call_slim [OF _ _ T1(1)] Cons.prems(3,6) by simp
    moreover have "sentinel_keys g1"
      using more_fields(3) [OF T1(4)] take_checkpoint_keys [OF Cons.prems(9)] by simp
    ultimately show "agree_with (same_object R)
        (bind_result (wrapper_run (?w bm) calls f1) (\<lambda>(rs, f''). Inr (r # rs, f'')))
        (bind_result (wrapper_run (?w (IdealStore supplier)) calls g1) (\<lambda>(rs, f''). Inr (r # rs, f'')))"
      using Cons.IH [OF 1(2) T1(2), of "k - ?k"] Cons.prems(4-7) T1(1,3) nr(3)
      by (intro agree_bind_with [where R = "same_object R"] agree_rules) (auto simp: any_order_calls_def)
  qed
qed (simp add: agree_with_Inr)


section \<open>Programs\<close>

text \<open>Calls that do not depend on the order in which the blocks come.\<close>

definition any_order_ok :: "os_env \<Rightarrow> 'b fuse_call list \<Rightarrow> fs \<Rightarrow> bool" where
  "any_order_ok env calls a \<longleftrightarrow> run_small env calls a \<and> any_order_calls calls"

text \<open>A store that answers in order, or in any order calls that do not depend on it.\<close>

definition served ::
  "'s block_manager \<Rightarrow> 'i id_supplier \<Rightarrow> ('s \<Rightarrow> 'i ideal_store \<Rightarrow> bool) \<Rightarrow> os_env \<Rightarrow> 'b fuse_call list \<Rightarrow> fs \<Rightarrow> bool" where
  "served bm supplier R env calls a \<longleftrightarrow> change_sim bm (IdealStore supplier) R \<and>
     (manager_sim bm (IdealStore supplier) R \<or> any_order_sim bm supplier R \<and> any_order_ok env calls a)"

text \<open>Runs of an object and of its ideal one from where the ideal one represents a file system.\<close>

lemma served_run:
  assumes served: "served bm supplier R env calls (abs_fs T g)"
    and vm: "methods_sim bm (IdealStore supplier) R vm vm'"
    and ops: "block_fuse_ops (IdealStore supplier) ideal_blocks (\<lambda>m. remaining (ideal_ids m)) (ideal_wf fresh) vm' keeps"
    and f: "same_object R f g" and T: "tree_state ideal_blocks (ideal_wf fresh) T g" "slim_tree (strip T)"
    and ok: "run_ok env n ids calls (abs_fs T g)" "ids \<le> remaining (ideal_ids (store g))"
  shows "agree_with (same_object R) (wrapper_run (Some (BlockFuse_object n bm vm env)) calls f)
    (wrapper_run (Some (BlockFuse_object n (IdealStore supplier) vm' env)) calls g)"
proof (cases "manager_sim bm (IdealStore supplier) R")
  case True
  from manager_sim.objects_run_sim [OF this vm f] show ?thesis .
next
  case False
  with served have "any_order_sim bm supplier R" "run_small env calls (abs_fs T g)" "any_order_calls calls"
    by (simp_all add: served_def any_order_ok_def)
  moreover from this vm ops have "any_order_objects bm supplier R vm vm' keeps remaining fresh"
    by (simp add: any_order_objects_def)
  ultimately show ?thesis
    using any_order_objects.run_any [where remaining = remaining and fresh = fresh, OF _ f T ok] by blast
qed

lemma served_from_init:
  assumes served: "served bm supplier R env calls (spec_init env d)"
    and vm: "methods_sim bm (IdealStore supplier) R vm vm'"
    and ops: "block_fuse_ops (IdealStore supplier) ideal_blocks (\<lambda>m. remaining (ideal_ids m)) (ideal_wf fresh) vm' keeps"
    and init: "agree (same_object R) first (Inr g)"
    and T: "tree_state ideal_blocks (ideal_wf fresh) T g" "abs_fs T g = spec_init env d"
    and ok: "run_ok env n ids calls (spec_init env d)" "ids \<le> remaining (ideal_ids (store g))"
  shows "agree_with (same_object R) (bind_result first (wrapper_run (Some (BlockFuse_object n bm vm env)) calls))
    (wrapper_run (Some (BlockFuse_object n (IdealStore supplier) vm' env)) calls g)"
proof -
  have slim: "slim_tree (strip T)" using slim_tree_init [of env d] by (simp flip: T(2))
  have "agree_with (same_object R) (bind_result first (wrapper_run (Some (BlockFuse_object n bm vm env)) calls))
      (bind_result (Inr g) (wrapper_run (Some (BlockFuse_object n (IdealStore supplier) vm' env)) calls))"
    by (rule agree_bind_final [OF init]) (use served_run [OF _ vm ops _ T(1) slim] served ok T(2) in auto)
  then show ?thesis by simp
qed

lemma simulated_program:
  assumes served: "served bm supplier R env calls (spec_init env d)" and ids: "id_supply supplier fresh remaining"
    and start: "R s (ideal_start i)" and room: "0 < remaining i"
    and ok: "run_ok env fuel (remaining i - 1) calls (spec_init env d)"
  shows "case spec_run env calls (spec_init env d) of
       Inl e \<Rightarrow> plain_program fuel env calls d bm s = Inl e
     | Inr (rs, a') \<Rightarrow> \<exists>f m. plain_program fuel env calls d bm s = Inr (rs, f) \<and>
         R (store f) m \<and> \<not> misused m \<and> card (dom (ideal_blocks m)) = fsize (fs_tree a')"
proof (rule agreed_program [OF _ ids room ok])
  have sim: "change_sim bm (IdealStore supplier) R" using served by (simp add: served_def)
  have "0 < remaining (ideal_ids (ideal_start i))" using room by (simp add: ideal_start_wf)
  from block_store.init_tree [OF id_supply.ideal_is_store [OF ids] ideal_start_wf(1) this ideal_start_wf(2), of env d]
  obtain g T where g: "BlockFuse_init (IdealStore supplier) env d (ideal_start i) = Inr g"
    "tree_state ideal_blocks (ideal_wf fresh) T g" "abs_fs T g = spec_init env d"
    "remaining (ideal_ids (store g)) = remaining i - 1"
    by (auto simp: ideal_start_wf)
  have init: "agree (same_object R) (BlockFuse_init bm env d s) (Inr g)"
    using change_sim.base_init_sim [OF sim start, of env d] by (simp only: g(1))
  from served_from_init [OF served change_sim.base_methods_sim [OF sim]
      base_methods_ops [OF id_supply.ideal_is_store [OF ids]] init g(2,3) ok] g(4)
  show "agree_with (same_object R) (plain_program fuel env calls d bm s)
      (plain_program fuel env calls d (IdealStore supplier) (ideal_start i))"
    by (simp add: plain_program_def g(1))
qed

lemma simulated_rev_program:
  assumes served: "served bm supplier R env calls (spec_init env d)" and ids: "id_supply supplier fresh remaining"
    and start: "R s (ideal_start i)" and room: "0 < remaining i"
    and ok: "run_ok env fuel (remaining i - 1) calls (spec_init env d)" "no_reverts calls"
  shows "map_sum id fst (rev_program fuel env calls d bm s) = map_sum id fst (spec_run env calls (spec_init env d))"
proof (rule agreed_rev_program [OF _ ids room ok])
  have sim: "change_sim bm (IdealStore supplier) R" using served by (simp add: served_def)
  have "0 < remaining (ideal_ids (ideal_start i))" using room by (simp add: ideal_start_wf)
  from revertible_store.rev_init [OF id_supply_revertible [OF ids] ideal_start_wf(1) this ideal_start_wf(2), of env d]
  obtain g T where g: "RevertibleBlockFuse_init (IdealStore supplier) env d (ideal_start i) = Inr g"
    "tree_state ideal_blocks (ideal_wf fresh) T g" "abs_fs T g = spec_init env d" "sentinel_keys g"
    "remaining (ideal_ids (store g)) = remaining i - 1"
    by (auto simp: ideal_start_wf)
  have slim: "slim_tree (strip T)" using slim_tree_init [of env d] by (simp flip: g(3))
  have run: "agree_with (same_object R) (wrapper_run (Some (RevertibleBlockFuse_object fuel bm env)) calls f)
      (wrapper_run (Some (RevertibleBlockFuse_object fuel (IdealStore supplier) env)) calls g)"
    if f: "same_object R f g" for f
  proof (cases "manager_sim bm (IdealStore supplier) R")
    case True
    from manager_sim.rev_run_sim [OF this f] show ?thesis .
  next
    case False
    with served have any: "any_order_sim bm supplier R" "run_small env calls (abs_fs T g)" "any_order_calls calls"
      by (simp_all add: served_def any_order_ok_def g(3))
    from rev_run_any [OF any(1) ids f g(2) slim _ _ any(2,3) ok(2) g(4), of fuel "remaining i - 1"] ok(1) g(3,5)
    show ?thesis by simp
  qed
  have "agree_with (same_object R) (rev_program fuel env calls d bm s)
      (bind_result (Inr g) (wrapper_run (Some (RevertibleBlockFuse_object fuel (IdealStore supplier) env)) calls))"
    unfolding rev_program_def
    by (rule agree_bind_final [OF change_sim.rev_init_sim [OF sim start, of env d, unfolded g(1)]])
      (use run in auto)
  then show "agree_with (same_object R) (rev_program fuel env calls d bm s)
      (rev_program fuel env calls d (IdealStore supplier) (ideal_start i))"
    by (simp add: rev_program_def g(1))
qed

end
