(* ===== verification/PingStore.thy ===== *)
theory PingStore
  imports PingService AnyOrder
begin

text \<open>
  The network as the store of the file system. A call of \<open>get_blocks\<close> waits for the pings of the
  blocks it asks for; \<open>network\<close> is what happens meanwhile, an argument of \<open>PingBlockManager\<close>
  here: pings come back, of blocks in use and of blocks that were freed, and blocks are put under way
  from elsewhere. What comes by between the calls finds nobody waiting, so that it may as well come
  when the next request waits. If the requested blocks come by, the manager is like an
  \<open>IdealStore\<close> that answers in some order, and if they do in the order in which they were asked
  for, it is like the \<open>IdealStore\<close>.
\<close>

section \<open>Waiting for pings\<close>

text \<open>
  When the call returns, the last reference to its response goes: the vectors of \<open>waiting_\<close> that
  held the others were erased when the blocks came.
\<close>

definition release :: "nat \<Rightarrow> async_manager \<Rightarrow> async_manager" where
  "release p a = a\<lparr>responses := take p (responses a)\<rparr>"

type_synonym 'i network = "block_request \<Rightarrow> 'i ping_system \<Rightarrow> ping_event list"

definition ping_get_blocks ::
  "'i id_supplier \<Rightarrow> translator \<Rightarrow> 'i network \<Rightarrow> block_request \<Rightarrow> 'i ping_system \<Rightarrow>
     (block_response \<times> 'i ping_system) result" where
  "ping_get_blocks supplier tr network request s =
     bind_result (ping_get_begin request s) (\<lambda>(p, s1).
     bind_result (ping_run supplier tr (network request s) s1) (\<lambda>s2.
       case get_blocks_end p (async s2) of
         None \<Rightarrow> Inl Waits_Forever
       | Some blocks \<Rightarrow> Inr (map Some blocks, s2\<lparr>async := release p (async s2)\<rparr>)))"

definition PingBlockManager ::
  "'i id_supplier \<Rightarrow> translator \<Rightarrow> 'i network \<Rightarrow> 'i ping_system block_manager" where
  "PingBlockManager supplier tr network =
     \<lparr>bm_create = ping_create_block supplier tr, bm_free = ping_free_block,
      bm_get = ping_get_blocks supplier tr network\<rparr>"

section \<open>Networks in time and in order\<close>

text \<open>The blocks that come by.\<close>

fun passing :: "translator \<Rightarrow> ping_event list \<Rightarrow> 'i ping_system \<Rightarrow> block list" where
  "passing tr [] s = []"
| "passing tr (Pass req # es) s =
     (if req \<in># in_flight s
      then (case (from_response tr (echo_reply req), pass tr req s) of
              (Inr b, Inr s') \<Rightarrow> b # passing tr es s'
            | _ \<Rightarrow> [])
      else passing tr es s)"
| "passing tr (Resend b # es) s = passing tr es (delayed_send tr b s)"
| "passing tr (_ # es) s = passing tr es s"

text \<open>Pings come back, and blocks with \<open>ok\<close> are put under way.\<close>

fun traffic :: "(block \<Rightarrow> bool) \<Rightarrow> ping_event list \<Rightarrow> bool" where
  "traffic ok [] \<longleftrightarrow> True"
| "traffic ok (Pass req # es) \<longleftrightarrow> traffic ok es"
| "traffic ok (Resend b # es) \<longleftrightarrow> ok b \<and> traffic ok es"
| "traffic ok (_ # es) \<longleftrightarrow> False"

text \<open>
  A network that is in time: while a request for blocks in use waits, a ping of each of its blocks
  comes by, among any others; what is put under way from elsewhere has ids that are not in \<open>own\<close>.
  If the first pings of the blocks come by in the order in which they were asked for, it is in order,
  too.
\<close>

definition in_time :: "translator \<Rightarrow> block_id set \<Rightarrow> 'i network \<Rightarrow> bool" where
  "in_time tr own network \<longleftrightarrow>
     (\<forall>ids s. async s = async_init \<and> distinct ids \<and> (\<forall>i \<in> set ids. \<exists>d. ping_holds tr s i d) \<longrightarrow>
       traffic (\<lambda>b. get_id b \<notin> own) (network ids s) \<and>
       set ids \<subseteq> get_id ` set (passing tr (network ids s) s))"

definition in_order :: "translator \<Rightarrow> block_id set \<Rightarrow> 'i network \<Rightarrow> bool" where
  "in_order tr own network \<longleftrightarrow>
     (\<forall>ids s. async s = async_init \<and> distinct ids \<and> (\<forall>i \<in> set ids. \<exists>d. ping_holds tr s i d) \<longrightarrow>
       traffic (\<lambda>b. get_id b \<notin> own) (network ids s) \<and>
       map get_id (firsts (set ids) (passing tr (network ids s) s)) = ids)"

text \<open>What serves a sequence of calls: order, or calls that do not depend on it.\<close>

definition serves ::
  "translator \<Rightarrow> block_id set \<Rightarrow> 'i network \<Rightarrow> os_env \<Rightarrow> 'b fuse_call list \<Rightarrow> fs \<Rightarrow> bool" where
  "serves tr own network env calls a \<longleftrightarrow>
     in_order tr own network \<or> in_time tr own network \<and> any_order_ok env calls a"

section \<open>Exactly what a passing ping changes\<close>

lemma pass_exact:
  assumes tr: "translator_ok tr body"
  shows "pass tr (request_for body (service s) b) s =
     bind_result (async_process b (async s)) (\<lambda>a. Inr (s\<lparr>
       service := (service s)\<lparr>freed_ids := freed_ids (service s) - {get_id b}\<rparr>, async := a,
       in_flight := in_flight s - {#request_for body (service s) b#} +
         (if get_id b \<in> freed_ids (service s) then {#} else {#request_for body (service s) b#})\<rparr>))"
proof -
  let ?r = "request_for body (service s) b"
  have "from_response tr (echo_reply ?r) = Inr b" using tr by (simp add: echo_reply_request translator_ok_def)
  moreover have "resp_identifier (echo_reply ?r) = fs_id (service s)"
    "resp_sequence_number (echo_reply ?r) = service_id (service s)"
    "EchoRequest_of_response (echo_reply ?r) = ?r"
    unfolding echo_reply_request by (simp_all add: EchoResponse_def EchoRequest_of_response_def request_for_def)
  moreover have "get_id b \<notin> freed_ids (service s) \<Longrightarrow>
      (service s)\<lparr>freed_ids := freed_ids (service s) - {get_id b}\<rparr> = service s"
    by simp
  ultimately show ?thesis
    by (cases "async_process b (async s)")
      (simp_all add: pass_def service_process_def subscribe_def should_recycle_def)
qed

lemma pass_from:
  assumes tr: "translator_ok tr body" and M: "in_flight s = image_mset (request_for body (service s)) (add_mset b N)"
    and m: "async_process b (async s) = Inr m"
  shows "pass tr (request_for body (service s) b) s = Inr (s\<lparr>
     service := (service s)\<lparr>freed_ids := freed_ids (service s) - {get_id b}\<rparr>,
     in_flight := image_mset (request_for body (service s))
       (if get_id b \<in> freed_ids (service s) then N else add_mset b N), async := m\<rparr>)"
  using pass_exact [OF tr, of s b] m M by (cases "get_id b \<in> freed_ids (service s)"; cases s) simp_all

text \<open>What waits after a request whose blocks come by.\<close>

lemma push_waiting_dom: "dom (push_waiting ids p w) = dom w \<union> set ids"
  by (induction ids arbitrary: w) auto

lemma async_process_waiting:
  "async_process b m = Inr m' \<Longrightarrow> dom (waiting m') = dom (waiting m) - {get_id b}"
  by (auto simp: async_process_def result_simps dom_def split: option.splits if_splits)

lemma arrive_waiting:
  "async_run (map Arrive bs) m = Inr m' \<Longrightarrow> dom (waiting m') = dom (waiting m) - get_id ` set bs"
proof (induction bs arbitrary: m)
  case (Cons b bs)
  then obtain m1 where m1: "async_process b m = Inr m1" "async_run (map Arrive bs) m1 = Inr m'"
    by (auto simp: result_simps)
  show ?case unfolding Cons.IH [OF m1(2)] async_process_waiting [OF m1(1)] by auto
qed simp

lemma request_answered:
  assumes "set ids \<subseteq> get_id ` set bs"
  shows "\<exists>a a'. get_blocks_begin ids async_init = Inr (0, a) \<and> async_inv [(ids, [])] a \<and>
     async_run (map Arrive bs) a = Inr a' \<and>
     get_blocks_end 0 a' = Some (firsts (set ids) bs) \<and> release 0 a' = async_init"
proof -
  have inv: "async_inv [] async_init" by (simp add: async_inv_def async_init_def)
  from get_blocks_begin_inv [OF this, of ids] obtain a where
    a: "get_blocks_begin ids async_init = Inr (0, a)" "async_inv [(ids, [])] a" by auto
  from async_run_inv [OF a(2), of "map Arrive bs"] obtain a' where
    a': "async_run (map Arrive bs) a = Inr a'" "async_inv (histories [(ids, [])] (map Arrive bs)) a'" by blast
  have "responses a' ! 0 = response_after ids bs"
    using a'(2) histories_old [of 0 "[(ids, [])]" "map Arrive bs"]
    by (simp add: async_inv_iff histories_length)
  then have e: "get_blocks_end 0 a' = Some (firsts (set ids) bs)"
    using assms by (simp add: get_blocks_end_def response_after_def)
  have "dom (waiting a) = set ids"
  proof -
    from a(1) have "waiting a = push_waiting ids 0 Map.empty"
      by (auto simp: get_blocks_begin_def async_init_def Let_def result_simps)
    then show ?thesis by (simp add: push_waiting_dom)
  qed
  then have "dom (waiting a') = {}" using arrive_waiting [OF a'(1)] assms by simp
  then have "release 0 a' = async_init" by (simp add: release_def async_init_def)
  with a a'(1) e show ?thesis by blast
qed

section \<open>The blocks of an ideal store under way\<close>

text \<open>
  \<open>M\<close> are the blocks under way, \<open>freed\<close> the ids freed and not yet taken out. What the ideal
  store holds is under way, and nothing else is under its ids; \<open>own\<close> are the ids the supplier
  may hand out. With \<open>single\<close>, each of them is under way at most once, and what is under way and
  not freed is in the store.
\<close>

definition kept ::
  "bool \<Rightarrow> block_id set \<Rightarrow> block_id set \<Rightarrow> 'i ideal_store \<Rightarrow> block multiset \<Rightarrow> bool" where
  "kept single own freed a M \<longleftrightarrow>
     freed \<subseteq> issued a \<and> issued a \<subseteq> own \<and> (\<forall>b \<in># M. get_id b \<in> own \<longrightarrow> get_id b \<in> issued a) \<and>
     (\<forall>i d. ideal_blocks a i = Some d \<longrightarrow> i \<in> issued a \<and> i \<notin> freed \<and> mk_block i d \<in># M \<and>
       (\<forall>b \<in># M. get_id b = i \<longrightarrow> get_data b = d)) \<and>
     (single \<longrightarrow> (\<forall>i \<in> own. id_copies i M \<le> 1) \<and>
       (\<forall>b \<in># M. get_id b \<in> own \<and> get_id b \<notin> freed \<longrightarrow> ideal_blocks a (get_id b) \<noteq> None))"

lemma id_copies_0: "id_copies i M = 0 \<longleftrightarrow> (\<forall>b \<in># M. get_id b \<noteq> i)"
  by (induction M) auto

lemma keptD:
  assumes "kept single own freed a M"
  shows "freed \<subseteq> issued a" and "issued a \<subseteq> own"
    and "\<And>b. b \<in># M \<Longrightarrow> get_id b \<in> own \<Longrightarrow> get_id b \<in> issued a"
    and "\<And>i d. ideal_blocks a i = Some d \<Longrightarrow> i \<in> issued a \<and> i \<notin> freed \<and> mk_block i d \<in># M"
    and "\<And>b d. ideal_blocks a (get_id b) = Some d \<Longrightarrow> b \<in># M \<Longrightarrow> get_data b = d"
    and "\<And>i. single \<Longrightarrow> i \<in> own \<Longrightarrow> id_copies i M \<le> 1"
    and "\<And>b. single \<Longrightarrow> b \<in># M \<Longrightarrow> get_id b \<in> own \<Longrightarrow> get_id b \<notin> freed \<Longrightarrow> ideal_blocks a (get_id b) \<noteq> None"
  using assms unfolding kept_def by blast+

lemma kept_pass:
  assumes k: "kept single own freed a (add_mset b M)" and b: "get_id b \<in> freed"
  shows "kept single own (freed - {get_id b}) a M"
proof -
  have "\<forall>c \<in># M. get_id c \<noteq> get_id b" if single
  proof -
    have "get_id b \<in> own" using k b unfolding kept_def by blast
    then have "id_copies (get_id b) (add_mset b M) \<le> 1" using k that unfolding kept_def by blast
    then show ?thesis unfolding id_copies_0 [symmetric] by simp
  qed
  moreover have "id_copies i M \<le> 1" if single "i \<in> own" for i
    using keptD(6) [OF k that] by simp
  moreover have "mk_block i d \<in># M" if "ideal_blocks a i = Some d" for i d
    using keptD(4) [OF k that] b by auto
  ultimately show ?thesis using k b unfolding kept_def by auto
qed

lemma kept_join:
  assumes k: "kept single own freed a M"
    and b: "get_id b \<in> own \<Longrightarrow> \<not> single \<and> get_id b \<in> issued a \<and>
      (\<forall>d. ideal_blocks a (get_id b) = Some d \<longrightarrow> get_data b = d)"
  shows "kept single own freed a (add_mset b M)"
proof (cases "get_id b \<in> own")
  case False
  then have "ideal_blocks a (get_id b) \<noteq> Some d" for d using keptD(2,4) [OF k] by blast
  with False k show ?thesis unfolding kept_def by auto
qed (use k b in \<open>auto simp: kept_def\<close>)

lemma kept_create:
  assumes k: "kept single own freed a M" and x: "x \<notin> issued a" "x \<in> own"
  shows "kept single own freed (a\<lparr>ideal_ids := ids, issued := insert x (issued a),
     ideal_blocks := (ideal_blocks a)(x \<mapsto> d)\<rparr>) (add_mset (mk_block x d) M)"
proof -
  have "\<forall>b \<in># M. get_id b \<noteq> x" using k x unfolding kept_def by auto
  moreover from this have "id_copies x M = 0" by (simp add: id_copies_0)
  ultimately show ?thesis using k x unfolding kept_def by auto
qed

lemma kept_free:
  assumes "kept single own freed a M" and "ideal_blocks a i \<noteq> None"
  shows "kept single own (insert i freed) (a\<lparr>ideal_blocks := (ideal_blocks a)(i := None)\<rparr>) M"
  using assms unfolding kept_def by auto

text \<open>What happens while a request waits keeps them.\<close>

lemma network_run:
  assumes ok: "\<And>b. ok b \<Longrightarrow> get_id b \<in> own \<Longrightarrow> \<not> single \<and> get_id b \<in> issued a \<and>
      (\<forall>d. ideal_blocks a (get_id b) = Some d \<longrightarrow> get_data b = d)"
  shows "translator_ok tr body \<Longrightarrow> traffic ok es \<Longrightarrow> in_flight s = image_mset (request_for body (service s)) M \<Longrightarrow>
     kept single own (freed_ids (service s)) a M \<Longrightarrow> async_inv hist (async s) \<Longrightarrow>
     \<exists>s' M'. ping_run supplier tr es s = Inr s' \<and> sys_ids s' = sys_ids s \<and>
       in_flight s' = image_mset (request_for body (service s')) M' \<and>
       kept single own (freed_ids (service s')) a M' \<and>
       async_run (map Arrive (passing tr es (s\<lparr>async := async_init\<rparr>))) (async s) = Inr (async s') \<and>
       (\<forall>b \<in> set (passing tr es (s\<lparr>async := async_init\<rparr>)). \<forall>d.
         ideal_blocks a (get_id b) = Some d \<longrightarrow> get_data b = d)"
proof (induction tr es s arbitrary: M hist rule: passing.induct)
  case (1 tr s)
  then show ?case by auto
next
  case (2 tr req es s)
  show ?case
  proof (cases "req \<in># in_flight s")
    case False
    with 2 show ?thesis by simp
  next
    case True
    then obtain b N where b: "req = request_for body (service s) b" "M = add_mset b N"
      using "2.prems"(3) by (auto dest!: multi_member_split)
    let ?f = "freed_ids (service s)" and ?r = "request_for body (service s) b"
    let ?M = "if get_id b \<in> ?f then N else M"
    let ?t = "\<lambda>a. s\<lparr>service := (service s)\<lparr>freed_ids := ?f - {get_id b}\<rparr>,
        in_flight := image_mset (request_for body (service s)) ?M, async := a\<rparr>"
    obtain m where m: "async_process b (async s) = Inr m" "async_inv (came b hist) m"
      using async_process_inv [OF "2.prems"(5)] by blast
    have init: "async_process b async_init = Inr async_init" by (simp add: async_process_def async_init_def)
    have p: "pass tr req s = Inr (?t m)"
      using pass_from [OF "2.prems"(1) _ m(1), of N] "2.prems"(3) b by simp
    have p0: "pass tr req (s\<lparr>async := async_init\<rparr>) = Inr (?t async_init)"
      using pass_from [OF "2.prems"(1), of "s\<lparr>async := async_init\<rparr>" b N async_init] "2.prems"(3) b init by simp
    have resp: "from_response tr (echo_reply req) = Inr b"
      using "2.prems"(1) b(1) by (simp add: echo_reply_request translator_ok_def)
    have "kept single own (?f - {get_id b}) a ?M"
      using kept_pass "2.prems"(4) b(2) by auto
    with "2.IH"(1) [OF True _ refl refl, of b "?t m" ?M "came b hist"] "2.prems"(1,2) m(2) resp p obtain s' M' where
      s': "ping_run supplier tr es (?t m) = Inr s'" "sys_ids s' = sys_ids s"
      "in_flight s' = image_mset (request_for body (service s')) M'"
      "kept single own (freed_ids (service s')) a M'"
      "async_run (map Arrive (passing tr es (?t async_init))) m = Inr (async s')"
      "\<forall>b \<in> set (passing tr es (?t async_init)). \<forall>d. ideal_blocks a (get_id b) = Some d \<longrightarrow> get_data b = d"
      by auto
    moreover have "\<forall>d. ideal_blocks a (get_id b) = Some d \<longrightarrow> get_data b = d"
      using keptD(5) [OF "2.prems"(4)] b(2) by simp
    moreover have "ping_run supplier tr (Pass req # es) s = Inr s'" using True p s'(1) by simp
    moreover have "passing tr (Pass req # es) (s\<lparr>async := async_init\<rparr>) = b # passing tr es (?t async_init)"
      using True p0 resp by simp
    ultimately show ?thesis using m(1) by (intro exI [of _ s'] exI [of _ M']) simp
  qed
next
  case (3 tr b es s)
  have "in_flight (delayed_send tr b s) = image_mset (request_for body (service s)) (add_mset b M)"
    "service (delayed_send tr b s) = service s" "async (delayed_send tr b s) = async s"
    "sys_ids (delayed_send tr b s) = sys_ids s"
    "delayed_send tr b (s\<lparr>async := async_init\<rparr>) = (delayed_send tr b s)\<lparr>async := async_init\<rparr>"
    using "3.prems"(3)
    by (simp_all add: delayed_send_def register_block_def translate_request [OF "3.prems"(1)])
  moreover have "kept single own (freed_ids (service s)) a (add_mset b M)"
    by (rule kept_join [OF "3.prems"(4)]) (use ok [of b] "3.prems"(2) in simp)
  ultimately show ?case using "3.IH" [of "add_mset b M" hist] "3.prems" by simp
qed simp_all

section \<open>The network is like the ideal store\<close>

text \<open>\<open>ids_in own P supplier\<close>: from states with \<open>P\<close> the supplier hands out ids of \<open>own\<close> only.\<close>

definition ids_in :: "block_id set \<Rightarrow> ('i \<Rightarrow> bool) \<Rightarrow> 'i id_supplier \<Rightarrow> bool" where
  "ids_in own P supplier \<longleftrightarrow>
     (\<forall>i x i'. P i \<and> supply_next supplier i = Inr (x, i') \<longrightarrow> x \<in> own \<and> P i')"

lemma ids_in_counter: "ids_in UNIV (\<lambda>_. True) supplier"
  by (simp add: ids_in_def)

text \<open>The ids of a node: those with its number in the low byte.\<close>

definition ids_of_node :: "u8 \<Rightarrow> block_id set" where
  "ids_of_node n = {x. ucast x = n}"

lemma ids_in_updating: "ids_in (ids_of_node n) (\<lambda>u. fixed_low_order_bits u = n) UpdatingIdSupplier"
proof -
  have "ucast (push_bit 8 h + ucast f :: u64) = f" for h and f :: u8
  proof -
    have f: "bit f n \<Longrightarrow> n < 8" for n using bit_imp_le_length [of f n] by simp
    then have "push_bit 8 h + ucast f = or (push_bit 8 h) (ucast f :: u64)"
      by (intro disjunctive_add) (force simp: bit_simps)
    then show ?thesis by (intro bit_word_eqI) (auto simp: bit_simps)
  qed
  then show ?thesis
    by (auto simp: ids_in_def ids_of_node_def UpdatingIdSupplier_def updating_next_id_def Let_def)
qed

definition like_ideal ::
  "(block \<Rightarrow> string) \<Rightarrow> bool \<Rightarrow> block_id set \<Rightarrow> ('i \<Rightarrow> bool) \<Rightarrow> 'i ping_system \<Rightarrow> 'i ideal_store \<Rightarrow> bool" where
  "like_ideal body single own P s a \<longleftrightarrow> misused a \<or>
     (sys_ids s = ideal_ids a \<and> P (sys_ids s) \<and> async s = async_init \<and>
      (\<exists>M. in_flight s = image_mset (request_for body (service s)) M \<and>
        kept single own (freed_ids (service s)) a M))"

lemma like_ideal_start:
  "freed_ids sv = {} \<Longrightarrow> P i \<Longrightarrow> like_ideal body single own P (system_start i sv) (ideal_start i)"
  by (auto simp: like_ideal_def system_start_def ideal_start_def kept_def)

lemma create_like:
  assumes tr: "translator_ok tr body" and ids: "ids_in own P supplier" and s: "like_ideal body single own P s a"
  shows "agree_with (like_ideal body single own P) (ping_create_block supplier tr d s) (ideal_create supplier d a)"
proof (cases "misused a")
  case True
  then show ?thesis by (simp add: ideal_create_def agree_wait)
next
  case False
  with s obtain M where M: "sys_ids s = ideal_ids a" "P (sys_ids s)" "async s = async_init"
    "in_flight s = image_mset (request_for body (service s)) M" "kept single own (freed_ids (service s)) a M"
    by (auto simp: like_ideal_def)
  show ?thesis
  proof (cases "supply_next supplier (ideal_ids a)")
    case (Inl e)
    with M(1) False show ?thesis by (simp add: ideal_create_def ping_create_block_def agree_Inl)
  next
    case (Inr p)
    obtain x i' where p: "p = (x, i')" by (cases p)
    have x: "x \<in> own" "P i'" using ids M(1,2) Inr p unfolding ids_in_def by metis+
    let ?s = "s\<lparr>sys_ids := i', in_flight := in_flight s + {#request_for body (service s) (mk_block x d)#}\<rparr>"
    let ?a = "a\<lparr>ideal_ids := i', issued := insert x (issued a), ideal_blocks := (ideal_blocks a)(x \<mapsto> d)\<rparr>"
    have "ping_create_block supplier tr d s = Inr (mk_block x d, ?s)"
      using Inr p M(1) by (simp add: ping_create_block_def register_block_def translate_request [OF tr] Let_def)
    moreover have "like_ideal body single own P ?s ?a" if "x \<notin> issued a"
      using M x kept_create [OF M(5) that x(1), where ids = i' and d = d] unfolding like_ideal_def
      by (intro disjI2 conjI exI [of _ "add_mset (mk_block x d) M"]) simp_all
    ultimately show ?thesis using False Inr p by (auto simp: ideal_create_def agree_wait intro: agree_with_Inr)
  qed
qed

lemma free_like:
  assumes "like_ideal body single own P s a"
  shows "like_ideal body single own P (ping_free_block i s) (ideal_free i a)"
proof (cases "misused a \<or> ideal_blocks a i = None")
  case True
  then show ?thesis by (auto simp: like_ideal_def ideal_free_def)
next
  case False
  with assms obtain M where "sys_ids s = ideal_ids a" "P (sys_ids s)" "async s = async_init"
    "in_flight s = image_mset (request_for body (service s)) M" "kept single own (freed_ids (service s)) a M"
    by (auto simp: like_ideal_def)
  with False kept_free [OF this(5), of i] show ?thesis
    by (auto simp: like_ideal_def ideal_free_def ping_free_block_def track_free_block_def)
qed

lemma firsts_member: "b \<in> set (firsts W bs) \<Longrightarrow> b \<in> set bs \<and> get_id b \<in> W"
  by (induction bs arbitrary: W) (auto split: if_splits)

lemma firsts_ids: "distinct (map get_id (firsts W bs)) \<and> get_id ` set (firsts W bs) = W \<inter> get_id ` set bs"
  by (induction bs arbitrary: W) auto

lemma firsts_order:
  assumes "distinct ids" and "set ids \<subseteq> get_id ` set bs"
  shows "mset (map get_id (firsts (set ids) bs)) = mset ids"
  using firsts_ids [of "set ids" bs] assms
  by (intro set_eq_iff_mset_eq_distinct [THEN iffD1]) auto

lemma like_holds:
  assumes tr: "translator_ok tr body" and s: "like_ideal body single own P s a"
    and a: "\<not> misused a" "\<forall>i \<in> set ids. ideal_blocks a i \<noteq> None"
  shows "async s = async_init \<and> (\<forall>i \<in> set ids. \<exists>d. ping_holds tr s i d)"
proof -
  from s a(1) obtain M where M: "async s = async_init"
    "in_flight s = image_mset (request_for body (service s)) M" "kept single own (freed_ids (service s)) a M"
    by (auto simp: like_ideal_def)
  then have "circulating body M s"
    by (auto simp: circulating_def async_inv_def async_init_def intro!: exI [of _ "[]"])
  from ping_holds_circulating [OF tr this] M(1) a(2) keptD(4) [OF M(3)] show ?thesis by blast
qed

lemma get_like_any:
  assumes tr: "translator_ok tr body" and s: "like_ideal body single own P s a"
    and a: "\<not> misused a" "distinct ids" "\<forall>i \<in> set ids. ideal_blocks a i \<noteq> None"
    and n: "traffic ok (network ids s)" "set ids \<subseteq> get_id ` set (passing tr (network ids s) s)"
    and ok: "\<And>b. ok b \<Longrightarrow> get_id b \<in> own \<Longrightarrow> \<not> single \<and> get_id b \<in> issued a \<and>
      (\<forall>d. ideal_blocks a (get_id b) = Some d \<longrightarrow> get_data b = d)"
  shows "\<exists>order s'. order = map get_id (firsts (set ids) (passing tr (network ids s) s)) \<and>
    mset order = mset ids \<and> ping_get_blocks supplier tr network ids s =
      Inr (map (\<lambda>i. Some (mk_block i (the (ideal_blocks a i)))) order, s') \<and> like_ideal body single own P s' a"
proof -
  from s a(1) obtain M where M: "sys_ids s = ideal_ids a" "P (sys_ids s)" "async s = async_init"
    "in_flight s = image_mset (request_for body (service s)) M" "kept single own (freed_ids (service s)) a M"
    by (auto simp: like_ideal_def)
  let ?bs = "passing tr (network ids s) s"
  from request_answered [OF n(2)] obtain m m' where m: "get_blocks_begin ids async_init = Inr (0, m)"
    "async_inv [(ids, [])] m" "async_run (map Arrive ?bs) m = Inr m'"
    "get_blocks_end 0 m' = Some (firsts (set ids) ?bs)" "release 0 m' = async_init" by blast
  have same: "s\<lparr>async := async_init\<rparr> = s" using M(3) by simp
  from network_run [of ok own single a tr body "network ids s" "s\<lparr>async := m\<rparr>" M "[(ids, [])]" supplier, OF ok tr n(1)] M m(2)
  obtain s' M' where s': "ping_run supplier tr (network ids s) (s\<lparr>async := m\<rparr>) = Inr s'"
    "sys_ids s' = sys_ids s" "in_flight s' = image_mset (request_for body (service s')) M'"
    "kept single own (freed_ids (service s')) a M'" "async_run (map Arrive ?bs) m = Inr (async s')"
    "\<forall>b \<in> set ?bs. \<forall>d. ideal_blocks a (get_id b) = Some d \<longrightarrow> get_data b = d"
    by (auto simp: same)
  have "ping_get_blocks supplier tr network ids s =
      Inr (map Some (firsts (set ids) ?bs), s'\<lparr>async := async_init\<rparr>)"
    using M(3) m s' by (simp add: ping_get_blocks_def ping_get_begin_def)
  moreover have "b = mk_block (get_id b) (the (ideal_blocks a (get_id b)))" if "b \<in> set (firsts (set ids) ?bs)" for b
  proof -
    note b = firsts_member [OF that]
    obtain d where "ideal_blocks a (get_id b) = Some d" using b a(3) by blast
    then show ?thesis using s'(6) b by (cases b) auto
  qed
  then have "map Some (firsts (set ids) ?bs) =
      map (\<lambda>i. Some (mk_block i (the (ideal_blocks a i)))) (map get_id (firsts (set ids) ?bs))"
    by simp
  moreover have "like_ideal body single own P (s'\<lparr>async := async_init\<rparr>) a"
    using M s' by (auto simp: like_ideal_def)
  ultimately show ?thesis using firsts_order [OF a(2) n(2)]
    by (intro exI [of _ "map get_id (firsts (set ids) ?bs)"] exI [of _ "s'\<lparr>async := async_init\<rparr>"]) simp
qed

text \<open>In order, if they come in order.\<close>

lemma firsts_cover:
  assumes "map get_id (firsts (set ids) bs) = ids"
  shows "set ids \<subseteq> get_id ` set bs"
proof -
  have "get_id ` set (firsts (set ids) bs) = set ids" using arg_cong [OF assms, of set] unfolding set_map .
  moreover have "get_id ` set (firsts (set ids) bs) = set ids \<inter> get_id ` set bs" using firsts_ids by blast
  ultimately show ?thesis by blast
qed

text \<open>The manager is like the ideal store over any network that is in order.\<close>

lemma ping_change:
  assumes "translator_ok tr body" and "ids_in own P supplier"
  shows "change_sim (PingBlockManager supplier tr network) (IdealStore supplier) (like_ideal body single own P)"
  by unfold_locales (simp_all add: PingBlockManager_def IdealStore_def create_like [OF assms] free_like)

lemma ping_sim:
  assumes tr: "translator_ok tr body" and ids: "ids_in own P supplier" and net: "in_order tr own network"
  shows "manager_sim (PingBlockManager supplier tr network) (IdealStore supplier) (like_ideal body single own P)"
proof -
  have "agree_with (like_ideal body single own P) (ping_get_blocks supplier tr network ids s) (ideal_get ids a)"
    if s: "like_ideal body single own P s a" for ids s a
  proof (cases "\<not> misused a \<and> distinct ids \<and> (\<forall>i \<in> set ids. ideal_blocks a i \<noteq> None)")
    case True
    then have a: "\<not> misused a" "distinct ids" "\<forall>i \<in> set ids. ideal_blocks a i \<noteq> None" by simp_all
    from net a(2) like_holds [OF tr s a(1,3)] have n: "traffic (\<lambda>b. get_id b \<notin> own) (network ids s)"
      "map get_id (firsts (set ids) (passing tr (network ids s) s)) = ids"
      by (auto simp: in_order_def)
    from get_like_any [where network = network and ok = "\<lambda>b. get_id b \<notin> own" and supplier = supplier,
        OF tr s a n(1) firsts_cover [OF n(2)]] n(2) True show ?thesis
      by (auto simp: ideal_get_def agree_with_Inr)
  qed (auto simp: ideal_get_def agree_wait)
  then show ?thesis
    using ping_change [OF tr ids, where single = single and network = network]
    by (simp add: manager_sim_def manager_sim_axioms_def PingBlockManager_def IdealStore_def)
qed

text \<open>Over any network that is in time it is like the ideal store that answers in any order.\<close>

lemma ping_any_sim:
  assumes tr: "translator_ok tr body" and ids: "ids_in own P supplier" and net: "in_time tr own network"
  shows "any_order_sim (PingBlockManager supplier tr network) supplier (like_ideal body single own P)"
proof -
  have "\<exists>order s'. mset order = mset ids \<and> ping_get_blocks supplier tr network ids s =
      Inr (map (\<lambda>i. Some (mk_block i (the (ideal_blocks a i)))) order, s') \<and> like_ideal body single own P s' a"
    if s: "like_ideal body single own P s a" "\<not> misused a" "distinct ids" "\<forall>i \<in> set ids. ideal_blocks a i \<noteq> None"
    for ids s a
  proof -
    from net s(3) like_holds [OF tr s(1,2,4)] have n: "traffic (\<lambda>b. get_id b \<notin> own) (network ids s)"
      "set ids \<subseteq> get_id ` set (passing tr (network ids s) s)"
      by (auto simp: in_time_def)
    from get_like_any [where network = network and ok = "\<lambda>b. get_id b \<notin> own" and supplier = supplier, OF tr s n] show ?thesis by blast
  qed
  then show ?thesis
    using ping_change [OF tr ids, where single = single and network = network]
    by (simp add: any_order_sim_def any_order_sim_axioms_def PingBlockManager_def)
qed

lemma ping_served:
  assumes "translator_ok tr body" and "ids_in own P supplier" and "serves tr own network env calls a"
  shows "served (PingBlockManager supplier tr network) supplier (like_ideal body single own P) env calls a"
  using assms ping_change [OF assms(1,2)] ping_sim [OF assms(1,2)] ping_any_sim [OF assms(1,2)]
  by (auto simp: served_def serves_def)

text \<open>The number of blocks of its own the network keeps in use.\<close>

definition stored_blocks :: "translator \<Rightarrow> block_id set \<Rightarrow> 'i ping_system \<Rightarrow> nat" where
  "stored_blocks tr own s = card {i \<in> own. \<exists>d. ping_holds tr s i d}"

lemma stored_blocks_like:
  assumes tr: "translator_ok tr body" and s: "like_ideal body True own P s a" and "\<not> misused a"
  shows "stored_blocks tr own s = card (dom (ideal_blocks a))"
proof -
  from s assms(3) obtain M where M: "async s = async_init"
    "in_flight s = image_mset (request_for body (service s)) M" "kept True own (freed_ids (service s)) a M"
    by (auto simp: like_ideal_def)
  have circ: "circulating body M s"
    using M(1,2) by (auto simp: circulating_def async_inv_def async_init_def intro!: exI [of _ "[]"])
  have "i \<in> own \<and> (\<exists>d. ping_holds tr s i d) \<longleftrightarrow> (\<exists>d. ideal_blocks a i = Some d)" for i
    unfolding ping_holds_circulating [OF tr circ]
    using keptD(2,4) [OF M(3)] keptD(7) [OF M(3) TrueI, of "mk_block i _"] by fastforce
  then show ?thesis by (simp add: stored_blocks_def dom_def)
qed

section \<open>A network in order\<close>

text \<open>One ping of each block comes by, as they were asked for.\<close>

definition one_by_one :: "translator \<Rightarrow> 'i network" where
  "one_by_one tr ids s =
     map (\<lambda>i. Pass (SOME req. req \<in># in_flight s \<and>
       (\<exists>d. from_response tr (echo_reply req) = Inr (mk_block i d)))) ids"

lemma pass_idle:
  assumes "async s = async_init" and "from_response tr (echo_reply req) = Inr b"
  shows "\<exists>s'. pass tr req s = Inr s' \<and> async s' = async_init \<and> in_flight s - {#req#} \<subseteq># in_flight s'"
proof -
  have "async_process b async_init = Inr async_init" by (simp add: async_process_def async_init_def)
  with assms show ?thesis
    by (auto simp: pass_def service_process_def subscribe_def split: prod.split)
qed

lemma passing_chosen:
  "async s = async_init \<Longrightarrow> distinct ids \<Longrightarrow>
     \<forall>i \<in> set ids. r i \<in># in_flight s \<and> (\<exists>d. from_response tr (echo_reply (r i)) = Inr (mk_block i d)) \<Longrightarrow>
     map get_id (passing tr (map (\<lambda>i. Pass (r i)) ids) s) = ids"
proof (induction ids arbitrary: s)
  case (Cons i ids)
  then obtain d where d: "from_response tr (echo_reply (r i)) = Inr (mk_block i d)" by auto
  obtain s' where s': "pass tr (r i) s = Inr s'" "async s' = async_init" "in_flight s - {#r i#} \<subseteq># in_flight s'"
    using pass_idle [OF Cons.prems(1) d] by blast
  have "r j \<in># in_flight s'" if j: "j \<in> set ids" for j
  proof -
    obtain e where "from_response tr (echo_reply (r j)) = Inr (mk_block j e)" using Cons.prems(3) j by auto
    moreover have "j \<noteq> i" using Cons.prems(2) j by auto
    ultimately have "r j \<noteq> r i" using d by auto
    then have "r j \<in># in_flight s - {#r i#}" using Cons.prems(3) j by (simp add: in_diff_count)
    then show ?thesis using s'(3) mset_subset_eqD by metis
  qed
  then have "map get_id (passing tr (map (\<lambda>i. Pass (r i)) ids) s') = ids"
    using Cons.IH [OF s'(2)] Cons.prems(2,3) by auto
  with d s'(1) Cons.prems(3) show ?case by simp
qed simp

lemma firsts_all: "distinct (map get_id bs) \<Longrightarrow> firsts (get_id ` set bs) bs = bs"
proof (induction bs)
  case (Cons b bs)
  then have "get_id ` set (b # bs) - {get_id b} = get_id ` set bs" by auto
  with Cons show ?case by simp
qed simp

lemma one_by_one_in_order: "in_order tr own (one_by_one tr)"
proof -
  have "traffic ok (map (\<lambda>i. Pass (r i)) ids)" for ok and ids :: "block_id list" and r
    by (induction ids) simp_all
  then have t: "traffic ok (one_by_one tr ids s)" for ok ids and s :: "'a ping_system"
    by (simp add: one_by_one_def)
  have "map get_id (firsts (set ids) (passing tr (one_by_one tr ids s) s)) = ids"
    if s: "async s = async_init" "distinct ids" "\<forall>i \<in> set ids. \<exists>d. ping_holds tr s i d" for ids and s :: "'a ping_system"
  proof -
    let ?r = "\<lambda>i. SOME req. req \<in># in_flight s \<and> (\<exists>d. from_response tr (echo_reply req) = Inr (mk_block i d))"
    have "\<forall>i \<in> set ids. ?r i \<in># in_flight s \<and> (\<exists>d. from_response tr (echo_reply (?r i)) = Inr (mk_block i d))"
    proof
      fix i assume "i \<in> set ids"
      then have "\<exists>req. req \<in># in_flight s \<and> (\<exists>d. from_response tr (echo_reply req) = Inr (mk_block i d))"
        using s(3) unfolding ping_holds_def by blast
      then show "?r i \<in># in_flight s \<and> (\<exists>d. from_response tr (echo_reply (?r i)) = Inr (mk_block i d))"
        by (rule someI_ex)
    qed
    from passing_chosen [OF s(1,2) this] have ids: "map get_id (passing tr (one_by_one tr ids s) s) = ids"
      by (simp add: one_by_one_def)
    then have "set ids = get_id ` set (passing tr (one_by_one tr ids s) s)" by (metis set_map)
    then show ?thesis using firsts_all [of "passing tr (one_by_one tr ids s) s"] s(2) ids by simp
  qed
  with t show ?thesis unfolding in_order_def by blast
qed

text \<open>And one that brings them in the opposite order.\<close>

definition backwards :: "translator \<Rightarrow> 'i network" where
  "backwards tr ids s = one_by_one tr (rev ids) s"

lemma backwards_order:
  assumes "async s = async_init" "distinct ids" "\<forall>i \<in> set ids. \<exists>d. ping_holds tr s i d"
  shows "traffic (\<lambda>b. get_id b \<notin> own) (backwards tr ids s)"
    and "map get_id (firsts (set ids) (passing tr (backwards tr ids s) s)) = rev ids"
  using one_by_one_in_order [of tr own, unfolded in_order_def, rule_format, of s "rev ids"] assms
  by (simp_all add: backwards_def)

lemma backwards_in_time: "in_time tr own (backwards tr)"
proof -
  have "traffic (\<lambda>b. get_id b \<notin> own) (backwards tr ids s) \<and> set ids \<subseteq> get_id ` set (passing tr (backwards tr ids s) s)"
    if s: "async s = async_init" "distinct ids" "\<forall>i \<in> set ids. \<exists>d. ping_holds tr s i d" for ids and s :: "'a ping_system"
  proof
    note order = backwards_order [OF s]
    show "traffic (\<lambda>b. get_id b \<notin> own) (backwards tr ids s)" by (rule order(1))
    show "set ids \<subseteq> get_id ` set (passing tr (backwards tr ids s) s)"
      using firsts_ids [of "set ids" "passing tr (backwards tr ids s) s"] arg_cong [OF order(2), of set] by auto
  qed
  then show ?thesis unfolding in_time_def by blast
qed

end
