(* ===== verification/PingFs.thy ===== *)
theory PingFs
  imports PingStore
begin

text \<open>
  The file system over pings, \<open>app/single_host_fs.cc\<close>: \<open>BlockFuse\<close> or, with the option
  \<open>revertible\<close>, \<open>RevertibleBlockFuse\<close> over a \<open>PingBlockManager\<close> with a \<open>CounterSupplier\<close>
  and a \<open>TrackFreedService\<close>. The calls of \<open>fuse_main\<close>, the serialisation of protocol buffers and
  the network are arguments.
\<close>

section \<open>The program\<close>

definition FS_ID :: u16 where "FS_ID = 55"

definition gen_block_service :: "u16 \<Rightarrow> ping_service \<times> u16" where
  "gen_block_service id_generator = PingBlockService_init FS_ID id_generator"

type_synonym ping_network = "counter network"

text \<open>\<open>main\<close> after the command line is parsed; the result is the replies and the manager at the end.\<close>

definition single_host_main ::
  "nat \<Rightarrow> os_env \<Rightarrow> (block_proto \<Rightarrow> string) \<Rightarrow> (string \<Rightarrow> block_proto) \<Rightarrow> ping_network \<Rightarrow> bool \<Rightarrow>
     'b fuse_call list \<Rightarrow> ('b fuse_reply list \<times> counter ping_system) result" where
  "single_host_main fuel env serialize parse network revertible calls =
     (let block_manager = PingBlockManager CounterSupplier (PassThroughTranslator serialize parse) network;
          s = system_start counter_init (fst (gen_block_service 0))
      in if revertible
         then bind_result (RevertibleBlockFuse_init block_manager env (ucast FS_ID) s) (\<lambda>f.
              bind_result (wrapper_run (Some (RevertibleBlockFuse_object fuel block_manager env)) calls f)
                (\<lambda>(rs, f'). Inr (rs, store f')))
         else bind_result (BlockFuse_init block_manager env (ucast FS_ID) s) (\<lambda>f.
              bind_result (wrapper_run (Some (BlockFuse_object fuel block_manager
                  (BlockFuse_methods block_manager) env)) calls f)
                (\<lambda>(rs, f'). Inr (rs, store f'))))"

section \<open>What it does\<close>

lemma gen_block_service_fresh: "freed_ids (fst (gen_block_service g)) = {}"
  by (simp add: gen_block_service_def PingBlockService_init_def)

lemma counter_room: "counter_remaining counter_init = 2 ^ 64 - 1"
  by (simp add: counter_remaining_def counter_init_def)

lemma FS_ID_dev: "ucast FS_ID = (55 :: dev_t)"
  by (simp add: FS_ID_def)

text \<open>
  The file system over pings is the abstract file system: whatever else comes by and is taken
  out, if the first pings of the blocks of each request come by in the order in which they were
  asked for, every sequence of calls gets the replies of the abstract file system, errors included,
  plain as well as revertible; and without the option \<open>revertible\<close> exactly one block is kept for
  each node of the tree. The order does not matter to calls that write files of
  at most one block and list directories with fillers that commute.
\<close>

theorem single_host_program:
  assumes codec: "\<forall>b. parse (serialize (block_gen_proto b)) = block_gen_proto b"
    and net: "serves (PassThroughTranslator serialize parse) UNIV network env calls (spec_init env 55)"
    and ok: "run_ok env fuel (2 ^ 64 - 2) calls (spec_init env 55)" "revertible \<longrightarrow> no_reverts calls"
  shows "case spec_run env calls (spec_init env 55) of
       Inl e \<Rightarrow> single_host_main fuel env serialize parse network revertible calls = Inl e
     | Inr (rs, a') \<Rightarrow> \<exists>s. single_host_main fuel env serialize parse network revertible calls = Inr (rs, s) \<and>
         (\<not> revertible \<longrightarrow> stored_blocks (PassThroughTranslator serialize parse) UNIV s = fsize (fs_tree a'))"
proof -
  let ?tr = "PassThroughTranslator serialize parse" and ?body = "\<lambda>b. serialize (block_gen_proto b)"
  let ?R = "like_ideal ?body True UNIV (\<lambda>_. True)"
  note tr = PassThroughTranslator_ok [OF codec]
  have start: "?R (system_start counter_init (fst (gen_block_service 0))) (ideal_start counter_init)"
    by (rule like_ideal_start) (simp_all add: gen_block_service_fresh)
  have room: "0 < counter_remaining counter_init" "run_ok env fuel (counter_remaining counter_init - 1) calls (spec_init env 55)"
    using ok(1) by (simp_all add: counter_room)
  let ?bm = "PingBlockManager CounterSupplier ?tr network"
  let ?s = "system_start counter_init (fst (gen_block_service 0))"
  let ?plain = "plain_program fuel env calls 55 ?bm ?s"
  let ?rev = "rev_program fuel env calls 55 ?bm ?s"
  have main: "single_host_main fuel env serialize parse network revertible calls =
      (if revertible then bind_result ?rev (\<lambda>(rs, f). Inr (rs, store f))
       else bind_result ?plain (\<lambda>(rs, f). Inr (rs, store f)))"
    by (simp add: single_host_main_def plain_program_def rev_program_def Let_def FS_ID_dev bind_result_assoc)
  have plain: "case spec_run env calls (spec_init env 55) of Inl e \<Rightarrow> ?plain = Inl e
    | Inr (rs, a') \<Rightarrow> \<exists>f m. ?plain = Inr (rs, f) \<and> ?R (store f) m \<and> \<not> misused m \<and>
        card (dom (ideal_blocks m)) = fsize (fs_tree a')"
    if "\<not> revertible"
    using simulated_program [OF ping_served [OF tr ids_in_counter] counter.id_supply_axioms start room] net that
    by simp
  have rev: "map_sum id fst ?rev = map_sum id fst (spec_run env calls (spec_init env 55))" if revertible
    using simulated_rev_program [OF ping_served [OF tr ids_in_counter] counter.id_supply_axioms start room] net ok(2) that
    by simp
  note count = stored_blocks_like [OF tr, of UNIV "\<lambda>_. True"]
  show ?thesis
  proof (cases "spec_run env calls (spec_init env 55)")
    case (Inl e)
    with plain rev main show ?thesis by (cases ?rev; cases revertible) auto
  next
    case (Inr p)
    obtain rs a' where p: "p = (rs, a')" by (cases p)
    show ?thesis
    proof (cases revertible)
      case True
      with rev Inr p obtain f where "?rev = Inr (rs, f)" by (cases ?rev) auto
      with Inr p main True show ?thesis by simp
    next
      case False
      from plain [OF False] Inr p obtain f m where f: "?plain = Inr (rs, f)" "?R (store f) m"
        "\<not> misused m" "card (dom (ideal_blocks m)) = fsize (fs_tree a')" by auto
      have "stored_blocks ?tr UNIV (store f) = fsize (fs_tree a')" using count [OF f(2,3)] f(4) by simp
      with Inr p main False f(1) show ?thesis by simp
    qed
  qed
qed

text \<open>Over a network that brings the blocks in the opposite order, with a directory listed as a set.\<close>

definition set_filler :: "string set filler" where
  "set_filler b n st = (0, insert n b)"

lemma set_filler_any: "any_order_filler set_filler"
  by (simp add: any_order_filler_def set_filler_def insert_commute)

definition backwards_calls :: "string set fuse_call list" where
  "backwards_calls = [Mkdir ''/d'' 0x1ED, Create ''/d/f'' 0x81A4, Write ''/d/f'' ''hello'' 5 0, Create ''/d/g'' 0x81A4,
     Readdir ''/d'' {} set_filler, Read ''/d/f'' 100 0]"

lemma backwards_serves:
  "serves tr own (backwards tr) example_env backwards_calls (spec_init example_env 55)"
proof -
  have "run_small example_env backwards_calls (spec_init example_env 55)" by code_simp
  moreover have "any_order_calls backwards_calls" by (auto simp: any_order_calls_def backwards_calls_def set_filler_any)
  ultimately show ?thesis by (simp add: serves_def any_order_ok_def backwards_in_time)
qed

lemma backwards_run:
  "map_sum id (\<lambda>(rs, a). (rs, fsize (fs_tree a))) (spec_run example_env backwards_calls (spec_init example_env 55)) =
     Inr ([Code 0, Code 0, Code 5, Code 0, Dir_Reply 0 {''.'', ''..'', ''f'', ''g''}, Data_Reply 5 ''hello''], 5)"
  by code_simp

theorem single_host_program_witness:
  "\<exists>s. single_host_main 9 example_env example_serialize example_parse
     (backwards (PassThroughTranslator example_serialize example_parse)) False backwards_calls =
       Inr ([Code 0, Code 0, Code 5, Code 0, Dir_Reply 0 {''.'', ''..'', ''f'', ''g''}, Data_Reply 5 ''hello''], s) \<and>
     stored_blocks (PassThroughTranslator example_serialize example_parse) UNIV s = 5"
proof -
  have "run_ok example_env 9 100 backwards_calls (spec_init example_env 55)" by code_simp
  then have ok: "run_ok example_env 9 (2 ^ 64 - 2) backwards_calls (spec_init example_env 55)"
    by (rule run_ok_mono) simp
  have codec: "\<forall>b. example_parse (example_serialize (block_gen_proto b)) = block_gen_proto b"
    by (simp add: example_codec)
  show ?thesis
    using single_host_program [OF codec backwards_serves ok, of False] backwards_run
    by (cases "spec_run example_env backwards_calls (spec_init example_env 55)") auto
qed

end
