(* ===== verification/Distributed.thy ===== *)
theory Distributed
  imports PingFs
begin

text \<open>
  The distributed file system: \<open>PingSpoof\<close> (\<open>ping_spoof.cc\<close>), \<open>DistributedFreedService\<close>
  (\<open>distributed_freed_service.cc\<close>), \<open>DistributedBlockFuse\<close> (\<open>distributed_block_fuse.cc\<close>) and
  \<open>app/distributed_fs.cc\<close>. A node sends its blocks and every new root to the other nodes in pings
  that carry another node as their source, so that the answers go there. What a packet holds where
  the code leaves header fields unset is the argument \<open>junk\<close>.
\<close>

section \<open>Spoofed pings\<close>

text \<open>\<open>PingSpoof::send\<close>: the packet and the endpoint it is sent to.\<close>

definition spoof_send ::
  "ip_junk \<Rightarrow> string \<Rightarrow> u16 \<Rightarrow> u16 \<Rightarrow> address_v4 \<Rightarrow> address_v4 \<Rightarrow> string \<times> address_v4" where
  "spoof_send junk content identifier sequence_number spoofed_src spoofed_target =
     (let echo_request = EchoRequest identifier sequence_number content
      in (spoofed_bytes junk spoofed_src spoofed_target echo_request, spoofed_target))"

definition spoof_send_request ::
  "ip_junk \<Rightarrow> echo_request \<Rightarrow> address_v4 \<Rightarrow> address_v4 \<Rightarrow> string \<times> address_v4" where
  "spoof_send_request junk request spoofed_src spoofed_target =
     spoof_send junk (req_body request) (req_identifier request) (req_sequence_number request)
       spoofed_src spoofed_target"

section \<open>DistributedFreedService\<close>

record spoof_info =
  get_spoofed_src :: address_v4
  get_bounce_target :: address_v4

record distributed_service =
  tracked :: ping_service
  other_nodes :: "spoof_info list"

definition send_to_additional_endpts ::
  "ip_junk \<Rightarrow> translator \<Rightarrow> block \<Rightarrow> distributed_service \<Rightarrow> (string \<times> address_v4) list" where
  "send_to_additional_endpts junk tr block sv =
     (let request = translate tr block (tracked sv)
      in map (\<lambda>node. spoof_send_request junk request (get_spoofed_src node) (get_bounce_target node))
           (other_nodes sv))"

text \<open>The pings to the primary endpoint, and the spoofed packets.\<close>

definition dist_register_block ::
  "ip_junk \<Rightarrow> translator \<Rightarrow> block \<Rightarrow> distributed_service \<Rightarrow>
     echo_request list \<times> (string \<times> address_v4) list" where
  "dist_register_block junk tr block sv =
     (register_block tr block (tracked sv), send_to_additional_endpts junk tr block sv)"

definition register_root ::
  "ip_junk \<Rightarrow> translator \<Rightarrow> block \<Rightarrow> distributed_service \<Rightarrow> (string \<times> address_v4) list" where
  "register_root junk tr root sv = send_to_additional_endpts junk tr root sv"

text \<open>
  A \<open>PingBlockManager\<close> over this service. Its state adds the other nodes, which never change,
  and the spoofed packets of blocks so far; \<open>ping_create_block\<close> sends what goes to the primary
  endpoint.
\<close>

record 'i node =
  node_system :: "'i ping_system"
  node_peers :: "spoof_info list"
  packets :: "(string \<times> address_v4) list"

definition node_service :: "'i node \<Rightarrow> distributed_service" where
  "node_service n = \<lparr>tracked = service (node_system n), other_nodes = node_peers n\<rparr>"

definition node_create_block ::
  "'i id_supplier \<Rightarrow> ip_junk \<Rightarrow> translator \<Rightarrow> block_data \<Rightarrow> 'i node \<Rightarrow> (block \<times> 'i node) result" where
  "node_create_block supplier junk tr data n =
     bind_result (ping_create_block supplier tr data (node_system n)) (\<lambda>(block, s).
       Inr (block, n\<lparr>node_system := s,
                     packets := packets n @ snd (dist_register_block junk tr block (node_service n))\<rparr>))"

definition node_get_blocks ::
  "'i id_supplier \<Rightarrow> translator \<Rightarrow> 'i network \<Rightarrow>
     block_request \<Rightarrow> 'i node \<Rightarrow> (block_response \<times> 'i node) result" where
  "node_get_blocks supplier tr network request n =
     bind_result (ping_get_blocks supplier tr network request (node_system n)) (\<lambda>(response, s).
       Inr (response, n\<lparr>node_system := s\<rparr>))"

definition node_free_block :: "block_id \<Rightarrow> 'i node \<Rightarrow> 'i node" where
  "node_free_block block_id n = n\<lparr>node_system := ping_free_block block_id (node_system n)\<rparr>"

definition NodeBlockManager ::
  "'i id_supplier \<Rightarrow> ip_junk \<Rightarrow> translator \<Rightarrow> 'i network \<Rightarrow> 'i node block_manager" where
  "NodeBlockManager supplier junk tr network =
     \<lparr>bm_create = node_create_block supplier junk tr, bm_free = node_free_block,
      bm_get = node_get_blocks supplier tr network\<rparr>"

section \<open>DistributedBlockFuse\<close>

text \<open>
  The object adds the service, whose fields used here never change, and \<open>sent\<close>, the spoofed
  packets of new roots so far. The supplier is shared with the block manager, so it is inside the
  store; \<open>on_ids\<close> applies an operation of the supplier there.
\<close>

record 's distributed = "'s block_fuse" +
  dist_service :: distributed_service
  sent :: "(string \<times> address_v4) list"

definition DistributedBlockFuse_init ::
  "'s block_manager \<Rightarrow> os_env \<Rightarrow> dev_t \<Rightarrow> distributed_service \<Rightarrow> 's \<Rightarrow> 's distributed result" where
  "DistributedBlockFuse_init bm env d sv s =
     bind_result (BlockFuse_init bm env d s) (\<lambda>f.
       Inr (block_fuse.extend f (distributed.fields sv [])))"

definition dist_set_root_block ::
  "ip_junk \<Rightarrow> translator \<Rightarrow> block option \<Rightarrow> 's distributed \<Rightarrow> 's distributed result" where
  "dist_set_root_block junk tr new_root f =
     bind_result (base_set_root_block new_root f) (\<lambda>f1.
     bind_result (deref new_root) (\<lambda>root.
       Inr (f1\<lparr>sent := sent f1 @ register_root junk tr root (dist_service f1)\<rparr>)))"

definition set_root_block_no_update :: "block option \<Rightarrow> 's distributed \<Rightarrow> 's distributed result" where
  "set_root_block_no_update new_root f = base_set_root_block new_root f"

definition Distributed_methods ::
  "ip_junk \<Rightarrow> translator \<Rightarrow> 's block_manager \<Rightarrow>
     ('s, \<lparr>dist_service :: distributed_service, sent :: (string \<times> address_v4) list\<rparr>) fuse_methods" where
  "Distributed_methods junk tr bm =
     \<lparr>free_block = base_free_block bm, set_root_block = dist_set_root_block junk tr\<rparr>"

definition DistributedBlockFuse_object ::
  "nat \<Rightarrow> 's block_manager \<Rightarrow> ip_junk \<Rightarrow> translator \<Rightarrow> os_env \<Rightarrow> ('s distributed, 'b) fuse_object" where
  "DistributedBlockFuse_object fuel bm junk tr env =
     BlockFuse_object fuel bm (Distributed_methods junk tr bm) env"

text \<open>
  \<open>is_root_block\<close>: its first test is the wrong way round, so that the second one dereferences a
  null pointer whenever it is reached.
\<close>

definition is_root_block :: "block \<Rightarrow> bool result" where
  "is_root_block block =
     (let resolved_data = try_cast_dir_file block
      in if resolved_data \<noteq> None then Inr False
         else bind_result (deref resolved_data) (\<lambda>d.
           if \<not> df_is_dir d then Inr False else Inr (df_name d = PATH_SEPARATOR)))"

definition dist_process ::
  "((updating \<Rightarrow> updating) \<Rightarrow> 's \<Rightarrow> 's) \<Rightarrow> block \<Rightarrow> 's distributed \<Rightarrow> 's distributed result" where
  "dist_process on_ids block f =
     (let f1 = f\<lparr>store := on_ids (update_if_less_than (get_id block)) (store f)\<rparr>
      in bind_result (is_root_block block) (\<lambda>r.
           if \<not> r then Inr f1
           else bind_result (deref (root_block f1)) (\<lambda>root.
             if get_id block \<le> get_id root then Inr f1
             else set_root_block_no_update (Some block) f1)))"

section \<open>The program\<close>

type_synonym node_network = "updating network"

definition on_node_ids :: "(updating \<Rightarrow> updating) \<Rightarrow> updating node \<Rightarrow> updating node" where
  "on_node_ids u n = n\<lparr>node_system := (node_system n)\<lparr>sys_ids := u (sys_ids (node_system n))\<rparr>\<rparr>"

definition gen_distributed_block_service ::
  "address_v4 \<Rightarrow> address_v4 \<Rightarrow> u16 \<Rightarrow> distributed_service \<times> u16" where
  "gen_distributed_block_service bounce_ip other_node_ip id_generator =
     (let spoof_info = \<lparr>get_spoofed_src = other_node_ip, get_bounce_target = bounce_ip\<rparr>;
          (sv, id_generator') = PingBlockService_init FS_ID id_generator
      in (\<lparr>tracked = sv, other_nodes = [spoof_info]\<rparr>, id_generator'))"

text \<open>\<open>main\<close> after the command line is parsed.\<close>

definition distributed_main ::
  "nat \<Rightarrow> os_env \<Rightarrow> (block_proto \<Rightarrow> string) \<Rightarrow> (string \<Rightarrow> block_proto) \<Rightarrow> node_network \<Rightarrow> ip_junk \<Rightarrow>
     address_v4 \<Rightarrow> address_v4 \<Rightarrow> u8 \<Rightarrow> 'b fuse_call list \<Rightarrow>
     ('b fuse_reply list \<times> updating node distributed) result" where
  "distributed_main fuel env serialize parse network junk bounce_ip other_node_ip node_id calls =
     (let tr = PassThroughTranslator serialize parse;
          updating_id_supplier = updating_init node_id;
          sv = fst (gen_distributed_block_service bounce_ip other_node_ip 0);
          block_manager = NodeBlockManager UpdatingIdSupplier junk tr network
      in bind_result (DistributedBlockFuse_init block_manager env (ucast FS_ID) sv
             \<lparr>node_system = system_start updating_id_supplier (tracked sv),
              node_peers = other_nodes sv, packets = []\<rparr>) (\<lambda>f.
           wrapper_run (Some (DistributedBlockFuse_object fuel block_manager junk tr env)) calls f))"

section \<open>The store of a node\<close>

lemma node_change:
  assumes "translator_ok tr body" and "ids_in own P supplier"
  shows "change_sim (NodeBlockManager supplier junk tr network) (IdealStore supplier)
     (\<lambda>n. like_ideal body single own P (node_system n))"
proof
  note ping = ping_change [OF assms, of network single]
  fix n :: "'a node" and a
  assume n: "like_ideal body single own P (node_system n) a"
  show "agree_with (\<lambda>n. like_ideal body single own P (node_system n))
      (bm_create (NodeBlockManager supplier junk tr network) d n) (bm_create (IdealStore supplier) d a)" for d
    using change_sim.create_sim [OF ping n, of d]
    by (auto simp: NodeBlockManager_def PingBlockManager_def node_create_block_def intro!: agree_wrap)
  show "like_ideal body single own P (node_system (bm_free (NodeBlockManager supplier junk tr network) i n))
      (bm_free (IdealStore supplier) i a)" for i
    using change_sim.free_sim [OF ping n, of i]
    by (simp add: NodeBlockManager_def PingBlockManager_def node_free_block_def)
qed

lemma node_sim:
  assumes tr: "translator_ok tr body" and ids: "ids_in own P supplier" and net: "in_order tr own network"
  shows "manager_sim (NodeBlockManager supplier junk tr network) (IdealStore supplier)
     (\<lambda>n. like_ideal body single own P (node_system n))"
proof -
  have "agree_with (\<lambda>n. like_ideal body single own P (node_system n))
      (bm_get (NodeBlockManager supplier junk tr network) is n) (bm_get (IdealStore supplier) is a)"
    if n: "like_ideal body single own P (node_system n) a" for "is" n a
    using manager_sim.get_sim [OF ping_sim [OF tr ids net] n, of "is"]
    by (auto simp: NodeBlockManager_def PingBlockManager_def node_get_blocks_def intro!: agree_wrap)
  then show ?thesis using node_change [OF tr ids] by (simp add: manager_sim_def manager_sim_axioms_def)
qed

lemma node_any_sim:
  assumes tr: "translator_ok tr body" and ids: "ids_in own P supplier" and net: "in_time tr own network"
  shows "any_order_sim (NodeBlockManager supplier junk tr network) supplier
     (\<lambda>n. like_ideal body single own P (node_system n))"
proof -
  have "\<exists>order n'. mset order = mset is \<and> bm_get (NodeBlockManager supplier junk tr network) is n =
      Inr (map (\<lambda>i. Some (mk_block i (the (ideal_blocks a i)))) order, n') \<and>
      like_ideal body single own P (node_system n') a"
    if "like_ideal body single own P (node_system n) a" "\<not> misused a" "distinct is"
      "\<forall>i \<in> set is. ideal_blocks a i \<noteq> None" for "is" n a
    using any_order_sim.get_any [OF ping_any_sim [OF tr ids net] that]
    by (fastforce simp: NodeBlockManager_def PingBlockManager_def node_get_blocks_def)
  then show ?thesis using node_change [OF tr ids] by (simp add: any_order_sim_def any_order_sim_axioms_def)
qed

lemma node_served:
  assumes "translator_ok tr body" and "ids_in own P supplier" and "serves tr own network env calls a"
  shows "served (NodeBlockManager supplier junk tr network) supplier
     (\<lambda>n. like_ideal body single own P (node_system n)) env calls a"
  using assms(3) node_change [OF assms(1,2)] node_sim [OF assms(1,2)] node_any_sim [OF assms(1,2)]
  by (auto simp: served_def serves_def)

lemma same_distributed:
  fixes f :: "'s distributed" and g :: "'t distributed"
  shows "same_object R f g \<longleftrightarrow> R (store f) (store g) \<and> root_block g = root_block f \<and> dev g = dev f \<and>
     errno g = errno f \<and> dist_service g = dist_service f \<and> sent g = sent f"
  by (cases f; cases g) (auto simp: same_object_def)

sublocale change_sim \<subseteq> dist_methods: methods_sim bm bm' R
    "Distributed_methods junk tr bm" "Distributed_methods junk tr bm'" for junk tr
  by unfold_locales
    (auto simp: Distributed_methods_def base_free_block_def dist_set_root_block_def base_set_root_block_def
      same_distributed intro!: agree_Inr free_sim agree_bind_same)

context change_sim
begin

lemma dist_init_sim:
  "R s t \<Longrightarrow> agree (same_object R) (DistributedBlockFuse_init bm env d sv s) (DistributedBlockFuse_init bm' env d sv t)"
  unfolding DistributedBlockFuse_init_def
  by (rule agree_bind [OF base_init_sim])
    (auto simp: same_object_def block_fuse.defs distributed.defs intro!: agree_Inr)

lemma dist_methods_sim: "methods_sim bm bm' R (Distributed_methods junk tr bm) (Distributed_methods junk tr bm')"
  by (rule dist_methods.methods_sim_axioms)

end

lemma distributed_ops:
  assumes "block_store bm lookup room ok"
  shows "block_fuse_ops bm lookup room ok (Distributed_methods junk tr bm) (\<lambda>_. False)"
  using assms by (auto simp: block_fuse_ops_def block_fuse_ops_axioms_def Distributed_methods_def
      base_free_block_def base_set_root_block_def dist_set_root_block_def)

text \<open>
  The roots of an object since it was \<open>f0\<close>: every one was sent to the other nodes when it was set,
  and the last is the current one.
\<close>

definition announced :: "ip_junk \<Rightarrow> translator \<Rightarrow> 's distributed \<Rightarrow> 's distributed \<Rightarrow> bool" where
  "announced junk tr f0 f \<longleftrightarrow>
     (\<exists>roots. sent f = sent f0 @ concat (map (\<lambda>b. register_root junk tr b (dist_service f0)) roots) \<and>
       root_block f = last (root_block f0 # map Some roots)) \<and> dist_service f = dist_service f0"

interpretation dist_frame: fuse_frame "Distributed_methods junk tr bm" "announced junk tr f0" for junk tr bm f0
proof
  fix f f' :: "'a distributed" and r
  assume f: "announced junk tr f0 f"
    and "set_root_block (Distributed_methods junk tr bm) r f = Inr f'"
  then obtain b where b: "f' = f\<lparr>root_block := Some b, sent := sent f @ register_root junk tr b (dist_service f)\<rparr>"
    by (cases r) (auto simp: Distributed_methods_def dist_set_root_block_def base_set_root_block_def)
  from f obtain roots where
    "sent f = sent f0 @ concat (map (\<lambda>b. register_root junk tr b (dist_service f0)) roots)"
    "dist_service f = dist_service f0" by (auto simp: announced_def)
  with b show "announced junk tr f0 f'"
    unfolding announced_def by (intro conjI exI [of _ "roots @ [b]"]) simp_all
next
  fix f f' :: "'a distributed" and i
  assume "announced junk tr f0 f" and "free_block (Distributed_methods junk tr bm) i f = Inr f'"
  moreover from this(2) have "f' = f\<lparr>store := bm_free bm i (store f)\<rparr>"
    by (simp add: Distributed_methods_def base_free_block_def)
  ultimately show "announced junk tr f0 f'" by (simp add: announced_def)
qed (simp_all add: announced_def)

section \<open>What the program does\<close>

lemma distributed_init:
  assumes bm: "block_store bm lookup room ok" and s: "ok s" "0 < room s" "lookup s = Map.empty"
  shows "\<exists>f T. DistributedBlockFuse_init bm env d sv s = Inr f \<and> tree_state lookup ok T f \<and>
     no_garbage lookup T f \<and> abs_fs T f = spec_init env d \<and> room (store f) = room s - 1 \<and>
     dist_service f = sv \<and> sent f = []"
proof -
  from block_store.init_tree [OF bm s, of env d] obtain f T where f: "BlockFuse_init bm env d s = Inr f"
    "tree_state lookup ok T f" "no_garbage lookup T f" "abs_fs T f = spec_init env d"
    "room (store f) = room s - 1" by auto
  let ?f = "block_fuse.extend f (distributed.fields sv []) :: 'a distributed"
  have sel: "store ?f = store f" "root_block ?f = root_block f" "dev ?f = dev f" "errno ?f = errno f"
    "dist_service ?f = sv" "sent ?f = []"
    by (simp_all add: block_fuse.defs distributed.defs)
  with f show ?thesis
    by (intro exI [of _ ?f] exI [of _ T])
      (simp add: DistributedBlockFuse_init_def tree_state_def abs_fs_def no_garbage_def)
qed

context id_supply
begin

lemma ideal_distributed_program:
  assumes "0 < remaining i" and "run_ok env fuel (remaining i - 1) calls (spec_init env d)"
  shows "case spec_run env calls (spec_init env d) of
       Inl e \<Rightarrow> bind_result (DistributedBlockFuse_init (IdealStore supplier) env d sv (ideal_start i))
         (wrapper_run (Some (DistributedBlockFuse_object fuel (IdealStore supplier) junk tr env)) calls) = Inl e
     | Inr (rs, a') \<Rightarrow> \<exists>f. bind_result (DistributedBlockFuse_init (IdealStore supplier) env d sv (ideal_start i))
         (wrapper_run (Some (DistributedBlockFuse_object fuel (IdealStore supplier) junk tr env)) calls) =
           Inr (rs, f) \<and> \<not> misused (store f) \<and> card (dom (ideal_blocks (store f))) = fsize (fs_tree a')"
proof -
  have room: "0 < remaining (ideal_ids (ideal_start i))" using assms(1) by (simp add: ideal_start_wf)
  from distributed_init [OF ideal.block_store_axioms ideal_start_wf(1) room ideal_start_wf(2), of env d sv] obtain f T where
    f: "DistributedBlockFuse_init (IdealStore supplier) env d sv (ideal_start i) = Inr f"
    "tree_state ideal_blocks (ideal_wf fresh) T f" "no_garbage ideal_blocks T f" "abs_fs T f = spec_init env d"
    "remaining (ideal_ids (store f)) = remaining i - 1"
    by (auto simp: ideal_start_wf)
  have "\<not> misused (store f') \<and> card (dom (ideal_blocks (store f'))) = fsize (fs_tree (abs_fs T' f'))"
    if "tree_state ideal_blocks (ideal_wf fresh) T' f'" "no_garbage ideal_blocks T' f'"
    for T' and f' :: "'i ideal_store distributed"
    using no_garbage_count [OF that] tree_stateD(1) [OF that(1)] by (simp add: ideal_wf_def)
  with block_fuse_ops.run_refines [OF distributed_ops [OF ideal.block_store_axioms, of junk tr] f(2),
      of env fuel "remaining i - 1" calls, folded DistributedBlockFuse_object_def] f assms(2)
  show ?thesis by (fastforce split: sum.splits)
qed

end

text \<open>The roots a run sets from the start on.\<close>

lemma distributed_run_roots:
  fixes f :: "'s distributed"
  assumes init: "DistributedBlockFuse_init bm env d sv s = Inr f0"
    and run: "wrapper_run (Some (DistributedBlockFuse_object fuel bm junk tr env)) calls f0 = Inr (rs, f)"
  shows "\<exists>roots. sent f = concat (map (\<lambda>b. register_root junk tr b sv) roots) \<and>
     (roots = [] \<or> root_block f = Some (last roots))"
proof -
  have f0: "dist_service f0 = sv" "sent f0 = []"
    using init by (auto simp: DistributedBlockFuse_init_def distributed.defs block_fuse.defs result_simps)
  have "announced junk tr f0 f0" by (auto simp: announced_def intro: exI [of _ "[]"])
  from dist_frame.run_frame [OF run [unfolded DistributedBlockFuse_object_def] this] obtain roots where
    "sent f = concat (map (\<lambda>b. register_root junk tr b sv) roots)"
    "root_block f = last (root_block f0 # map Some roots)"
    by (auto simp: announced_def f0)
  then show ?thesis by (intro exI [of _ roots]) (auto simp: last_map)
qed

lemma simulated_distributed_program:
  assumes served: "served bm supplier R env calls (spec_init env d)" and ids: "id_supply supplier fresh remaining"
    and start: "R s (ideal_start i)" and room: "0 < remaining i"
    and ok: "run_ok env fuel (remaining i - 1) calls (spec_init env d)"
  shows "case spec_run env calls (spec_init env d) of
       Inl e \<Rightarrow> bind_result (DistributedBlockFuse_init bm env d sv s)
         (wrapper_run (Some (DistributedBlockFuse_object fuel bm junk tr env)) calls) = Inl e
     | Inr (rs, a') \<Rightarrow> \<exists>f m roots. bind_result (DistributedBlockFuse_init bm env d sv s)
         (wrapper_run (Some (DistributedBlockFuse_object fuel bm junk tr env)) calls) = Inr (rs, f) \<and>
         R (store f) m \<and> \<not> misused m \<and> card (dom (ideal_blocks m)) = fsize (fs_tree a') \<and>
         sent f = concat (map (\<lambda>b. register_root junk tr b sv) roots) \<and>
         (roots = [] \<or> root_block f = Some (last roots))"
proof -
  let ?run = "\<lambda>bm s. bind_result (DistributedBlockFuse_init bm env d sv s)
      (wrapper_run (Some (DistributedBlockFuse_object fuel bm junk tr env)) calls)"
  have agree: "agree_with (same_object R) (?run bm s) (?run (IdealStore supplier) (ideal_start i))"
  proof -
    have sim: "change_sim bm (IdealStore supplier) R" using served by (simp add: served_def)
    have "0 < remaining (ideal_ids (ideal_start i))" using room by (simp add: ideal_start_wf)
    from distributed_init [OF id_supply.ideal_is_store [OF ids] ideal_start_wf(1) this ideal_start_wf(2), of env d sv]
    obtain g T where g: "DistributedBlockFuse_init (IdealStore supplier) env d sv (ideal_start i) = Inr g"
      "tree_state ideal_blocks (ideal_wf fresh) T g" "abs_fs T g = spec_init env d"
      "remaining (ideal_ids (store g)) = remaining i - 1"
      by (auto simp: ideal_start_wf)
    have init: "agree (same_object R) (DistributedBlockFuse_init bm env d sv s) (Inr g)"
      using change_sim.dist_init_sim [OF sim start, of env d sv] by (simp only: g(1))
    from served_from_init [OF served change_sim.dist_methods_sim [OF sim]
        distributed_ops [OF id_supply.ideal_is_store [OF ids]] init g(2,3) ok] g(4)
    show ?thesis by (simp add: DistributedBlockFuse_object_def g(1))
  qed
  note ideal = id_supply.ideal_distributed_program [OF ids room ok, of sv junk tr]
  show ?thesis
  proof (cases "spec_run env calls (spec_init env d)")
    case (Inl e)
    then have "e \<noteq> Waits_Forever" "e \<noteq> Out_Of_Fuel" using spec_run_answers [of env calls "spec_init env d"] by auto
    with ideal Inl agree_withD(2) [OF agree, of e] show ?thesis by simp
  next
    case (Inr p)
    obtain rs a' where p: "p = (rs, a')" by (cases p)
    with ideal Inr obtain g where g: "?run (IdealStore supplier) (ideal_start i) = Inr (rs, g)"
      "\<not> misused (store g)" "card (dom (ideal_blocks (store g))) = fsize (fs_tree a')" by auto
    from agree_withD(1) [OF agree g(1)] obtain f where f: "?run bm s = Inr (rs, f)" "R (store f) (store g)"
      by (auto simp: same_object_def)
    then obtain f0 where "DistributedBlockFuse_init bm env d sv s = Inr f0"
      "wrapper_run (Some (DistributedBlockFuse_object fuel bm junk tr env)) calls f0 = Inr (rs, f)"
      by (auto simp: result_simps)
    from distributed_run_roots [OF this] obtain roots where
      roots: "sent f = concat (map (\<lambda>b. register_root junk tr b sv) roots)" "roots = [] \<or> root_block f = Some (last roots)"
      by blast
    show ?thesis
      unfolding Inr p sum.case prod.case
      by (intro exI [of _ f] exI [of _ "store g"] exI [of _ roots] conjI f g(2,3) roots)
  qed
qed

text \<open>The packet that carries a root to the other node of the program.\<close>

definition root_packet ::
  "(block_proto \<Rightarrow> string) \<Rightarrow> ip_junk \<Rightarrow> address_v4 \<Rightarrow> address_v4 \<Rightarrow> block \<Rightarrow> string \<times> address_v4" where
  "root_packet serialize junk bounce_ip other_node_ip b =
     (spoofed_bytes junk other_node_ip bounce_ip (EchoRequest FS_ID 0 (serialize (block_gen_proto b))),
      bounce_ip)"

lemma register_root_packet:
  "register_root junk (PassThroughTranslator serialize parse) b
     (fst (gen_distributed_block_service bounce_ip other_node_ip 0)) =
     [root_packet serialize junk bounce_ip other_node_ip b]"
  by (simp add: register_root_def send_to_additional_endpts_def gen_distributed_block_service_def
      PingBlockService_init_def translate_def PassThroughTranslator_def spoof_send_request_def spoof_send_def
      root_packet_def EchoRequest_def Let_def)



section \<open>What the other node does with it\<close>

lemma is_root_block_cases:
  "is_root_block b = (if try_cast_dir_file b = None then Inl Null_Deref else Inr False)"
  by (simp add: is_root_block_def Let_def)

text \<open>
  A node that would subscribe its file system to its service (\<open>main\<close> does not) when an answer comes.
\<close>

definition node_receives ::
  "translator \<Rightarrow> ((updating \<Rightarrow> updating) \<Rightarrow> 's \<Rightarrow> 's) \<Rightarrow> echo_response \<Rightarrow> ping_service \<Rightarrow> 's distributed \<Rightarrow>
     (echo_request list \<times> ping_service \<times> 's distributed) result" where
  "node_receives tr on_ids resp sv f =
     service_process tr (notify (\<lambda>(_ :: unit) b f. dist_process on_ids b f) (subscribe () [])) resp sv f"

text \<open>
  C22. No node ever adopts a root: whatever block the answer to a spoofed ping brings, a
  directory or file only moves the supplier's ids and leaves the root, and any other block
  dereferences a null pointer. What came is sent on, unless this node itself freed a block of that
  id, so the blocks of the other node go round here too until this one frees them.
\<close>

theorem root_never_adopted:
  assumes codec: "\<forall>b. parse (serialize (block_gen_proto b)) = block_gen_proto b"
    and "fs_id sv = FS_ID" and "service_id sv = 0"
  shows "node_receives (PassThroughTranslator serialize parse) on_ids
       (echo_reply (EchoRequest FS_ID 0 (serialize (block_gen_proto b)))) sv f =
     (if try_cast_dir_file b = None then Inl Null_Deref
      else Inr (if get_id b \<in> freed_ids sv then [] else [EchoRequest FS_ID 0 (serialize (block_gen_proto b))],
                sv\<lparr>freed_ids := freed_ids sv - {get_id b}\<rparr>,
                f\<lparr>store := on_ids (update_if_less_than (get_id b)) (store f)\<rparr>))"
proof -
  let ?tr = "PassThroughTranslator serialize parse"
  let ?resp = "EchoResponse FS_ID 0 (serialize (block_gen_proto b))"
  have resp: "echo_reply (EchoRequest FS_ID 0 (serialize (block_gen_proto b))) = ?resp"
    "EchoRequest_of_response ?resp = EchoRequest FS_ID 0 (serialize (block_gen_proto b))"
    "resp_identifier ?resp = FS_ID" "resp_sequence_number ?resp = 0"
    by (simp_all add: echo_reply_def EchoRequest_def EchoResponse_def EchoRequest_of_response_def)
  have block: "from_response ?tr ?resp = Inr b"
    using PassThroughTranslator_ok [OF codec] by (simp add: translator_ok_def)
  have sv: "sv\<lparr>freed_ids := freed_ids sv\<rparr> = sv" by simp
  show ?thesis
    using assms(2,3)
    by (auto simp: node_receives_def service_process_def resp block subscribe_def dist_process_def
        is_root_block_cases should_recycle_def sv Let_def)
qed

theorem root_never_adopted_witness:
  "node_receives (PassThroughTranslator example_serialize example_parse) on_node_ids
       (echo_reply (EchoRequest FS_ID 0 (example_serialize (block_gen_proto example_block))))
       (fst (PingBlockService_init FS_ID 0))
       (\<lparr>store = \<lparr>node_system = system_start (updating_init 1) (fst (PingBlockService_init FS_ID 0)),
                  node_peers = [], packets = []\<rparr>, root_block = None, dev = 55, errno = 0,
         dist_service = fst (gen_distributed_block_service (1, 1, 1, 1) (1, 1, 1, 2) 0), sent = []\<rparr>) =
     Inl Null_Deref"
proof -
  have sv: "fs_id (fst (PingBlockService_init FS_ID 0)) = FS_ID"
    "service_id (fst (PingBlockService_init FS_ID 0)) = 0"
    by (simp_all add: PingBlockService_init_def)
  have "try_cast_dir_file example_block = None" by (simp add: example_block_def try_cast_dir_file_def)
  with root_never_adopted [OF _ sv, of example_parse example_serialize on_node_ids example_block] example_codec
  show ?thesis by simp
qed

end
