(* ===== verification/Tools.thy ===== *)
theory Tools
  imports CommandLine Distributed
begin

text \<open>
  The tools \<open>single_ping\<close>, \<open>multi_ping\<close> and \<open>spoofed_ping\<close> under \<open>app\<close>, from their command
  lines to the pings they send and what they print. Name resolution is an argument, and so is which
  replies \<open>Ping\<close> publishes while the main thread sleeps. A program ends with a code, what it
  printed and what it sent to which endpoint.
\<close>

section \<open>Sending a ping\<close>

text \<open>The two overloads of \<open>Ping::ping\<close>: what is printed, and the bytes sent to the endpoint.\<close>

definition ping_request :: "echo_request \<Rightarrow> 'e \<Rightarrow> printed \<times> string \<times> 'e" where
  "ping_request request endpoint =
     (Cout (CHR 0x0A # ''Got here'' @ [CHR 0x0A]), request_bytes request, endpoint)"

definition ping_content :: "string \<Rightarrow> 'e \<Rightarrow> u16 \<Rightarrow> u16 \<Rightarrow> printed \<times> string \<times> 'e" where
  "ping_content content endpoint identifier sequence_number =
     (let request = EchoRequest identifier sequence_number content in ping_request request endpoint)"

record 'e tool_end =
  exit_code :: int
  tool_output :: "printed list"
  tool_sent :: "(string \<times> 'e) list"

text \<open>Strings are empty from the start; other variables hold nothing before they are assigned.\<close>

definition strings_only :: "string list \<Rightarrow> variables" where
  "strings_only names x = (if x \<in> set names then Some (String_Value []) else None)"

section \<open>\<open>single_ping\<close>\<close>

text \<open>
  \<open>EchoRespSubscriber\<close>: the pointer \<open>identifier_\<close> with the value it points to, and how many
  cells from \<open>new\<close> have not been deleted. The destructor deletes the pointer only if it is null.
\<close>

record single_subscriber =
  received :: "u16 option"
  cells :: nat

definition single_init :: single_subscriber where
  "single_init = \<lparr>received = None, cells = 0\<rparr>"

definition single_process :: "echo_response \<Rightarrow> single_subscriber \<Rightarrow> single_subscriber" where
  "single_process notice s =
     (let s1 = (if received s = None then s\<lparr>cells := cells s + 1\<rparr> else s)
      in s1\<lparr>received := Some (resp_identifier notice)\<rparr>)"

definition single_destroy :: "single_subscriber \<Rightarrow> single_subscriber" where
  "single_destroy s = (case received s of None \<Rightarrow> s | Some _ \<Rightarrow> s)"

definition single_ping_arguments :: "variables \<Rightarrow> (string \<times> string) result" where
  "single_ping_arguments vars =
     bind_result (read_string ''hostname'' vars) (\<lambda>hostname.
     bind_result (read_string ''ping_content'' vars) (\<lambda>ping_content.
     Inr (hostname, ping_content)))"

definition single_ping_main ::
  "program_options \<Rightarrow> (string \<Rightarrow> 'e result) \<Rightarrow> echo_response list \<Rightarrow> string list \<Rightarrow>
     ('e tool_end \<times> single_subscriber) result" where
  "single_ping_main po resolve notices argv =
     (let (accepted, vars, out) = single_ping_command_line po argv (strings_only [''hostname'', ''ping_content''])
      in if \<not> accepted then Inr (\<lparr>exit_code = 1, tool_output = out, tool_sent = []\<rparr>, single_init)
         else bind_result (single_ping_arguments vars) (\<lambda>(hostname, content).
              bind_result (resolve hostname) (\<lambda>endpoint.
              let (message, packet) = ping_content content endpoint 3533 1111;
                  subscriber = fold single_process notices single_init;
                  answer = (case received subscriber of
                      None \<Rightarrow> ''No response''
                    | Some received_identifier \<Rightarrow>
                        if received_identifier = 3533 then ''Response with correct identifer''
                        else ''Response with incorrect identifer'')
              in Inr (\<lparr>exit_code = 0, tool_output = [message, Cout (CHR 0x0A # answer @ [CHR 0x0A])],
                        tool_sent = [packet]\<rparr>, single_destroy subscriber))))"

section \<open>\<open>multi_ping\<close>\<close>

text \<open>
  The subscriber counts replies in 16 bits and starts a thread for each, which issues a ping. The
  state holds the counter, the threads that have not issued theirs, and the pings issued.
\<close>

record 'e multi_subscriber =
  endpoint :: 'e
  num_pings :: u16
  threads :: nat
  issued :: "(printed \<times> string \<times> 'e) list"

definition multi_init :: "'e \<Rightarrow> 'e multi_subscriber" where
  "multi_init endpt = \<lparr>endpoint = endpt, num_pings = 0, threads = 0, issued = []\<rparr>"

definition issue_ping :: "'e multi_subscriber \<Rightarrow> 'e multi_subscriber" where
  "issue_ping s = s\<lparr>issued := issued s @ [ping_content ''some content'' (endpoint s) 3533 1111]\<rparr>"

definition multi_process :: "'e multi_subscriber \<Rightarrow> 'e multi_subscriber" where
  "multi_process s = s\<lparr>num_pings := num_pings s + 1, threads := threads s + 1\<rparr>"

datatype multi_event = Reply | Issue

text \<open>What happens while the main thread sleeps: a reply is published, or a thread issues its ping.\<close>

fun multi_step :: "multi_event \<Rightarrow> 'e multi_subscriber \<Rightarrow> 'e multi_subscriber" where
  "multi_step Reply s = multi_process s"
| "multi_step Issue s = (if threads s = 0 then s else issue_ping (s\<lparr>threads := threads s - 1\<rparr>))"

text \<open>
  The loop of \<open>main\<close>, with what happens during each of its sleeps; \<open>None\<close> when it has not ended
  after them.
\<close>

fun multi_loop :: "u16 \<Rightarrow> multi_event list list \<Rightarrow> 'e multi_subscriber \<Rightarrow> 'e multi_subscriber option" where
  "multi_loop n sleeps s =
     (if uint (num_pings s) < uint n
      then (case sleeps of [] \<Rightarrow> None | es # rest \<Rightarrow> multi_loop n rest (fold multi_step es s))
      else Some s)"

declare multi_loop.simps [simp del]

lemma uint_less_unat: "uint (a :: 'a::len word) < uint (b :: 'a word) \<longleftrightarrow> unat a < unat b"
  by (metis word_less_iff_unsigned)

lemma multi_loop_cases:
  "unat n \<le> unat (num_pings s) \<Longrightarrow> multi_loop n sleeps s = Some s"
  "unat (num_pings s) < unat n \<Longrightarrow> multi_loop n [] s = None"
  "unat (num_pings s) < unat n \<Longrightarrow> multi_loop n (es # sleeps) s = multi_loop n sleeps (fold multi_step es s)"
  unfolding multi_loop.simps [of n sleeps s] multi_loop.simps [of n "[]" s] multi_loop.simps [of n "es # sleeps" s] uint_less_unat
  by simp_all

definition multi_ping_arguments :: "variables \<Rightarrow> (string \<times> u16) result" where
  "multi_ping_arguments vars =
     bind_result (read_string ''hostname'' vars) (\<lambda>hostname.
     bind_result (read_u16 ''num_pings'' vars) (\<lambda>num_pings. Inr (hostname, num_pings)))"

definition multi_ping_main ::
  "program_options \<Rightarrow> (string \<Rightarrow> 'e result) \<Rightarrow> multi_event list \<Rightarrow> multi_event list list \<Rightarrow> string list \<Rightarrow>
     'e tool_end option result" where
  "multi_ping_main po resolve first_sleep sleeps argv =
     (let (accepted, vars, out) = multi_ping_command_line po argv (strings_only [''hostname'', ''log_dir''])
      in if \<not> accepted then Inr (Some \<lparr>exit_code = 1, tool_output = out, tool_sent = []\<rparr>)
         else bind_result (multi_ping_arguments vars) (\<lambda>(hostname, n).
              bind_result (resolve hostname) (\<lambda>endpt.
              let subscriber = issue_ping (fold multi_step first_sleep (multi_init endpt))
              in Inr (map_option (\<lambda>s. \<lparr>exit_code = 0, tool_output = map fst (issued s), tool_sent = map snd (issued s)\<rparr>)
                   (multi_loop n sleeps subscriber)))))"

section \<open>\<open>spoofed_ping\<close>\<close>

definition spoofed_ping_arguments :: "variables \<Rightarrow> (string \<times> string \<times> string) result" where
  "spoofed_ping_arguments vars =
     bind_result (read_string ''target_hostname'' vars) (\<lambda>target_hostname.
     bind_result (read_string ''spoofed_hostname'' vars) (\<lambda>spoofed_hostname.
     bind_result (read_string ''ping_content'' vars) (\<lambda>ping_content.
     Inr (target_hostname, spoofed_hostname, ping_content))))"

text \<open>\<open>from_string\<close> is \<open>address_v4::from_string\<close>, which throws on a text that is no address.\<close>

definition spoofed_ping_main ::
  "program_options \<Rightarrow> (string \<Rightarrow> address_v4 result) \<Rightarrow> ip_junk \<Rightarrow> string list \<Rightarrow> address_v4 tool_end result" where
  "spoofed_ping_main po from_string junk argv =
     (let (accepted, vars, out) = spoofed_ping_command_line po argv
            (strings_only [''target_hostname'', ''spoofed_hostname'', ''ping_content''])
      in if \<not> accepted then Inr \<lparr>exit_code = 1, tool_output = out, tool_sent = []\<rparr>
         else bind_result (spoofed_ping_arguments vars) (\<lambda>(target_hostname, spoofed_hostname, content).
              bind_result (from_string target_hostname) (\<lambda>target.
              bind_result (from_string spoofed_hostname) (\<lambda>spoofed_src.
              Inr \<lparr>exit_code = 0, tool_output = [],
                   tool_sent = [spoof_send junk content 3533 1111 spoofed_src target]\<rparr>))))"

section \<open>What the subscribers count\<close>

lemma single_processed:
  "fold single_process notices s =
     (if notices = [] then s else
        \<lparr>received = Some (resp_identifier (last notices)), cells = cells s + (if received s = None then 1 else 0)\<rparr>)"
  by (induction notices arbitrary: s) (auto simp: single_process_def)

text \<open>The cell is not given back: \<open>~EchoRespSubscriber\<close> deletes null pointers only.\<close>

lemma single_ping_leaks:
  "cells (single_destroy (fold single_process notices single_init)) = (if notices = [] then 0 else 1)"
  by (simp add: single_processed single_init_def single_destroy_def split: option.splits)

definition replies_in :: "multi_event list \<Rightarrow> nat" where
  "replies_in es = count_list es Reply"

lemma replies_in_simps [simp]:
  "replies_in [] = 0" "replies_in (Reply # es) = Suc (replies_in es)" "replies_in (Issue # es) = replies_in es"
  by (simp_all add: replies_in_def)

lemma replies_in_append [simp]: "replies_in (es @ es') = replies_in es + replies_in es'"
  by (simp add: replies_in_def)

lemma issue_ping_fields [simp]:
  "num_pings (issue_ping s) = num_pings s" "threads (issue_ping s) = threads s" "endpoint (issue_ping s) = endpoint s"
  "issued (issue_ping s) = issued s @ [ping_content ''some content'' (endpoint s) 3533 1111]"
  by (simp_all add: issue_ping_def)

lemma multi_process_fields [simp]:
  "num_pings (multi_process s) = num_pings s + 1" "threads (multi_process s) = threads s + 1"
  "endpoint (multi_process s) = endpoint s" "issued (multi_process s) = issued s"
  by (simp_all add: multi_process_def)

text \<open>Every reply is counted, modulo \<open>2 ^ 16\<close>, and answered by one ping, issued or still in a thread.\<close>

lemma multi_step_fields:
  "num_pings (multi_step e s) = num_pings s + of_nat (replies_in [e])"
  "endpoint (multi_step e s) = endpoint s"
  "length (issued (multi_step e s)) + threads (multi_step e s) = length (issued s) + threads s + replies_in [e]"
  by (cases e; simp)+

lemma replies_in_Cons: "replies_in (e # es) = replies_in [e] + replies_in es"
  by (cases e) simp_all

lemma multi_steps:
  "num_pings (fold multi_step es s) = num_pings s + of_nat (replies_in es) \<and>
   endpoint (fold multi_step es s) = endpoint s \<and>
   length (issued (fold multi_step es s)) + threads (fold multi_step es s) = length (issued s) + threads s + replies_in es"
proof (induction es arbitrary: s)
  case (Cons e es)
  from Cons [of "multi_step e s"] multi_step_fields(3) [of e s] show ?case
    by (simp add: multi_step_fields(1,2) replies_in_Cons [of e es] add.assoc del: replies_in_simps(2-3))
qed simp

lemma multi_issued:
  "set (issued s) \<subseteq> {ping_content ''some content'' (endpoint s) 3533 1111} \<Longrightarrow>
     set (issued (fold multi_step es s)) \<subseteq> {ping_content ''some content'' (endpoint s) 3533 1111}"
proof (induction es arbitrary: s)
  case (Cons e es)
  have "set (issued (multi_step e s)) \<subseteq> {ping_content ''some content'' (endpoint s) 3533 1111}"
    "endpoint (multi_step e s) = endpoint s"
    using Cons.prems by (cases e; simp)+
  with Cons.IH [of "multi_step e s"] show ?case by simp
qed simp

lemma multi_issued_grows: "set (issued s) \<subseteq> set (issued (fold multi_step es s))"
proof (induction es arbitrary: s)
  case (Cons e es)
  have "set (issued s) \<subseteq> set (issued (multi_step e s))" by (cases e) auto
  with Cons [of "multi_step e s"] show ?case by simp
qed simp

text \<open>
  The counter is the number of replies as long as it has not wrapped, and it cannot wrap unseen when
  no sleep brings more than \<open>2 ^ 16 - n\<close> replies.
\<close>

lemma multi_loop_counts:
  assumes "num_pings s = of_nat seen" "seen < 2 ^ 16" "\<forall>es \<in> set sleeps. replies_in es \<le> 2 ^ 16 - unat n"
  shows "multi_loop n sleeps s =
     (case find (\<lambda>k. unat n \<le> seen + replies_in (concat (take k sleeps))) [0..<Suc (length sleeps)] of
        None \<Rightarrow> None
      | Some k \<Rightarrow> Some (fold multi_step (concat (take k sleeps)) s))"
  using assms
proof (induction sleeps arbitrary: s seen)
  case Nil
  have c: "unat (num_pings s) = seen" unfolding Nil(1) using Nil(2) by (simp add: unat_of_nat)
  show ?case
  proof (cases "unat n \<le> seen")
    case True
    with multi_loop_cases(1) [of n s "[]"] c show ?thesis by simp
  next
    case False
    with multi_loop_cases(2) [of s n] c show ?thesis by simp
  qed
next
  case (Cons es sleeps)
  have c: "unat (num_pings s) = seen" unfolding Cons.prems(1) using Cons.prems(2) by (simp add: unat_of_nat)
  let ?P = "\<lambda>sl k. unat n \<le> seen + replies_in (concat (take k sl))"
  have upt: "[0..<Suc (length (es # sleeps))] = 0 # map Suc [0..<Suc (length sleeps)]"
    by (simp add: map_Suc_upt upt_conv_Cons del: upt_Suc)
  show ?case
  proof (cases "unat n \<le> seen")
    case True
    then have f: "find (?P (es # sleeps)) [0..<Suc (length (es # sleeps))] = Some 0" unfolding upt by simp
    have "multi_loop n (es # sleeps) s = Some s" using True c by (intro multi_loop_cases(1)) simp
    then show ?thesis unfolding f by simp
  next
    case False
    let ?s = "fold multi_step es s" and ?seen = "seen + replies_in es"
    have small: "?seen < 2 ^ 16" using False Cons.prems(3) unsigned_less [of n, where 'a = nat] by auto
    have "num_pings ?s = of_nat ?seen" using Cons.prems(1) by (simp add: multi_steps)
    note IH = Cons.IH [OF this small]
    have loop: "multi_loop n (es # sleeps) s = multi_loop n sleeps ?s"
      using False c by (intro multi_loop_cases(3)) simp
    have "find (?P (es # sleeps)) [0..<Suc (length (es # sleeps))] =
        map_option Suc (find (\<lambda>k. unat n \<le> ?seen + replies_in (concat (take k sleeps))) [0..<Suc (length sleeps)])"
      unfolding upt using False by (simp add: find_map add.assoc del: upt_Suc)
    note f = this
    have "\<forall>es \<in> set sleeps. replies_in es \<le> 2 ^ 16 - unat n" using Cons.prems(3) by simp
    from IH [OF this] show ?thesis
      unfolding loop f
      by (cases "find (\<lambda>k. unat n \<le> ?seen + replies_in (concat (take k sleeps))) [0..<Suc (length sleeps)]") simp_all
  qed
qed

text \<open>
  C29. \<open>multi_ping\<close> ends: if no sleep brings more than \<open>2 ^ 16 - n\<close> replies, so that its 16-bit
  counter does not pass \<open>n\<close> unseen, the loop ends after the first sleep by which \<open>n\<close> replies have
  come, and not before; all it has sent are its pings to the host, at most one more than the replies.
\<close>

theorem multi_ping_ends:
  fixes resolve :: "string \<Rightarrow> 'e result"
  assumes accepted: "multi_ping_command_line po argv (strings_only [''hostname'', ''log_dir'']) = (True, vars, out)"
    "multi_ping_arguments vars = Inr (hostname, n)" "resolve hostname = Inr endpt"
    and few: "\<forall>es \<in> set (first # sleeps). replies_in es \<le> 2 ^ 16 - unat n"
  shows "case find (\<lambda>k. unat n \<le> replies_in (first @ concat (take k sleeps))) [0..<Suc (length sleeps)] of
       None \<Rightarrow> multi_ping_main po resolve first sleeps argv = Inr None
     | Some k \<Rightarrow> \<exists>sent. multi_ping_main po resolve first sleeps argv =
           Inr (Some \<lparr>exit_code = 0, tool_output = map fst sent, tool_sent = map snd sent\<rparr>) \<and>
         set sent = {ping_content ''some content'' endpt 3533 1111} \<and>
         length sent \<le> Suc (replies_in (first @ concat (take k sleeps)))"
proof -
  let ?ping = "ping_content ''some content'' endpt 3533 1111"
  let ?s = "issue_ping (fold multi_step first (multi_init endpt))"
  have main: "multi_ping_main po resolve first sleeps argv =
      Inr (map_option (\<lambda>s. \<lparr>exit_code = 0, tool_output = map fst (issued s), tool_sent = map snd (issued s)\<rparr>) (multi_loop n sleeps ?s))"
    using accepted by (simp add: multi_ping_main_def)
  have s: "num_pings ?s = of_nat (replies_in first)" "endpoint ?s = endpt"
    "length (issued ?s) + threads ?s = Suc (replies_in first)"
    by (simp_all add: multi_steps multi_init_def)
  have sent: "set (issued ?s) = {?ping}"
    using multi_issued [of "multi_init endpt" first] by (auto simp: multi_init_def multi_steps)
  have after: "set (issued (fold multi_step es ?s)) = {?ping}"
    "length (issued (fold multi_step es ?s)) \<le> Suc (replies_in (first @ es))" for es
  proof -
    have "set (issued ?s) \<subseteq> set (issued (fold multi_step es ?s))" by (rule multi_issued_grows)
    with multi_issued [of ?s es] sent s(2) show "set (issued (fold multi_step es ?s)) = {?ping}" by auto
    show "length (issued (fold multi_step es ?s)) \<le> Suc (replies_in (first @ es))"
      using multi_steps [of es ?s] s(3) by simp
  qed
  have loop: "multi_loop n sleeps ?s =
      (case find (\<lambda>k. unat n \<le> replies_in (first @ concat (take k sleeps))) [0..<Suc (length sleeps)] of
         None \<Rightarrow> None | Some k \<Rightarrow> Some (fold multi_step (concat (take k sleeps)) ?s))"
  proof (cases "n = 0")
    case True
    then show ?thesis by (simp add: multi_loop_cases(1) upt_conv_Cons del: upt_Suc)
  next
    case False
    then have "0 < unat n" by (simp add: unat_gt_0)
    moreover have "replies_in first \<le> 2 ^ 16 - unat n" using few by simp
    ultimately have "replies_in first < 2 ^ 16" by (meson diff_less le_less_trans zero_less_numeral zero_less_power)
    with multi_loop_counts [OF s(1) this, of sleeps n] few show ?thesis by (simp del: upt_Suc)
  qed
  show ?thesis
    unfolding main loop using after by (auto simp del: upt_Suc split: option.splits)
qed

text \<open>Otherwise it may wait for ever, although enough replies have come.\<close>

lemma multi_ping_misses:
  assumes "n \<noteq> 0" "num_pings s = 0" "replies_in es = 2 ^ 16"
  shows "multi_loop n (es # replicate k []) s = None"
proof -
  have n: "0 < unat n" using assms(1) by (simp add: unat_gt_0)
  have quiet: "num_pings t = 0 \<Longrightarrow> multi_loop n (replicate k []) t = None" for t :: "'a multi_subscriber"
    using n by (induction k) (simp_all add: multi_loop_cases)
  have "num_pings (fold multi_step es s) = 0" using assms(2,3) by (simp add: multi_steps)
  with quiet n assms(2) show ?thesis by (simp add: multi_loop_cases)
qed

theorem multi_ping_ends_witness:
  "\<exists>sent. multi_ping_main example_options Inr [] [[Reply], [Issue, Reply], []]
       [''multi_ping'', ''hostname'', ''localhost'', ''log-dir'', ''/tmp'', ''num-pings'', ''2''] =
         Inr (Some \<lparr>exit_code = 0, tool_output = map fst sent, tool_sent = map snd sent\<rparr>) \<and>
     set sent = {ping_content ''some content'' ''localhost'' 3533 1111} \<and> length sent \<le> 3"
proof -
  let ?argv = "[''multi_ping'', ''hostname'', ''localhost'', ''log-dir'', ''/tmp'', ''num-pings'', ''2'']"
  have "case multi_ping_command_line example_options ?argv (strings_only [''hostname'', ''log_dir'']) of
      (accepted, vars, out) \<Rightarrow> accepted \<and> multi_ping_arguments vars = Inr (''localhost'', 2)"
    by code_simp
  then obtain vars out where vars:
    "multi_ping_command_line example_options ?argv (strings_only [''hostname'', ''log_dir'']) = (True, vars, out)"
    "multi_ping_arguments vars = Inr (''localhost'', 2)"
    by (auto split: prod.splits)
  have two: "unat (2 :: u16) = 2" by simp
  show ?thesis
    using multi_ping_ends [OF vars, of Inr "''localhost''" "[]" "[[Reply], [Issue, Reply], []]"]
    by (simp add: upt_rec numeral_3_eq_3)
qed

end
