(* ===== verification/DuplicateFs.thy ===== *)
theory DuplicateFs
  imports PingFs
begin

text \<open>
  \<open>app/duplicate_ping_fs.cc\<close>: \<open>BlockFuse\<close> over a \<open>DuplicatePingBlockManager\<close>, which puts each
  block under way a second time after a while. The threads that wait to do so wake while a request
  waits; a thread that wakes between the calls may as well wake when the next request waits.
\<close>

section \<open>The manager with its threads\<close>

text \<open>
  The state adds the threads that sleep. The thread of a block only sends it once more
  (\<open>delayed_send\<close>), so it is represented by the block.
\<close>

record 'i duplicate_system =
  pings :: "'i ping_system"
  sleeping :: "block list"

definition dup_create_block ::
  "'i id_supplier \<Rightarrow> translator \<Rightarrow> block_data \<Rightarrow> 'i duplicate_system \<Rightarrow>
     (block \<times> 'i duplicate_system) result" where
  "dup_create_block supplier tr data s =
     bind_result (duplicate_create_block supplier tr data (pings s)) (\<lambda>((ptr, thread), p).
       Inr (ptr, s\<lparr>pings := p, sleeping := sleeping s @ [ptr]\<rparr>))"

definition dup_free_block :: "block_id \<Rightarrow> 'i duplicate_system \<Rightarrow> 'i duplicate_system" where
  "dup_free_block block_id s = s\<lparr>pings := ping_free_block block_id (pings s)\<rparr>"

text \<open>
  Which threads wake is an argument, as what comes by: an event \<open>Resend b\<close> takes place if a
  thread sleeps that sends \<open>b\<close>. \<open>wake\<close> gives the events that take place and the threads that
  still sleep.
\<close>

fun wake :: "ping_event list \<Rightarrow> block list \<Rightarrow> ping_event list \<times> block list" where
  "wake [] bs = ([], bs)"
| "wake (Resend b # es) bs =
     (if b \<in> set bs then (case wake es (remove1 b bs) of (es', bs') \<Rightarrow> (Resend b # es', bs'))
      else wake es bs)"
| "wake (e # es) bs = (case wake es bs of (es', bs') \<Rightarrow> (e # es', bs'))"

type_synonym 'i duplicate_network = "block_request \<Rightarrow> 'i duplicate_system \<Rightarrow> ping_event list"

definition dup_get_blocks ::
  "'i id_supplier \<Rightarrow> translator \<Rightarrow> 'i duplicate_network \<Rightarrow> block_request \<Rightarrow> 'i duplicate_system \<Rightarrow>
     (block_response \<times> 'i duplicate_system) result" where
  "dup_get_blocks supplier tr network request s =
     (let (es, bs) = wake (network request s) (sleeping s)
      in bind_result (ping_get_blocks supplier tr (\<lambda>_ _. es) request (pings s)) (\<lambda>(response, p).
           Inr (response, s\<lparr>pings := p, sleeping := bs\<rparr>)))"

definition DuplicatePingBlockManager ::
  "'i id_supplier \<Rightarrow> translator \<Rightarrow> 'i duplicate_network \<Rightarrow> 'i duplicate_system block_manager" where
  "DuplicatePingBlockManager supplier tr network =
     \<lparr>bm_create = dup_create_block supplier tr, bm_free = dup_free_block,
      bm_get = dup_get_blocks supplier tr network\<rparr>"

text \<open>\<open>main\<close> after the command line is parsed; \<open>delay_ms\<close> only moves the wakings.\<close>

definition duplicate_main ::
  "nat \<Rightarrow> os_env \<Rightarrow> (block_proto \<Rightarrow> string) \<Rightarrow> (string \<Rightarrow> block_proto) \<Rightarrow> counter duplicate_network \<Rightarrow>
     'b fuse_call list \<Rightarrow> ('b fuse_reply list \<times> counter duplicate_system) result" where
  "duplicate_main fuel env serialize parse network calls =
     (let block_manager = DuplicatePingBlockManager CounterSupplier (PassThroughTranslator serialize parse) network;
          s = \<lparr>pings = system_start counter_init (fst (gen_block_service 0)), sleeping = []\<rparr>
      in bind_result (BlockFuse_init block_manager env (ucast FS_ID) s) (\<lambda>f.
         bind_result (wrapper_run (Some (BlockFuse_object fuel block_manager
             (BlockFuse_methods block_manager) env)) calls f)
           (\<lambda>(rs, f'). Inr (rs, store f'))))"

section \<open>The manager is like the ideal store\<close>

definition dup_in_time :: "translator \<Rightarrow> 'i duplicate_network \<Rightarrow> bool" where
  "dup_in_time tr network \<longleftrightarrow>
     (\<forall>ids s. async (pings s) = async_init \<and> distinct ids \<and> (\<forall>i \<in> set ids. \<exists>d. ping_holds tr (pings s) i d) \<longrightarrow>
       traffic (\<lambda>_. True) (network ids s) \<and>
       set ids \<subseteq> get_id ` set (passing tr (fst (wake (network ids s) (sleeping s))) (pings s)))"

definition dup_in_order :: "translator \<Rightarrow> 'i duplicate_network \<Rightarrow> bool" where
  "dup_in_order tr network \<longleftrightarrow>
     (\<forall>ids s. async (pings s) = async_init \<and> distinct ids \<and> (\<forall>i \<in> set ids. \<exists>d. ping_holds tr (pings s) i d) \<longrightarrow>
       traffic (\<lambda>_. True) (network ids s) \<and>
       map get_id (firsts (set ids) (passing tr (fst (wake (network ids s) (sleeping s))) (pings s))) = ids)"

definition dup_serves ::
  "translator \<Rightarrow> 'i duplicate_network \<Rightarrow> os_env \<Rightarrow> 'b fuse_call list \<Rightarrow> fs \<Rightarrow> bool" where
  "dup_serves tr network env calls a \<longleftrightarrow>
     dup_in_order tr network \<or> dup_in_time tr network \<and> any_order_ok env calls a"

lemma wake_traffic:
  "traffic (\<lambda>_. True) es \<Longrightarrow> set bs \<subseteq> A \<Longrightarrow> traffic (\<lambda>b. b \<in> A) (fst (wake es bs))"
proof (induction es bs rule: wake.induct)
  case (2 b es bs)
  then have "set (remove1 b bs) \<subseteq> A" using set_remove1_subset [of b bs] by blast
  with 2 show ?case by (cases "b \<in> set bs") (auto simp: case_prod_beta)
qed (simp_all add: case_prod_beta)

lemma wake_sleeping: "set (snd (wake es bs)) \<subseteq> set bs"
proof (induction es bs rule: wake.induct)
  case (2 b es bs)
  then show ?case using set_remove1_subset [of b bs] by (cases "b \<in> set bs") (auto simp: case_prod_beta)
qed (simp_all add: case_prod_beta)

text \<open>The threads that sleep to send a block with the id.\<close>

definition asleep :: "block_id \<Rightarrow> block list \<Rightarrow> nat" where
  "asleep i bs = length (filter (\<lambda>b. get_id b = i) bs)"

lemma asleep_remove1:
  "b \<in> set bs \<Longrightarrow> asleep i bs = (if get_id b = i then 1 else 0) + asleep i (remove1 b bs)"
  by (induction bs) (auto simp: asleep_def)

lemma wake_asleep: "resends i (fst (wake es bs)) + asleep i (snd (wake es bs)) = asleep i bs"
proof (induction es bs rule: wake.induct)
  case (2 b es bs)
  then show ?case by (cases "b \<in> set bs") (auto simp: asleep_remove1 split: prod.split)
qed (auto split: prod.splits)

text \<open>
  The invariant: a block in use has two pings, under way or about to be sent, and any other block that
  was ever created has one, besides one that is to be taken out.
\<close>

definition dup_like :: "translator \<Rightarrow> (block \<Rightarrow> string) \<Rightarrow> counter duplicate_system \<Rightarrow> counter ideal_store \<Rightarrow> bool" where
  "dup_like tr body s a \<longleftrightarrow> misused a \<or>
     (like_ideal body False UNIV (\<lambda>_. True) (pings s) a \<and>
      (\<forall>b \<in> set (sleeping s). get_id b \<in> issued a \<and>
        (\<forall>d. ideal_blocks a (get_id b) = Some d \<longrightarrow> get_data b = d)) \<and>
      (\<forall>i \<in> issued a. (if ideal_blocks a i \<noteq> None \<or> i \<in> freed_ids (service (pings s)) then 2 else 1) \<le>
        copies tr i (pings s) + asleep i (sleeping s)) \<and>
      (ideal_ids a \<noteq> 0 \<longrightarrow> issued a = {0<..<ideal_ids a}))"

lemma copies_async: "copies tr i (s\<lparr>async := a\<rparr>) = copies tr i s"
  by (simp add: copies_def)

lemma like_ideal_circulating:
  assumes "like_ideal body single own P s a" and "\<not> misused a"
  obtains M where "circulating body M s" "async s = async_init" "kept single own (freed_ids (service s)) a M"
    "sys_ids s = ideal_ids a"
proof -
  from assms obtain M where "in_flight s = image_mset (request_for body (service s)) M" "async s = async_init"
    "kept single own (freed_ids (service s)) a M" "sys_ids s = ideal_ids a"
    by (auto simp: like_ideal_def)
  moreover from this have "circulating body M s"
    by (auto simp: circulating_def async_inv_def async_init_def intro!: exI [of _ "[]"])
  ultimately show thesis using that by blast
qed

lemma dup_free_like:
  assumes tr: "translator_ok tr body" and s: "dup_like tr body s a"
  shows "dup_like tr body (dup_free_block i s) (ideal_free i a)"
proof (cases "misused a \<or> ideal_blocks a i = None")
  case True
  then show ?thesis by (auto simp: dup_like_def ideal_free_def)
next
  case False
  have "copies tr j (ping_free_block i (pings s)) = copies tr j (pings s)"
    "freed_ids (service (ping_free_block i (pings s))) = insert i (freed_ids (service (pings s)))" for j
    by (simp_all add: copies_def ping_free_block_def track_free_block_def)
  moreover have "like_ideal body False UNIV (\<lambda>_. True) (ping_free_block i (pings s)) (ideal_free i a)"
    using s False by (intro free_like) (simp add: dup_like_def)
  ultimately show ?thesis using s False
    by (auto simp: dup_like_def ideal_free_def dup_free_block_def)
qed

lemma copies_send:
  assumes "translator_ok tr body"
  shows "copies tr i (s\<lparr>sys_ids := j, in_flight := add_mset (request_for body sv b) (in_flight s)\<rparr>) =
     copies tr i s + (if get_id b = i then 1 else 0)"
  using assms by (auto simp: copies_def echo_reply_request translator_ok_def)

lemma dup_create_like:
  assumes tr: "translator_ok tr body" and s: "dup_like tr body s a"
  shows "agree_with (dup_like tr body) (dup_create_block CounterSupplier tr d s) (ideal_create CounterSupplier d a)"
proof (cases "misused a \<or> ideal_ids a \<in> issued a \<or> ideal_ids a = 0")
  case True
  then show ?thesis
  proof (cases "misused a \<or> ideal_ids a \<noteq> 0")
    case True
    with \<open>misused a \<or> ideal_ids a \<in> issued a \<or> ideal_ids a = 0\<close> show ?thesis
      by (auto simp: ideal_create_def CounterSupplier_def counter_next_id_def agree_wait)
  next
    case False
    with s have "sys_ids (pings s) = 0" by (simp add: dup_like_def like_ideal_def)
    with False show ?thesis
      by (simp add: ideal_create_def dup_create_block_def duplicate_create_block_def ping_create_block_def
        CounterSupplier_def counter_next_id_def agree_Inl)
  qed
next
  case False
  let ?x = "ideal_ids a" and ?p = "pings s"
  let ?b = "mk_block ?x d"
  let ?q = "?p\<lparr>sys_ids := ?x + 1, in_flight := in_flight ?p + {#request_for body (service ?p) ?b#}\<rparr>"
  let ?a = "a\<lparr>ideal_ids := ?x + 1, issued := insert ?x (issued a), ideal_blocks := (ideal_blocks a)(?x \<mapsto> d)\<rparr>"
  note inv = s [unfolded dup_like_def] False
  have ids: "sys_ids ?p = ?x" using inv by (auto simp: like_ideal_def)
  have c: "ping_create_block CounterSupplier tr d ?p = Inr (?b, ?q)"
    using False ids by (simp add: ping_create_block_def register_block_def translate_request [OF tr] Let_def
        CounterSupplier_def counter_next_id_def)
  have i: "ideal_create CounterSupplier d a = Inr (?b, ?a)"
    using False by (simp add: ideal_create_def CounterSupplier_def counter_next_id_def)
  have "like_ideal body False UNIV (\<lambda>_. True) ?q ?a"
    using create_like [OF tr ids_in_counter, where s = ?p and a = a and d = d and single = False and supplier = CounterSupplier] inv c i
    by (auto simp: agree_def)
  moreover have "issued ?a = {0<..<?x + 1}" if "?x + 1 \<noteq> 0"
  proof -
    have "issued a = {0<..<?x}" using inv by auto
    moreover have "y < ?x + 1 \<longleftrightarrow> y < ?x \<or> y = ?x" for y
      using that unatSuc [of ?x] by (auto simp: word_less_nat_alt word_unat_eq_iff add.commute less_Suc_eq)
    ultimately show ?thesis using False by (auto simp: word_gt_0)
  qed
  moreover have "freed_ids (service ?p) \<subseteq> issued a" using inv by (auto simp: like_ideal_def kept_def)
  moreover have "(if ideal_blocks ?a i \<noteq> None \<or> i \<in> freed_ids (service ?p) then 2 else 1) \<le>
      copies tr i ?q + asleep i (sleeping s @ [?b])" if i: "i \<in> issued ?a" for i
  proof (cases "i = ?x")
    case True
    then show ?thesis by (simp add: copies_send [OF tr] asleep_def)
  next
    case False
    then have "(if ideal_blocks a i \<noteq> None \<or> i \<in> freed_ids (service ?p) then 2 else 1) \<le>
        copies tr i ?p + asleep i (sleeping s)" using i inv by auto
    with False show ?thesis by (simp add: copies_send [OF tr] asleep_def)
  qed
  moreover have "\<forall>b \<in> set (sleeping s @ [?b]). get_id b \<in> issued ?a \<and>
      (\<forall>e. ideal_blocks ?a (get_id b) = Some e \<longrightarrow> get_data b = e)"
    using inv by auto
  ultimately have "dup_like tr body (s\<lparr>pings := ?q, sleeping := sleeping s @ [?b]\<rparr>) ?a"
    unfolding dup_like_def by simp
  then show ?thesis
    by (simp add: i dup_create_block_def duplicate_create_block_def c agree_with_Inr)
qed

lemma ping_get_copies:
  assumes tr: "translator_ok tr body" and M: "circulating body M s"
    and es: "traffic ok es" and run: "ping_get_blocks supplier tr (\<lambda>_ _. es) ids s = Inr (r, t)"
  shows "copies tr i s + resends i es + (if i \<in> freed_ids (service t) then 1 else 0) \<le>
     copies tr i t + (if i \<in> freed_ids (service s) then 1 else 0)"
proof -
  from run obtain p a s2 where s2: "get_blocks_begin ids (async s) = Inr (p, a)"
    "ping_run supplier tr es (s\<lparr>async := a\<rparr>) = Inr s2" "t = s2\<lparr>async := release p (async s2)\<rparr>"
    by (auto simp: ping_get_blocks_def ping_get_begin_def result_simps split: option.splits)
  obtain hist where "async_inv hist (async s)" using M by (auto simp: circulating_def)
  from get_blocks_begin_inv [OF this, of ids] s2(1) have "async_inv (hist @ [(ids, [])]) a" by auto
  with M have M1: "circulating body M (s\<lparr>async := a\<rparr>)" by (auto simp: circulating_def)
  have "frees i es = 0" using es by (induction ok es rule: traffic.induct) auto
  with run_circulating [OF tr M1 s2(2), of i] obtain M' where M': "circulating body M' s2"
    "id_copies i M + resends i es + (if i \<in> freed_ids (service s2) then 1 else 0) \<le>
       id_copies i M' + (if i \<in> freed_ids (service s) then 1 else 0)" by auto
  with copies_circulating [OF tr M, of i] copies_circulating [OF tr M'(1), of i] show ?thesis
    by (simp add: s2(3) copies_async)
qed

lemma dup_holds:
  assumes "translator_ok tr body" and "dup_like tr body s a" and "\<not> misused a"
    and "\<forall>i \<in> set ids. ideal_blocks a i \<noteq> None"
  shows "async (pings s) = async_init \<and> (\<forall>i \<in> set ids. \<exists>d. ping_holds tr (pings s) i d)"
proof -
  have "like_ideal body False UNIV (\<lambda>_. True) (pings s) a" using assms(2,3) by (simp add: dup_like_def)
  from like_holds [OF assms(1) this assms(3,4)] show ?thesis .
qed

lemma dup_get_any:
  assumes tr: "translator_ok tr body" and s: "dup_like tr body s a"
    and a: "\<not> misused a" "distinct ids" "\<forall>i \<in> set ids. ideal_blocks a i \<noteq> None"
    and w: "wake (network ids s) (sleeping s) = (es, bs)"
    and n: "traffic (\<lambda>_. True) (network ids s)" "set ids \<subseteq> get_id ` set (passing tr es (pings s))"
  shows "\<exists>order s'. order = map get_id (firsts (set ids) (passing tr es (pings s))) \<and> mset order = mset ids \<and>
    dup_get_blocks CounterSupplier tr network ids s =
      Inr (map (\<lambda>i. Some (mk_block i (the (ideal_blocks a i)))) order, s') \<and> dup_like tr body s' a"
proof -
  note inv = s [unfolded dup_like_def]
  from a(1) inv have like: "like_ideal body False UNIV (\<lambda>_. True) (pings s) a" by simp
  obtain M where M: "circulating body M (pings s)" "async (pings s) = async_init"
    "kept False UNIV (freed_ids (service (pings s))) a M"
    by (rule like_ideal_circulating [OF like]) (use a(1) in auto)
  have es: "traffic (\<lambda>b. b \<in> set (sleeping s)) es"
    using wake_traffic [OF n(1) subset_refl, of "sleeping s"] w by simp
  have bs: "set bs \<subseteq> set (sleeping s)" using wake_sleeping [of "network ids s" "sleeping s"] w by simp
  let ?order = "map get_id (firsts (set ids) (passing tr es (pings s)))"
  have "\<exists>order p. order = ?order \<and> mset order = mset ids \<and> ping_get_blocks CounterSupplier tr (\<lambda>_ _. es) ids (pings s) =
      Inr (map (\<lambda>i. Some (mk_block i (the (ideal_blocks a i)))) order, p) \<and> like_ideal body False UNIV (\<lambda>_. True) p a"
    by (rule get_like_any [OF tr like a, where ok = "\<lambda>b. b \<in> set (sleeping s)"]) (use n es inv a(1) in auto)
  then obtain p where p: "ping_get_blocks CounterSupplier tr (\<lambda>_ _. es) ids (pings s) =
      Inr (map (\<lambda>i. Some (mk_block i (the (ideal_blocks a i)))) ?order, p)"
    "like_ideal body False UNIV (\<lambda>_. True) p a" "mset ?order = mset ids"
    by blast
  have "(if ideal_blocks a i \<noteq> None \<or> i \<in> freed_ids (service p) then 2 else 1) \<le> copies tr i p + asleep i bs"
    if i: "i \<in> issued a" for i
  proof -
    have "(if ideal_blocks a i \<noteq> None \<or> i \<in> freed_ids (service (pings s)) then 2 else 1) \<le>
        copies tr i (pings s) + asleep i (sleeping s)" using inv a(1) i by auto
    moreover have "resends i es + asleep i bs = asleep i (sleeping s)"
      using wake_asleep [of i "network ids s" "sleeping s"] w by simp
    moreover have "i \<notin> freed_ids (service (pings s))" if "ideal_blocks a i \<noteq> None"
      using keptD(4) [OF M(3)] that by blast
    ultimately show ?thesis using ping_get_copies [OF tr M(1) es p(1), of i] by (auto split: if_splits)
  qed
  then have "dup_like tr body (s\<lparr>pings := p, sleeping := bs\<rparr>) a"
    using inv a(1) p(2) bs by (auto simp: dup_like_def)
  then show ?thesis using p(3)
    by (intro exI [of _ ?order] exI [of _ "s\<lparr>pings := p, sleeping := bs\<rparr>"]) (simp add: dup_get_blocks_def w p(1))
qed

lemma dup_change:
  assumes "translator_ok tr body"
  shows "change_sim (DuplicatePingBlockManager CounterSupplier tr network) (IdealStore CounterSupplier)
     (dup_like tr body)"
  by unfold_locales
    (simp_all add: DuplicatePingBlockManager_def IdealStore_def dup_create_like [OF assms] dup_free_like [OF assms])

lemma dup_any_sim:
  assumes tr: "translator_ok tr body" and net: "dup_in_time tr network"
  shows "any_order_sim (DuplicatePingBlockManager CounterSupplier tr network) CounterSupplier (dup_like tr body)"
proof -
  have "\<exists>order s'. mset order = mset ids \<and> dup_get_blocks CounterSupplier tr network ids s =
      Inr (map (\<lambda>i. Some (mk_block i (the (ideal_blocks a i)))) order, s') \<and> dup_like tr body s' a"
    if s: "dup_like tr body s a" "\<not> misused a" "distinct ids" "\<forall>i \<in> set ids. ideal_blocks a i \<noteq> None" for ids s a
  proof -
    obtain es bs where w: "wake (network ids s) (sleeping s) = (es, bs)" by (cases "wake (network ids s) (sleeping s)")
    from net s(3) dup_holds [OF tr s(1,2,4)] have n: "traffic (\<lambda>_. True) (network ids s)"
      "set ids \<subseteq> get_id ` set (passing tr (fst (wake (network ids s) (sleeping s))) (pings s))"
      by (auto simp: dup_in_time_def)
    from dup_get_any [where network = network, OF tr s w n(1) n(2) [unfolded w fst_conv]] show ?thesis by blast
  qed
  with dup_change [OF tr] show ?thesis
    by (simp add: any_order_sim_def any_order_sim_axioms_def DuplicatePingBlockManager_def)
qed

lemma dup_sim:
  assumes tr: "translator_ok tr body" and net: "dup_in_order tr network"
  shows "manager_sim (DuplicatePingBlockManager CounterSupplier tr network) (IdealStore CounterSupplier)
     (dup_like tr body)"
proof -
  have "agree_with (dup_like tr body) (dup_get_blocks CounterSupplier tr network ids s) (ideal_get ids a)"
    if s: "dup_like tr body s a" for ids s a
  proof (cases "\<not> misused a \<and> distinct ids \<and> (\<forall>i \<in> set ids. ideal_blocks a i \<noteq> None)")
    case True
    then have a: "\<not> misused a" "distinct ids" "\<forall>i \<in> set ids. ideal_blocks a i \<noteq> None" by simp_all
    obtain es bs where w: "wake (network ids s) (sleeping s) = (es, bs)" by (cases "wake (network ids s) (sleeping s)")
    from net a(2) dup_holds [OF tr s a(1,3)] have n: "traffic (\<lambda>_. True) (network ids s)"
      "map get_id (firsts (set ids) (passing tr (fst (wake (network ids s) (sleeping s))) (pings s))) = ids"
      by (auto simp: dup_in_order_def)
    note order = n(2) [unfolded w fst_conv]
    from dup_get_any [where network = network, OF tr s a w n(1) firsts_cover [OF order]] True show ?thesis
      unfolding order by (auto simp: ideal_get_def agree_with_Inr)
  qed (auto simp: ideal_get_def agree_wait)
  then show ?thesis using dup_change [OF tr]
    by (simp add: manager_sim_def manager_sim_axioms_def DuplicatePingBlockManager_def IdealStore_def)
qed

lemma dup_served:
  assumes "translator_ok tr body" and "dup_serves tr network env calls a"
  shows "served (DuplicatePingBlockManager CounterSupplier tr network) CounterSupplier (dup_like tr body) env calls a"
  using assms dup_change [OF assms(1)] dup_sim [OF assms(1)] dup_any_sim [OF assms(1)]
  by (auto simp: served_def dup_serves_def)

section \<open>What the program does\<close>

text \<open>
  C20. The file system with duplicate pings answers as the abstract file system, errors included,
  whatever else comes by and whenever the threads wake, if the first pings of the blocks of each
  request come by in the order in which they were asked for, or in any order if the calls write files
  of at most one block and list directories with fillers that commute. But it gives no block back: every id
  that was ever handed out, to blocks that were freed long ago too, still has a ping under way or
  about to be sent.
\<close>

theorem duplicate_program:
  assumes codec: "\<forall>b. parse (serialize (block_gen_proto b)) = block_gen_proto b"
    and net: "dup_serves (PassThroughTranslator serialize parse) network env calls (spec_init env 55)"
    and ok: "run_ok env fuel (2 ^ 64 - 2) calls (spec_init env 55)"
  shows "case spec_run env calls (spec_init env 55) of
       Inl e \<Rightarrow> duplicate_main fuel env serialize parse network calls = Inl e
     | Inr (rs, a') \<Rightarrow> \<exists>s. duplicate_main fuel env serialize parse network calls = Inr (rs, s) \<and>
         (\<forall>i. 0 < i \<and> i < sys_ids (pings s) \<longrightarrow>
           1 \<le> copies (PassThroughTranslator serialize parse) i (pings s) + asleep i (sleeping s))"
proof -
  let ?tr = "PassThroughTranslator serialize parse" and ?body = "\<lambda>b. serialize (block_gen_proto b)"
  let ?bm = "DuplicatePingBlockManager CounterSupplier ?tr network"
  let ?s = "\<lparr>pings = system_start counter_init (fst (gen_block_service 0)), sleeping = []\<rparr>"
  note tr = PassThroughTranslator_ok [OF codec]
  have start: "dup_like ?tr ?body ?s (ideal_start counter_init)"
    using like_ideal_start [OF gen_block_service_fresh, where body = ?body and single = False and own = UNIV
        and P = "\<lambda>_. True" and i = counter_init]
    by (auto simp: dup_like_def ideal_start_def counter_init_def)
  have room: "0 < counter_remaining counter_init" "run_ok env fuel (counter_remaining counter_init - 1) calls (spec_init env 55)"
    using ok by (simp_all add: counter_room)
  let ?run = "plain_program fuel env calls 55 ?bm ?s"
  have main: "duplicate_main fuel env serialize parse network calls =
      bind_result ?run (\<lambda>(rs, f). Inr (rs, store f))"
    by (simp add: duplicate_main_def plain_program_def Let_def FS_ID_dev bind_result_assoc)
  note prog = simulated_program [OF dup_served [OF tr net] counter.id_supply_axioms start room]
  show ?thesis
  proof (cases "spec_run env calls (spec_init env 55)")
    case (Inl e)
    with prog main show ?thesis by simp
  next
    case (Inr p)
    obtain rs a' where p: "p = (rs, a')" by (cases p)
    from prog Inr p obtain f m where f: "?run = Inr (rs, f)" "dup_like ?tr ?body (store f) m" "\<not> misused m" by auto
    have "1 \<le> copies ?tr i (pings (store f)) + asleep i (sleeping (store f))"
      if "0 < i" "i < sys_ids (pings (store f))" for i
    proof -
      have "sys_ids (pings (store f)) = ideal_ids m" using f(2,3) by (auto simp: dup_like_def like_ideal_def)
      then have "i \<in> issued m" using f(2,3) that by (auto simp: dup_like_def)
      then show ?thesis using f(2,3) by (force simp: dup_like_def split: if_splits)
    qed
    with Inr p main f(1) show ?thesis by simp
  qed
qed

text \<open>A network in order: every thread wakes, then the blocks come by as they were asked for.\<close>

definition wake_then_one_by_one :: "translator \<Rightarrow> 'i duplicate_network" where
  "wake_then_one_by_one tr ids s = map Resend (sleeping s) @ one_by_one tr ids (pings s)"

lemma wake_all: "wake (map Resend bs @ map Pass rs) bs = (map Resend bs @ map Pass rs, [])"
proof -
  have "wake (map Pass rs) [] = (map Pass rs, [])" by (induction rs) simp_all
  then show ?thesis by (induction bs) simp_all
qed

lemma passing_resend:
  fixes s :: "'i ping_system"
  shows "\<exists>t :: 'i ping_system. passing tr (map Resend bs @ es) s = passing tr es t \<and> async t = async s \<and> in_flight s \<subseteq># in_flight t"
proof (induction bs arbitrary: s)
  case (Cons b bs)
  from Cons.IH [of "delayed_send tr b s"] obtain t :: "'i ping_system" where
    "passing tr (map Resend bs @ es) (delayed_send tr b s) = passing tr es t"
    "async t = async (delayed_send tr b s)" "in_flight (delayed_send tr b s) \<subseteq># in_flight t"
    by blast
  moreover have "in_flight s \<subseteq># in_flight (delayed_send tr b s)" "async (delayed_send tr b s) = async s"
    by (simp_all add: delayed_send_def)
  ultimately show ?case by (auto intro: subset_mset.order_trans)
qed auto

lemma wake_then_one_by_one_in_order: "dup_in_order tr (wake_then_one_by_one tr)"
proof -
  have "traffic (\<lambda>_. True) (wake_then_one_by_one tr ids s) \<and>
      map get_id (firsts (set ids) (passing tr (fst (wake (wake_then_one_by_one tr ids s) (sleeping s))) (pings s))) = ids"
    if s: "async (pings s) = async_init" "distinct ids" "\<forall>i \<in> set ids. \<exists>d. ping_holds tr (pings s) i d"
    for ids and s :: "'a duplicate_system"
  proof -
    let ?r = "\<lambda>i. SOME req. req \<in># in_flight (pings s) \<and>
        (\<exists>d. from_response tr (echo_reply req) = Inr (mk_block i d))"
    have es: "wake_then_one_by_one tr ids s = map Resend (sleeping s) @ map Pass (map ?r ids)"
      by (simp add: wake_then_one_by_one_def one_by_one_def)
    have "traffic (\<lambda>_. True) (map Resend bs @ map Pass rs)" for bs rs
      by (induction bs; induction rs) simp_all
    moreover obtain t :: "'a ping_system" where t: "passing tr (map Resend (sleeping s) @ map Pass (map ?r ids)) (pings s) =
        passing tr (map Pass (map ?r ids)) t" "async t = async_init" "in_flight (pings s) \<subseteq># in_flight t"
      using passing_resend [of tr "sleeping s" "map Pass (map ?r ids)" "pings s"] s(1) by auto
    have "\<forall>i \<in> set ids. ?r i \<in># in_flight t \<and> (\<exists>d. from_response tr (echo_reply (?r i)) = Inr (mk_block i d))"
    proof
      fix i assume "i \<in> set ids"
      then have "\<exists>req. req \<in># in_flight (pings s) \<and> (\<exists>d. from_response tr (echo_reply req) = Inr (mk_block i d))"
        using s(3) unfolding ping_holds_def by blast
      then have "?r i \<in># in_flight (pings s) \<and> (\<exists>d. from_response tr (echo_reply (?r i)) = Inr (mk_block i d))"
        by (rule someI_ex)
      then show "?r i \<in># in_flight t \<and> (\<exists>d. from_response tr (echo_reply (?r i)) = Inr (mk_block i d))"
        using t(3) by (auto dest: mset_subset_eqD)
    qed
    from passing_chosen [OF t(2) s(2) this]
    have ids: "map get_id (passing tr (map Pass (map ?r ids)) t) = ids" by (simp add: comp_def)
    let ?bs = "passing tr (map Pass (map ?r ids)) t"
    have "get_id ` set ?bs = set ids" using arg_cong [OF ids, of set] by simp
    then have "firsts (set ids) ?bs = ?bs" using firsts_all [of ?bs] ids s(2) by simp
    ultimately show ?thesis using ids t(1) by (simp add: es wake_all del: map_map)
  qed
  then show ?thesis unfolding dup_in_order_def by blast
qed

theorem duplicate_program_witness:
  "\<exists>s. duplicate_main 9 example_env example_serialize example_parse
     (wake_then_one_by_one (PassThroughTranslator example_serialize example_parse))
     [Mkdir ''/d'' 0x1ED, Create ''/d/f'' 0x81A4, Rmdir ''/d'' :: unit fuse_call] =
       Inr ([Code 0, Code 0, Code 0], s) \<and>
     (\<forall>i. 0 < i \<and> i < sys_ids (pings s) \<longrightarrow>
       1 \<le> copies (PassThroughTranslator example_serialize example_parse) i (pings s) + asleep i (sleeping s))"
proof -
  let ?calls = "[Mkdir ''/d'' 0x1ED, Create ''/d/f'' 0x81A4, Rmdir ''/d'' :: unit fuse_call]"
  have "run_ok example_env 9 100 ?calls (spec_init example_env 55)" by code_simp
  then have ok: "run_ok example_env 9 (2 ^ 64 - 2) ?calls (spec_init example_env 55)"
    by (rule run_ok_mono) simp
  have run: "map_sum id fst (spec_run example_env ?calls (spec_init example_env 55)) =
      Inr [Code 0, Code 0, Code 0]" by code_simp
  have codec: "\<forall>b. example_parse (example_serialize (block_gen_proto b)) = block_gen_proto b"
    by (simp add: example_codec)
  have net: "dup_serves (PassThroughTranslator example_serialize example_parse)
      (wake_then_one_by_one (PassThroughTranslator example_serialize example_parse)) example_env ?calls
      (spec_init example_env 55)"
    by (simp add: dup_serves_def wake_then_one_by_one_in_order)
  show ?thesis
    using duplicate_program [OF codec net ok] run
    by (cases "spec_run example_env ?calls (spec_init example_env 55)") auto
qed

end
