(* ===== verification/Log.thy ===== *)
theory Log
  imports Prelude
begin

text \<open>
  The log (\<open>log.hpp\<close>). A \<open>Log\<close> is its level and the text written to its stream; the static
  instance is a pointer that is null until one of the \<open>init\<close> functions was called. Arguments of
  a message are the texts the stream operators make of them, and \<open>stamp\<close> is what
  \<open>std::put_time\<close> makes of the time. The mutex makes a message one step.
\<close>

section \<open>Levels\<close>

datatype log_level = DEBUG | INFO | ERROR

text \<open>The values of an \<open>enum class\<close> are compared by their numbers.\<close>

fun level_number :: "log_level \<Rightarrow> nat" where
  "level_number DEBUG = 0"
| "level_number INFO = 1"
| "level_number ERROR = 2"

instantiation log_level :: linorder
begin

definition less_eq_log_level :: "log_level \<Rightarrow> log_level \<Rightarrow> bool" where
  "less_eq_log_level a b \<longleftrightarrow> level_number a \<le> level_number b"

definition less_log_level :: "log_level \<Rightarrow> log_level \<Rightarrow> bool" where
  "less_log_level a b \<longleftrightarrow> level_number a < level_number b"

instance
proof
  fix a b :: log_level
  assume "a \<le> b" "b \<le> a"
  then show "a = b" by (cases a; cases b) (simp_all add: less_eq_log_level_def)
qed (auto simp: less_eq_log_level_def less_log_level_def)

end

section \<open>Messages\<close>

record log =
  ostream :: string
  min_level :: log_level

definition log_init :: "string \<Rightarrow> log_level \<Rightarrow> log option" where
  "log_init stream level = Some \<lparr>ostream = stream, min_level = level\<rparr>"

fun log_internal :: "string list \<Rightarrow> log \<Rightarrow> log" where
  "log_internal [] l = l"
| "log_internal (first # args) l = log_internal args (l\<lparr>ostream := ostream l @ first\<rparr>)"

fun level_prefix :: "log_level \<Rightarrow> string" where
  "level_prefix DEBUG = ''[DEBUG] ''"
| "level_prefix INFO = ''[INFO] ''"
| "level_prefix ERROR = ''[ERROR] ''"

definition log_with_level_internal :: "log_level \<Rightarrow> string \<Rightarrow> string list \<Rightarrow> log \<Rightarrow> log" where
  "log_with_level_internal level stamp args l =
     (if level < min_level l then l
      else let l1 = l\<lparr>ostream := ostream l @ level_prefix level\<rparr>;
               l2 = l1\<lparr>ostream := ostream l1 @ stamp @ '': ''\<rparr>;
               l3 = log_internal args l2
           in l3\<lparr>ostream := ostream l3 @ [CHR 0x0A]\<rparr>)"

definition log_with_level ::
  "log_level \<Rightarrow> string \<Rightarrow> string list \<Rightarrow> log option \<Rightarrow> log option result" where
  "log_with_level level stamp args instance_ptr =
     bind_result (deref instance_ptr) (\<lambda>l. Inr (Some (log_with_level_internal level stamp args l)))"

primrec log_run :: "(log_level \<times> string \<times> string list) list \<Rightarrow> log option \<Rightarrow> log option result" where
  "log_run [] instance_ptr = Inr instance_ptr"
| "log_run (m # ms) instance_ptr =
     (case m of (level, stamp, args) \<Rightarrow>
        bind_result (log_with_level level stamp args instance_ptr) (\<lambda>i. log_run ms i))"

section \<open>What is in the log\<close>

fun log_line :: "log_level \<times> string \<times> string list \<Rightarrow> string" where
  "log_line (level, stamp, args) = level_prefix level @ stamp @ '': '' @ concat args @ [CHR 0x0A]"

lemma log_internal_text: "log_internal args l = l\<lparr>ostream := ostream l @ concat args\<rparr>"
  by (induction args arbitrary: l) simp_all

lemma log_message:
  "log_with_level_internal level stamp args l =
     l\<lparr>ostream := ostream l @ (if min_level l \<le> level then log_line (level, stamp, args) else [])\<rparr>"
  by (simp add: log_with_level_internal_def log_internal_text not_less [symmetric])

text \<open>
  From its first message on the log holds one line for each message of its level or above, in order;
  a message before \<open>init\<close> dereferences the null instance.
\<close>

theorem log_lines:
  "log_run ms (log_init stream lv) =
     Inr (Some \<lparr>ostream = stream @ concat (map log_line (filter (\<lambda>(level, _). lv \<le> level) ms)), min_level = lv\<rparr>)"
  "log_run (m # ms) None = Inl Null_Deref"
proof -
  show "log_run (m # ms) None = Inl Null_Deref" by (cases m) (simp add: log_with_level_def)
  show "log_run ms (log_init stream lv) =
      Inr (Some \<lparr>ostream = stream @ concat (map log_line (filter (\<lambda>(level, _). lv \<le> level) ms)), min_level = lv\<rparr>)"
  proof (induction ms arbitrary: stream)
    case (Cons m ms)
    obtain level stamp args where m: "m = (level, stamp, args)" by (cases m)
    show ?case
      using Cons [of "stream @ (if lv \<le> level then log_line m else [])"]
      unfolding m
      by (cases "lv \<le> level") (simp_all add: log_with_level_def log_init_def log_message del: log_line.simps)
  qed (simp add: log_init_def)
qed

end
