(* ===== verification/FuseLog.thy ===== *)
theory FuseLog
  imports FuseWrapper Log
begin

text \<open>
  The messages of the FUSE callbacks (\<open>fuse_wrapper.cc\<close>), the only ones the library logs: each
  callback logs its name and path before it forwards the call. \<open>stamp\<close> is the time of a message.
\<close>

fun callback_name :: "'b fuse_call \<Rightarrow> string" where
  "callback_name (Getattr path stbuf) = ''getattr: ''"
| "callback_name (Mkdir path m) = ''mkdir: ''"
| "callback_name (Rmdir path) = ''rmdir: ''"
| "callback_name (Unlink path) = ''unlink: ''"
| "callback_name (Readdir path buf filler) = ''readdir: ''"
| "callback_name (Read path sz offset) = ''read: ''"
| "callback_name (Write path buffer sz offset) = ''write: ''"
| "callback_name (Create path m) = ''create: ''"

definition logged_call ::
  "('f, 'b) fuse_object option \<Rightarrow> string \<times> 'b fuse_call \<Rightarrow> log option \<Rightarrow> 'f \<Rightarrow>
     (('b fuse_reply \<times> log option) \<times> 'f) result" where
  "logged_call w sc instance_ptr f =
     (case sc of (stamp, c) \<Rightarrow>
        bind_result (log_with_level DEBUG stamp [callback_name c, call_path c] instance_ptr) (\<lambda>instance_ptr'.
        bind_result (wrapper_call w c f) (\<lambda>(r, f'). Inr ((r, instance_ptr'), f'))))"

fun logged_run ::
  "('f, 'b) fuse_object option \<Rightarrow> (string \<times> 'b fuse_call) list \<Rightarrow> log option \<Rightarrow> 'f \<Rightarrow>
     (('b fuse_reply list \<times> log option) \<times> 'f) result" where
  "logged_run w [] instance_ptr f = Inr (([], instance_ptr), f)"
| "logged_run w (sc # scs) instance_ptr f =
     bind_result (logged_call w sc instance_ptr f) (\<lambda>((r, instance_ptr'), f').
       bind_result (logged_run w scs instance_ptr' f') (\<lambda>((rs, instance_ptr''), f'').
         Inr ((r # rs, instance_ptr''), f'')))"

definition call_line :: "string \<times> 'b fuse_call \<Rightarrow> string" where
  "call_line sc = (case sc of (stamp, c) \<Rightarrow> log_line (DEBUG, stamp, [callback_name c, call_path c]))"

lemma logged_call_eq:
  "logged_call w sc (Some l) f =
     bind_result (wrapper_call w (snd sc) f) (\<lambda>(r, f').
       Inr ((r, Some (l\<lparr>ostream := ostream l @ (if min_level l \<le> DEBUG then call_line sc else [])\<rparr>)), f'))"
  by (cases sc) (simp add: logged_call_def log_with_level_def log_message call_line_def del: log_line.simps)

text \<open>
  Logging does not change what a run returns: it is the run of the callbacks alone, and when it
  returns, a log of level \<open>DEBUG\<close> has one line for each call, in order, and a log of a higher
  level, as that of \<open>in_memory\<close>, nothing; without a log the first call dereferences a null pointer.
\<close>

theorem logged_run_eq:
  "logged_run w scs (Some l) f =
     bind_result (wrapper_run w (map snd scs) f) (\<lambda>(rs, f').
       Inr ((rs, Some (l\<lparr>ostream := ostream l @ (if min_level l \<le> DEBUG then concat (map call_line scs) else [])\<rparr>)), f'))"
proof (induction scs arbitrary: l f)
  case (Cons sc scs)
  show ?case
  proof (cases "wrapper_call w (snd sc) f")
    case (Inr p)
    obtain r f' where p: "p = (r, f')" by (cases p)
    show ?thesis
      unfolding logged_run.simps logged_call_eq Inr p
      by (cases "wrapper_run w (map snd scs) f'") (simp_all add: Cons Inr p split: prod.splits)
  qed (simp add: logged_call_eq)
qed simp

lemma logged_run_no_log: "logged_run w (sc # scs) None f = Inl Null_Deref"
  by (cases sc) (simp add: logged_call_def log_with_level_def)

end
