(* ===== verification/Programs.thy ===== *)
theory Programs
  imports Tools DuplicateFs FuseLog
begin

text \<open>
  The three file system programs from their command lines on: \<open>single_host_fs\<close>,
  \<open>distributed_fs\<close> and \<open>duplicate_ping_fs\<close>. \<open>resolve\<close> is name resolution, \<open>from_string\<close> the
  reader of addresses, and \<open>fuse_main\<close> gives the calls that FUSE makes for its arguments. Undefined
  behaviour leaves a run without any meaning, wherever in it it occurs, so the arguments for FUSE may
  be made before the file system is.
\<close>

section \<open>\<open>main\<close>\<close>

text \<open>
  A program returns 1 with what it printed, or serves the calls of FUSE; then \<open>log_to\<close> is the file
  of the log, if it is not \<open>stdout\<close>, and \<open>log_of\<close> the log as it was initialised; what the
  callbacks write to it changes no reply (\<open>FuseLog\<close>).
\<close>

datatype 'r program_end =
    Rejected int "printed list"
  | Served (log_to: "string option") (log_of: "log option") (service_end: 'r)

definition single_host_arguments :: "variables \<Rightarrow> (string \<times> string \<times> bool \<times> string \<times> bool) result" where
  "single_host_arguments vars =
     bind_result (read_string ''log_file'' vars) (\<lambda>log_file.
     bind_result (read_string ''hostname'' vars) (\<lambda>hostname.
     bind_result (read_bool ''revertible'' vars) (\<lambda>revertible.
     bind_result (read_string ''mount_point'' vars) (\<lambda>mount_point.
     bind_result (read_bool ''debug'' vars) (\<lambda>debug.
     Inr (hostname, mount_point, debug, log_file, revertible))))))"

definition single_host_fs ::
  "program_options \<Rightarrow> (string \<Rightarrow> 'e result) \<Rightarrow> (nat \<Rightarrow> nat) \<Rightarrow> (string option list \<Rightarrow> 'b fuse_call list) \<Rightarrow>
     nat \<Rightarrow> os_env \<Rightarrow> (block_proto \<Rightarrow> string) \<Rightarrow> (string \<Rightarrow> block_proto) \<Rightarrow> ('e \<Rightarrow> ping_network) \<Rightarrow> string list \<Rightarrow>
     ('b fuse_reply list \<times> counter ping_system) program_end result" where
  "single_host_fs po resolve spare fuse_main fuel env serialize parse network argv =
     (let (accepted, vars, out) = single_host_command_line po argv
            (strings_only [''hostname'', ''mount_point'', ''log_file''])
      in if \<not> accepted then Inr (Rejected 1 out)
         else bind_result (single_host_arguments vars) (\<lambda>(hostname, mount_point, debug, log_file, revertible).
              let target = (if log_file = ''stdout'' then None else Some log_file);
                  instance_ptr = log_init [] DEBUG
              in bind_result (resolve hostname) (\<lambda>endpt.
                 bind_result (fuse_params spare mount_point debug []) (\<lambda>fuse_args.
                 bind_result (single_host_main fuel env serialize parse (network endpt) revertible
                     (fuse_main (fuse_argv fuse_args))) (\<lambda>r.
                 Inr (Served target instance_ptr r))))))"

definition distributed_arguments :: "variables \<Rightarrow> (string \<times> string \<times> string \<times> u8) result" where
  "distributed_arguments vars =
     bind_result (read_u8 ''node_id'' vars) (\<lambda>node_id.
     bind_result (read_string ''bounce_ip'' vars) (\<lambda>bounce_ip.
     bind_result (read_string ''other_node_ip'' vars) (\<lambda>other_node_ip.
     bind_result (read_string ''mount_point'' vars) (\<lambda>mount_point.
     Inr (bounce_ip, other_node_ip, mount_point, node_id)))))"

text \<open>The address to bounce off is read as an address and resolved as a host name.\<close>

definition distributed_fs ::
  "program_options \<Rightarrow> (string \<Rightarrow> 'e result) \<Rightarrow> (string \<Rightarrow> address_v4 result) \<Rightarrow> (nat \<Rightarrow> nat) \<Rightarrow>
     (string option list \<Rightarrow> 'b fuse_call list) \<Rightarrow> nat \<Rightarrow> os_env \<Rightarrow> (block_proto \<Rightarrow> string) \<Rightarrow> (string \<Rightarrow> block_proto) \<Rightarrow>
     ('e \<Rightarrow> node_network) \<Rightarrow> ip_junk \<Rightarrow> string list \<Rightarrow> ('b fuse_reply list \<times> updating node distributed) program_end result" where
  "distributed_fs po resolve from_string spare fuse_main fuel env serialize parse network junk argv =
     (let (accepted, vars, out) = distributed_command_line po argv
            (strings_only [''bounce_ip'', ''other_node_ip'', ''mount_point''])
      in if \<not> accepted then Inr (Rejected 1 out)
         else bind_result (distributed_arguments vars) (\<lambda>(bounce_ip, other_node_ip, mount_point, node_id).
              let instance_ptr = log_init [] DEBUG
              in bind_result (from_string other_node_ip) (\<lambda>other_node.
                 bind_result (from_string bounce_ip) (\<lambda>bounce.
                 bind_result (resolve bounce_ip) (\<lambda>endpt.
                 bind_result (fuse_params spare mount_point False []) (\<lambda>fuse_args.
                 bind_result (distributed_main fuel env serialize parse (network endpt) junk bounce other_node node_id
                     (fuse_main (fuse_argv fuse_args))) (\<lambda>r.
                 Inr (Served None instance_ptr r))))))))"

definition duplicate_arguments :: "variables \<Rightarrow> (string \<times> string \<times> 64 word) result" where
  "duplicate_arguments vars =
     bind_result (read_i64 ''delay_ms'' vars) (\<lambda>delay_ms.
     bind_result (read_string ''hostname'' vars) (\<lambda>hostname.
     bind_result (read_string ''mount_point'' vars) (\<lambda>mount_point.
     Inr (hostname, mount_point, delay_ms))))"

text \<open>The threads sleep for whole seconds: \<open>duration_cast\<close> divides and truncates towards 0.\<close>

definition delay_seconds :: "64 word \<Rightarrow> int" where
  "delay_seconds delay_ms = sgn (sint delay_ms) * (\<bar>sint delay_ms\<bar> div 1000)"

definition duplicate_ping_fs ::
  "program_options \<Rightarrow> (string \<Rightarrow> 'e result) \<Rightarrow> (nat \<Rightarrow> nat) \<Rightarrow> (string option list \<Rightarrow> 'b fuse_call list) \<Rightarrow>
     nat \<Rightarrow> os_env \<Rightarrow> (block_proto \<Rightarrow> string) \<Rightarrow> (string \<Rightarrow> block_proto) \<Rightarrow>
     ('e \<Rightarrow> int \<Rightarrow> counter duplicate_network) \<Rightarrow> string list \<Rightarrow>
     ('b fuse_reply list \<times> counter duplicate_system) program_end result" where
  "duplicate_ping_fs po resolve spare fuse_main fuel env serialize parse network argv =
     (let (accepted, vars, out) = duplicate_command_line po argv (strings_only [''hostname'', ''mount_point''])
      in if \<not> accepted then Inr (Rejected 1 out)
         else bind_result (duplicate_arguments vars) (\<lambda>(hostname, mount_point, delay_ms).
              let instance_ptr = log_init [] DEBUG
              in bind_result (resolve hostname) (\<lambda>endpt.
                 bind_result (fuse_params spare mount_point False []) (\<lambda>fuse_args.
                 bind_result (duplicate_main fuel env serialize parse (network endpt (delay_seconds delay_ms))
                     (fuse_main (fuse_argv fuse_args))) (\<lambda>r.
                 Inr (Served None instance_ptr r))))))"

section \<open>What is read is set\<close>

text \<open>Whenever a command line is accepted, what \<open>main\<close> reads afterwards has a value of its type.\<close>

definition sets_what_is_read ::
  "(string list \<Rightarrow> variables \<Rightarrow> bool \<times> variables \<times> printed list) \<Rightarrow> (variables \<Rightarrow> 'a result) \<Rightarrow> bool" where
  "sets_what_is_read command_line arguments \<longleftrightarrow>
     (\<forall>argv vars vars' out. command_line argv vars = (True, vars', out) \<longrightarrow> (\<exists>args. arguments vars' = Inr args))"

lemma sets_what_is_readI:
  assumes "documented po" "distinct (map long_name desc)" "distinct (map target desc)"
    and "\<And>vars. declared desc vars \<Longrightarrow> \<exists>args. arguments vars = Inr args"
  shows "sets_what_is_read (parse_with po desc) arguments"
  unfolding sets_what_is_read_def using parse_declares [OF assms(1-3)] assms(4) by blast

lemmas command_line_defs = single_ping_command_line_def multi_ping_command_line_def spoofed_ping_command_line_def
  single_host_command_line_def distributed_command_line_def duplicate_command_line_def

lemmas argument_defs = single_ping_arguments_def multi_ping_arguments_def spoofed_ping_arguments_def
  single_host_arguments_def distributed_arguments_def duplicate_arguments_def

lemma read_set:
  "\<exists>v. vars x = Some v \<and> type_of v = String_Type \<Longrightarrow> \<exists>s. read_string x vars = Inr s"
  "\<exists>v. vars x = Some v \<and> type_of v = Bool_Type \<Longrightarrow> \<exists>b. read_bool x vars = Inr b"
  "\<exists>v. vars x = Some v \<and> type_of v = U8_Type \<Longrightarrow> \<exists>c. read_u8 x vars = Inr c"
  "\<exists>v. vars x = Some v \<and> type_of v = U16_Type \<Longrightarrow> \<exists>w. read_u16 x vars = Inr w"
  "\<exists>v. vars x = Some v \<and> type_of v = I64_Type \<Longrightarrow> \<exists>w. read_i64 x vars = Inr w"
  by (elim exE conjE, simp)+

text \<open>
  C28. No program reads a variable it has not set: after any command line that
  \<open>parse_command_line\<close> accepts, the variables that \<open>main\<close> of each of the six programs reads
  have values of the types it reads them at, the numbers and flags among them, which \<open>main\<close>
  leaves without a value.
\<close>

theorem variables_are_set:
  assumes "documented po"
  shows "sets_what_is_read (single_ping_command_line po) single_ping_arguments \<and>
    sets_what_is_read (multi_ping_command_line po) multi_ping_arguments \<and>
    sets_what_is_read (spoofed_ping_command_line po) spoofed_ping_arguments \<and>
    sets_what_is_read (single_host_command_line po) single_host_arguments \<and>
    sets_what_is_read (distributed_command_line po) distributed_arguments \<and>
    sets_what_is_read (duplicate_command_line po) duplicate_arguments"
  unfolding command_line_defs
  by (intro conjI; rule sets_what_is_readI [OF assms]; (simp add: help_option_def; fail)?;
      auto simp: declared_def help_option_def argument_defs dest!: read_set; fail)

theorem variables_are_set_witness:
  "sets_what_is_read (single_host_command_line example_options) single_host_arguments \<and>
   (case single_host_command_line example_options
       [''single_host_fs'', ''hostname'', ''localhost'', ''mount_point'', ''/mnt'', ''debug'', ''1'']
       (strings_only [''hostname'', ''mount_point'', ''log_file'']) of
     (accepted, vars, out) \<Rightarrow> accepted \<and>
       single_host_arguments vars = Inr (''localhost'', ''/mnt'', True, ''stdout'', False))"
proof
  show "sets_what_is_read (single_host_command_line example_options) single_host_arguments"
    using variables_are_set [OF example_options_documented] by (elim conjE)
qed code_simp

section \<open>From the command line to the replies\<close>

text \<open>
  C18. \<open>single_host_fs\<close> from its command line on: once it is accepted and the host is resolved, the
  calls that FUSE makes for \<open>dummy\<close>, \<open>-d\<close> if asked for, \<open>-f\<close> and the mount point get the replies
  of the abstract file system, errors included, over any network that brings the blocks of each
  request in the order in which they were asked for, or in any order if files fit in one block and
  directories are listed with fillers that commute; with the option \<open>revertible\<close> as long as no
  checkpoint is removed. But it does so only if the allocator happens to leave a spare
  byte behind each of these arguments; where it leaves none, as the language allows, copying them
  writes behind their memory and the program has no defined behaviour.
\<close>

theorem single_host_fs_serves:
  assumes accepted: "single_host_command_line po argv (strings_only [''hostname'', ''mount_point'', ''log_file'']) =
      (True, vars, out)"
    and arguments: "single_host_arguments vars = Inr (hostname, mount_point, debug, log_file, revertible)"
      "resolve hostname = Inr endpt"
    and codec: "\<forall>b. parse (serialize (block_gen_proto b)) = block_gen_proto b"
    and net: "serves (PassThroughTranslator serialize parse) UNIV (network endpt) env calls (spec_init env 55)"
    and calls: "calls = fuse_main (map Some ([''dummy''] @ (if debug then [''-d''] else []) @ [''-f'', c_string mount_point]))"
    and ok: "run_ok env fuel (2 ^ 64 - 2) calls (spec_init env 55)" "revertible \<longrightarrow> no_reverts calls"
  shows "if spare 5 = 0 \<or> spare 2 = 0 \<or> spare (length mount_point) = 0
    then single_host_fs po resolve spare fuse_main fuel env serialize parse network argv =
      Inl (Undefined_Behaviour ''write behind a block of the heap'')
    else case spec_run env calls (spec_init env 55) of
        Inl e \<Rightarrow> single_host_fs po resolve spare fuse_main fuel env serialize parse network argv = Inl e
      | Inr (rs, a') \<Rightarrow> \<exists>target s. single_host_fs po resolve spare fuse_main fuel env serialize parse network argv =
            Inr (Served target (log_init [] DEBUG) (rs, s)) \<and>
          (target = None \<longleftrightarrow> log_file = ''stdout'') \<and>
          (\<not> revertible \<longrightarrow> stored_blocks (PassThroughTranslator serialize parse) UNIV s = fsize (fs_tree a'))"
proof (cases "fuse_params spare mount_point debug []")
  case (Inl e)
  then have spare: "spare 5 = 0 \<or> spare 2 = 0 \<or> spare (length mount_point) = 0"
    and e: "e = Undefined_Behaviour ''write behind a block of the heap''"
    by (auto simp: fuse_params_cases split: if_splits)
  have "single_host_fs po resolve spare fuse_main fuel env serialize parse network argv = Inl e"
    using accepted arguments Inl by (simp add: single_host_fs_def)
  then show ?thesis unfolding if_P [OF spare] e .
next
  case (Inr args)
  then have spare: "0 < spare 5" "0 < spare 2" "0 < spare (length mount_point)"
    by (simp_all add: fuse_params_cases split: if_splits)
  have run: "single_host_fs po resolve spare fuse_main fuel env serialize parse network argv =
      bind_result (single_host_main fuel env serialize parse (network endpt) revertible calls) (\<lambda>r.
        Inr (Served (if log_file = ''stdout'' then None else Some log_file) (log_init [] DEBUG) r))"
    using accepted arguments Inr fuse_argv_params [OF Inr] by (simp add: single_host_fs_def calls)
  from single_host_program [OF codec net ok] spare show ?thesis
    unfolding run by (auto split: sum.splits)
qed

definition example_argv :: "bool \<Rightarrow> string list" where
  "example_argv revertible = [''single_host_fs'', ''hostname'', ''localhost'', ''mount_point'', ''/mnt''] @
     (if revertible then [''revertible'', ''1''] else [])"

lemma example_accepted:
  "\<exists>vars out. single_host_command_line example_options (example_argv revertible)
       (strings_only [''hostname'', ''mount_point'', ''log_file'']) = (True, vars, out) \<and>
     single_host_arguments vars = Inr (''localhost'', ''/mnt'', False, ''stdout'', revertible)"
proof -
  have "case single_host_command_line example_options (example_argv revertible)
      (strings_only [''hostname'', ''mount_point'', ''log_file'']) of (accepted, vars, out) \<Rightarrow>
        accepted \<and> single_host_arguments vars = Inr (''localhost'', ''/mnt'', False, ''stdout'', revertible)"
    by (induct revertible rule: bool.induct) code_simp+
  then show ?thesis by (auto split: prod.splits)
qed

theorem single_host_fs_serves_witness:
  "(\<exists>s. single_host_fs example_options Inr (\<lambda>_. 1) (\<lambda>args. backwards_calls) 9 example_env
       example_serialize example_parse (\<lambda>_. backwards (PassThroughTranslator example_serialize example_parse))
       (example_argv False) = Inr (Served None (log_init [] DEBUG)
         ([Code 0, Code 0, Code 5, Code 0, Dir_Reply 0 {''.'', ''..'', ''f'', ''g''}, Data_Reply 5 ''hello''], s)) \<and>
     stored_blocks (PassThroughTranslator example_serialize example_parse) UNIV s = 5) \<and>
   (\<exists>s. single_host_fs example_options Inr (\<lambda>_. 1) (\<lambda>args. backwards_calls) 9 example_env
       example_serialize example_parse (\<lambda>_. backwards (PassThroughTranslator example_serialize example_parse))
       (example_argv True) = Inr (Served None (log_init [] DEBUG)
         ([Code 0, Code 0, Code 5, Code 0, Dir_Reply 0 {''.'', ''..'', ''f'', ''g''}, Data_Reply 5 ''hello''], s))) \<and>
   single_host_fs example_options Inr (\<lambda>_. 0) (\<lambda>args. backwards_calls) 9 example_env
       example_serialize example_parse (\<lambda>_. backwards (PassThroughTranslator example_serialize example_parse))
       (example_argv False) = Inl (Undefined_Behaviour ''write behind a block of the heap'')"
proof -
  have "run_ok example_env 9 100 backwards_calls (spec_init example_env 55)" by code_simp
  then have ok: "run_ok example_env 9 (2 ^ 64 - 2) backwards_calls (spec_init example_env 55)"
    by (rule run_ok_mono) simp
  have no_reverts: "no_reverts backwards_calls" by code_simp
  have codec: "\<forall>b. example_parse (example_serialize (block_gen_proto b)) = block_gen_proto b"
    by (simp add: example_codec)
  let ?network = "\<lambda>_. backwards (PassThroughTranslator example_serialize example_parse) :: ping_network"
  have net: "serves (PassThroughTranslator example_serialize example_parse) UNIV (?network ''localhost'') example_env
      backwards_calls (spec_init example_env 55)"
    by (simp add: backwards_serves)
  from example_accepted [of False] obtain vars out where plain:
    "single_host_command_line example_options (example_argv False)
       (strings_only [''hostname'', ''mount_point'', ''log_file'']) = (True, vars, out)"
    "single_host_arguments vars = Inr (''localhost'', ''/mnt'', False, ''stdout'', False)" by blast
  from example_accepted [of True] obtain vars' out' where rev:
    "single_host_command_line example_options (example_argv True)
       (strings_only [''hostname'', ''mount_point'', ''log_file'']) = (True, vars', out')"
    "single_host_arguments vars' = Inr (''localhost'', ''/mnt'', False, ''stdout'', True)" by blast
  note serves = single_host_fs_serves [where resolve = Inr and fuse_main = "\<lambda>_. backwards_calls",
      OF _ _ refl codec net refl ok]
  from serves [OF plain, of "\<lambda>_. 1"] serves [OF plain, of "\<lambda>_. 0"] serves [OF rev, of "\<lambda>_. 1"] no_reverts backwards_run
  show ?thesis
    by (cases "spec_run example_env backwards_calls (spec_init example_env 55)") auto
qed

text \<open>The other two programs, up to their file systems.\<close>

lemma distributed_fs_runs:
  assumes "distributed_command_line po argv (strings_only [''bounce_ip'', ''other_node_ip'', ''mount_point'']) =
      (True, vars, out)"
    "distributed_arguments vars = Inr (bounce_ip, other_node_ip, mount_point, node_id)"
    "from_string other_node_ip = Inr other_node" "from_string bounce_ip = Inr bounce" "resolve bounce_ip = Inr endpt"
  shows "distributed_fs po resolve from_string spare fuse_main fuel env serialize parse network junk argv =
     (if spare 5 = 0 \<or> spare 2 = 0 \<or> spare (length mount_point) = 0
      then Inl (Undefined_Behaviour ''write behind a block of the heap'')
      else bind_result (distributed_main fuel env serialize parse (network endpt) junk bounce other_node node_id
          (fuse_main (map Some [''dummy'', ''-f'', c_string mount_point]))) (\<lambda>r.
        Inr (Served None (log_init [] DEBUG) r)))"
proof (cases "fuse_params spare mount_point False []")
  case (Inl e)
  with assms show ?thesis by (auto simp: distributed_fs_def fuse_params_cases split: if_splits)
next
  case (Inr args)
  then have "0 < spare 5" "0 < spare 2" "0 < spare (length mount_point)"
    by (simp_all add: fuse_params_cases split: if_splits)
  with assms Inr fuse_argv_params [OF Inr] show ?thesis by (simp add: distributed_fs_def)
qed

lemma duplicate_ping_fs_runs:
  assumes "duplicate_command_line po argv (strings_only [''hostname'', ''mount_point'']) = (True, vars, out)"
    "duplicate_arguments vars = Inr (hostname, mount_point, delay_ms)" "resolve hostname = Inr endpt"
  shows "duplicate_ping_fs po resolve spare fuse_main fuel env serialize parse network argv =
     (if spare 5 = 0 \<or> spare 2 = 0 \<or> spare (length mount_point) = 0
      then Inl (Undefined_Behaviour ''write behind a block of the heap'')
      else bind_result (duplicate_main fuel env serialize parse (network endpt (delay_seconds delay_ms))
          (fuse_main (map Some [''dummy'', ''-f'', c_string mount_point]))) (\<lambda>r.
        Inr (Served None (log_init [] DEBUG) r)))"
proof (cases "fuse_params spare mount_point False []")
  case (Inl e)
  with assms show ?thesis by (auto simp: duplicate_ping_fs_def fuse_params_cases split: if_splits)
next
  case (Inr args)
  then have "0 < spare 5" "0 < spare 2" "0 < spare (length mount_point)"
    by (simp_all add: fuse_params_cases split: if_splits)
  with assms Inr fuse_argv_params [OF Inr] show ?thesis by (simp add: duplicate_ping_fs_def)
qed

text \<open>A delay below a second is no delay.\<close>

lemma short_delay: "\<bar>sint delay_ms\<bar> < 1000 \<Longrightarrow> delay_seconds delay_ms = 0"
  by (simp add: delay_seconds_def)

end
