(* ===== verification/Arrival.thy ===== *)
theory Arrival
  imports PingFs
begin

text \<open>
  Why the order matters to a file of several blocks: \<open>get_file_contents\<close> is documented as a search
  from left to right, but a response of \<open>AsyncBlockManager\<close> lists the blocks in the order in which
  they came, and the contents are put together in that order.
\<close>

lemma contents_of_leaves:
  "get_file_contents_loop n bm (map (\<lambda>i. Some (mk_block i (FileContentsBlockData (c i)))) ids) acc s =
     Inr (acc @ map c ids, s)"
  by (induction ids arbitrary: acc) (simp_all add: try_cast_defs)


text \<open>Two blocks over a network that brings them in the opposite order.\<close>

definition two_leaves :: "counter ping_system" where
  "two_leaves = (system_start 3 (fst (gen_block_service 0)))\<lparr>in_flight := image_mset
     (request_for (\<lambda>b. example_serialize (block_gen_proto b)) (fst (gen_block_service 0)))
     {#mk_block 1 (FileContentsBlockData ''hello ''), mk_block 2 (FileContentsBlockData ''world'')#}\<rparr>"

definition two_leaf_file :: dir_file_data where
  "two_leaf_file = \<lparr>df_name = ''f'', df_stat = new_stat example_env \<lparr>user_mode = READ_WRITE, group_mode = READ_WRITE,
     other_mode = READ_WRITE, file_type_of = REGULAR\<rparr> 11, df_children = [1, 2]\<rparr>"


end
