(* ===== verification/PingWire.thy ===== *)
theory PingWire
  imports PingService
begin

text \<open>
  From blocks to bytes and back: what a \<open>PingBlockService\<close> sends (\<open>ping_block_service.cc\<close>,
  \<open>pass_through_translator.cc\<close>, \<open>echo_request.cc\<close>) comes back through \<open>Ping\<close>
  (\<open>ping.cc\<close>) and the same translator as the same block, and goes out again as the same bytes.
\<close>

section \<open>Replies on the wire\<close>

text \<open>
  The reply of a remote host to a request: an IP header of 20 bytes, then an ICMP echo reply with
  the request's identifier, sequence number and data. The rest of the header and the checksum may be
  anything.
\<close>

definition reply_packet :: "string \<Rightarrow> u16 \<Rightarrow> echo_request \<Rightarrow> string" where
  "reply_packet ip_header check req =
     ip_header @ [char_of_byte RESPONSE_TYPE, char_of_byte RESPONSE_CODE] @ put_short check @
     put_short (req_identifier req) @ put_short (req_sequence_number req) @ req_body req"

definition reply_header :: "string \<Rightarrow> echo_request \<Rightarrow> bool" where
  "reply_header ip_header req \<longleftrightarrow> length ip_header = 20 \<and>
     unat (be16 ip_header 2) = 20 + byte_size req \<and> byte_of_char (ip_header ! 9) = 1"

lemma length_put_short [simp]: "length (put_short w) = 2"
  by (simp add: put_short_def)

lemma reply_packet_drop:
  assumes "length h = 20"
  shows "drop 20 (reply_packet h c req) =
       [char_of_byte RESPONSE_TYPE, char_of_byte RESPONSE_CODE] @ put_short c @
       put_short (req_identifier req) @ put_short (req_sequence_number req) @ req_body req"
    and "take 20 (reply_packet h c req) = h"
    and "length (reply_packet h c req) = 28 + length (req_body req)"
  using assms by (simp_all add: reply_packet_def)

lemma reply_packet_ok:
  assumes "reply_header h req"
  shows "packet_ok (reply_packet h c req)" and "packet_reply (reply_packet h c req) = Some (echo_reply req)"
proof -
  let ?p = "reply_packet h c req"
  have h: "length h = 20" "unat (be16 h 2) = 28 + length (req_body req)" "byte_of_char (h ! 9) = 1"
    using assms by (simp_all add: reply_header_def byte_size_def ICMP_HEADER_SIZE_BYTES_def)
  have p: "?p ! i = h ! i" if "i < 20" for i using that h(1) by (simp add: reply_packet_def nth_append)
  have len: "unat (be16 h 2) < 2 ^ 16" using unsigned_less [of "be16 h 2"] by simp
  have b: "be16 ?p 2 = be16 h 2" "byte_of_char (?p ! 9) = 1" using h(3) p by (simp_all add: be16_def)
  show "packet_ok ?p"
    using h len b by (simp add: packet_ok_def reply_packet_drop(3))
  have "?p ! 20 = char_of_byte RESPONSE_TYPE" "?p ! 21 = char_of_byte RESPONSE_CODE"
    "be16 ?p 24 = req_identifier req" "be16 ?p 26 = req_sequence_number req" "drop 28 ?p = req_body req"
    using h(1) by (simp_all add: reply_packet_def nth_append be16_def put_short_bytes numeral_eq_Suc)
  then show "packet_reply ?p = Some (echo_reply req)"
    using b(2) by (simp add: packet_reply_def echo_reply_def RESPONSE_TYPE_def RESPONSE_CODE_def)
qed

section \<open>A round trip\<close>

text \<open>A reply: its IP header, its checksum field, and the block whose request it answers.\<close>

type_synonym block_reply = "string \<times> u16 \<times> block"

fun reply_of :: "translator \<Rightarrow> ping_service \<Rightarrow> block_reply \<Rightarrow> string" where
  "reply_of tr sv (h, c, b) = reply_packet h c (translate tr b sv)"

fun reply_wf :: "translator \<Rightarrow> ping_service \<Rightarrow> block_reply \<Rightarrow> bool" where
  "reply_wf tr sv (h, c, b) \<longleftrightarrow> reply_header h (translate tr b sv)"

fun reply_block :: "block_reply \<Rightarrow> block" where
  "reply_block (h, c, b) = b"

lemma replies_blocks:
  "list_all (reply_wf tr sv) xs \<Longrightarrow>
     list_all packet_ok (map (reply_of tr sv) xs) \<and>
     replies (map (reply_of tr sv) xs) = map (\<lambda>x. echo_reply (translate tr (reply_block x) sv)) xs"
  by (induction xs) (auto simp: reply_packet_ok)

text \<open>
  C30. Blocks survive the wire: when the replies to the requests of a service come in,
  however their bytes are cut, the responses come out in order, each is read back as the block that
  was sent, and the request made from it has the bytes of the request that carried the block first.
\<close>

theorem blocks_survive_the_wire:
  assumes codec: "\<forall>b. parse (serialize (block_gen_proto b)) = block_gen_proto b"
    and wf: "list_all (reply_wf (PassThroughTranslator serialize parse) sv) xs"
    and cut: "concat chunks = concat (map (reply_of (PassThroughTranslator serialize parse) sv) xs)"
    and fuel: "length xs < fuel"
  shows "\<exists>rs. receive_run fuel chunks [] = Inr (rs, []) \<and>
     map (from_response (PassThroughTranslator serialize parse)) rs = map (\<lambda>x. Inr (reply_block x)) xs \<and>
     map (\<lambda>r. request_bytes (EchoRequest_of_response r)) rs =
       map (\<lambda>x. request_bytes (translate (PassThroughTranslator serialize parse) (reply_block x) sv)) xs"
proof -
  let ?tr = "PassThroughTranslator serialize parse" and ?body = "\<lambda>b. serialize (block_gen_proto b)"
  let ?rs = "map (\<lambda>x. echo_reply (translate ?tr (reply_block x) sv)) xs"
  note tr = PassThroughTranslator_ok [OF codec]
  have ps: "list_all packet_ok (map (reply_of ?tr sv) xs)" "replies (map (reply_of ?tr sv) xs) = ?rs"
    using replies_blocks [OF wf] by blast+
  have "residue [] (map (reply_of ?tr sv) xs)"
    using ps(1) by (cases xs) (auto simp: residue_def dest: packet_nonempty)
  from receive_run_packets [OF ps(1) this _, of chunks fuel] cut fuel ps(2)
  have "receive_run fuel chunks [] = Inr (?rs, [])" by simp
  moreover have "from_response ?tr (echo_reply (translate ?tr b sv)) = Inr b" for b
    using tr by (simp add: translate_request [OF tr] echo_reply_request translator_ok_def)
  moreover have "EchoRequest_of_response (echo_reply (translate ?tr b sv)) = translate ?tr b sv" for b
    unfolding translate_request [OF tr] echo_reply_request by (simp add: request_for_def)
  ultimately show ?thesis by (intro exI [of _ ?rs]) (simp add: comp_def)
qed

definition example_request :: echo_request where
  "example_request = translate example_translator example_block example_service"

text \<open>A header for a given length.\<close>

definition example_header :: "nat \<Rightarrow> string" where
  "example_header n = [CHR 0x45, CHR 0x00] @ put_short (word_of_nat (20 + n)) @ replicate 5 CHR 0x00 @
     [char_of_byte 1] @ replicate 10 CHR 0x00"

lemma example_header_ok:
  assumes "byte_size req < 60000"
  shows "reply_header (example_header (byte_size req)) req"
proof -
  let ?w = "word_of_nat (20 + byte_size req) :: u16"
  have "be16 (example_header (byte_size req)) 2 = ?w"
    by (simp add: example_header_def be16_def put_short_bytes nth_append numeral_eq_Suc)
  moreover have "unat ?w = 20 + byte_size req"
    using assms by (simp only: unat_of_nat) simp
  moreover have "byte_of_char (example_header (byte_size req) ! 9) = 1"
    by (simp add: example_header_def nth_append numeral_eq_Suc)
  ultimately show ?thesis
    by (simp add: reply_header_def) (simp add: example_header_def)
qed

lemma example_request_size: "byte_size example_request < 60000"
  unfolding example_request_def translate_request [OF example_translator_ok]
  by (simp add: byte_size_def ICMP_HEADER_SIZE_BYTES_def request_for_def example_serialize_def
      block_proto_roundtrip example_block_def EchoRequest_def enc_nats_def enc_chars_def)

definition example_replies :: "block_reply list" where
  "example_replies =
     [(example_header (byte_size example_request), 0, example_block),
      (example_header (byte_size example_request), 7, example_block)]"

lemma example_replies_wf: "list_all (reply_wf example_translator example_service) example_replies"
  using example_header_ok [OF example_request_size]
  by (simp add: example_replies_def example_request_def)

text \<open>Two replies that carry a block, cut in the middle of the first one.\<close>

theorem blocks_survive_the_wire_witness:
  "let p = concat (map (reply_of (PassThroughTranslator example_serialize example_parse) example_service)
         example_replies)
   in \<exists>rs. receive_run 3 [take 30 p, drop 30 p] [] = Inr (rs, []) \<and>
      map (from_response (PassThroughTranslator example_serialize example_parse)) rs =
        [Inr example_block, Inr example_block]"
proof -
  have wf: "list_all (reply_wf (PassThroughTranslator example_serialize example_parse) example_service)
      example_replies"
    using example_replies_wf by (simp add: example_translator_def)
  have n: "length example_replies < 3"
    "map (\<lambda>x. Inr (reply_block x)) example_replies = [Inr example_block, Inr example_block]"
    by (simp_all add: example_replies_def)
  let ?p = "concat (map (reply_of (PassThroughTranslator example_serialize example_parse) example_service)
      example_replies)"
  have cut: "concat [take 30 ?p, drop 30 ?p] = ?p" by simp
  have "\<forall>b. example_parse (example_serialize (block_gen_proto b)) = block_gen_proto b"
    by (simp add: example_codec)
  from blocks_survive_the_wire [OF this wf cut n(1)] n(2) show ?thesis
    unfolding Let_def by metis
qed

end
