(* ===== verification/RateQueue.thy ===== *)
theory RateQueue
  imports Prelude "HOL-Library.Sublist"
begin

text \<open>
  \<open>RateQueue\<close> (\<open>rate_queue.hpp\<close>, \<open>rate_queue.cc\<close>): functions that clients add are run by the
  queue's thread, one after each sleep. Clients and the thread interleave: a step is a critical
  section of the mutex or what the thread does between two of them. The thread reads \<open>stopped_\<close>
  without the mutex; the model takes that read as atomic. A label says what a step shows outside.
\<close>

section \<open>The queue and its thread\<close>

datatype 'f service_at =
    At_Check
  | At_Poll
  | At_Exec 'f
  | At_Sleep
  | Returned

record 'f rate_queue =
  queue :: "'f list"
  stopped :: bool
  service_at :: "'f service_at"

text \<open>\<open>start_queue\<close>: the thread is created and has not yet looked at \<open>stopped_\<close>.\<close>

definition start_queue :: "'f rate_queue" where
  "start_queue = \<lparr>queue = [], stopped = False, service_at = At_Check\<rparr>"

definition add :: "'f \<Rightarrow> 'f rate_queue \<Rightarrow> 'f rate_queue result" where
  "add f q =
     (if stopped q then Inl (Thrown ''Attempting to add work to stopped service'')
      else Inr (q\<lparr>queue := queue q @ [f]\<rparr>))"

text \<open>The critical section of \<open>stop\<close>; the result is \<open>should_join\<close>.\<close>

definition stop :: "'f rate_queue \<Rightarrow> bool \<times> 'f rate_queue" where
  "stop q = (\<not> stopped q, q\<lparr>stopped := True, queue := []\<rparr>)"

text \<open>What the thread does next; the function it runs, when it runs one.\<close>

definition service_step :: "'f rate_queue \<Rightarrow> ('f option \<times> 'f rate_queue) option" where
  "service_step q =
     (case service_at q of
        At_Check \<Rightarrow> Some (None, q\<lparr>service_at := if stopped q then Returned else At_Poll\<rparr>)
      | At_Poll \<Rightarrow>
          (case queue q of
             [] \<Rightarrow> Some (None, q\<lparr>service_at := At_Sleep\<rparr>)
           | to_exec # rest \<Rightarrow> Some (None, q\<lparr>queue := rest, service_at := At_Exec to_exec\<rparr>))
      | At_Exec to_exec \<Rightarrow> Some (Some to_exec, q\<lparr>service_at := At_Sleep\<rparr>)
      | At_Sleep \<Rightarrow> Some (None, q\<lparr>service_at := At_Check\<rparr>)
      | Returned \<Rightarrow> None)"

datatype 'f rq_label = Added 'f | Add_Threw 'f | Stopped bool | Joined | Ran 'f | Slept | Silent

inductive rq_step :: "'f rate_queue \<Rightarrow> 'f rq_label \<Rightarrow> 'f rate_queue \<Rightarrow> bool" where
  add_ok: "add f q = Inr q' \<Longrightarrow> rq_step q (Added f) q'"
| add_throws: "add f q = Inl e \<Longrightarrow> rq_step q (Add_Threw f) q"
| stop: "stop q = (should_join, q') \<Longrightarrow> rq_step q (Stopped should_join) q'"
| joined: "stopped q \<Longrightarrow> service_at q = Returned \<Longrightarrow> rq_step q Joined q"
| executed: "service_step q = Some (Some f, q') \<Longrightarrow> rq_step q (Ran f) q'"
| slept: "service_at q = At_Sleep \<Longrightarrow> service_step q = Some (None, q') \<Longrightarrow> rq_step q Slept q'"
| silent: "service_at q \<noteq> At_Sleep \<Longrightarrow> service_step q = Some (None, q') \<Longrightarrow> rq_step q Silent q'"

inductive_cases rq_stepE: "rq_step q l q'"

inductive rq_run :: "'f rate_queue \<Rightarrow> 'f rq_label list \<Rightarrow> 'f rate_queue \<Rightarrow> bool" where
  run_nil: "rq_run q [] q"
| run_snoc: "rq_run q ls q' \<Longrightarrow> rq_step q' l q'' \<Longrightarrow> rq_run q (ls @ [l]) q''"

section \<open>What a run shows\<close>

definition added :: "'f rq_label list \<Rightarrow> 'f list" where
  "added ls = concat (map (\<lambda>l. case l of Added f \<Rightarrow> [f] | _ \<Rightarrow> []) ls)"

definition executed :: "'f rq_label list \<Rightarrow> 'f list" where
  "executed ls = concat (map (\<lambda>l. case l of Ran f \<Rightarrow> [f] | _ \<Rightarrow> []) ls)"

definition ever_stopped :: "'f rq_label list \<Rightarrow> bool" where
  "ever_stopped ls \<longleftrightarrow> (\<exists>j. Stopped j \<in> set ls)"

text \<open>The functions run since the last sleep, and since the first stop.\<close>

definition ran_awake :: "'f rq_label list \<Rightarrow> nat" where
  "ran_awake ls = length (executed (takeWhile (\<lambda>l. l \<noteq> Slept) (rev ls)))"

definition after_stop :: "'f rq_label list \<Rightarrow> 'f rq_label list" where
  "after_stop ls = dropWhile (\<lambda>l. case l of Stopped j \<Rightarrow> False | _ \<Rightarrow> True) ls"

definition in_hand :: "'f rate_queue \<Rightarrow> 'f list" where
  "in_hand q = (case service_at q of At_Exec f \<Rightarrow> [f] | _ \<Rightarrow> [])"

lemma label_lists_snoc [simp]:
  "added (ls @ [l]) = added ls @ (case l of Added f \<Rightarrow> [f] | _ \<Rightarrow> [])"
  "executed (ls @ [l]) = executed ls @ (case l of Ran f \<Rightarrow> [f] | _ \<Rightarrow> [])"
  "ever_stopped (ls @ [l]) \<longleftrightarrow> ever_stopped ls \<or> (\<exists>j. l = Stopped j)"
  "added [] = []" "executed [] = []" "\<not> ever_stopped []"
  "ran_awake (ls @ [l]) = (if l = Slept then 0 else ran_awake ls + (case l of Ran f \<Rightarrow> 1 | _ \<Rightarrow> 0))"
  by (auto simp: added_def executed_def ever_stopped_def ran_awake_def split: rq_label.splits)

lemma after_stop_snoc [simp]:
  "after_stop (ls @ [l]) =
     (if ever_stopped ls then after_stop ls @ [l] else if \<exists>j. l = Stopped j then [l] else [])"
  "after_stop [] = []"
proof -
  let ?P = "\<lambda>l. case l of Stopped j \<Rightarrow> False | _ \<Rightarrow> True"
  have P: "?P x \<longleftrightarrow> (\<forall>j. x \<noteq> Stopped j)" for x :: "'f rq_label" by (cases x) auto
  show "after_stop (ls @ [l]) =
      (if ever_stopped ls then after_stop ls @ [l] else if \<exists>j. l = Stopped j then [l] else [])"
  proof (cases "ever_stopped ls")
    case True
    then obtain j where "Stopped j \<in> set ls" by (auto simp: ever_stopped_def)
    then have "dropWhile ?P (ls @ [l]) = dropWhile ?P ls @ [l]" by (rule dropWhile_append1) simp
    with True show ?thesis by (simp add: after_stop_def)
  next
    case False
    then have "\<forall>x \<in> set ls. ?P x" unfolding P ever_stopped_def by blast
    then have "dropWhile ?P (ls @ [l]) = dropWhile ?P [l]" by (simp add: dropWhile_append2)
    with False show ?thesis using P [of l] by (auto simp: after_stop_def)
  qed
qed (simp add: after_stop_def)

text \<open>The steps of the thread, and how many it has left once it is to stop.\<close>

definition thread_steps :: "'f rq_label list \<Rightarrow> nat" where
  "thread_steps ls = length (filter (\<lambda>l. case l of Ran f \<Rightarrow> True | Slept \<Rightarrow> True | Silent \<Rightarrow> True | _ \<Rightarrow> False) ls)"

lemma thread_steps_snoc [simp]:
  "thread_steps (ls @ [l]) =
     thread_steps ls + (case l of Ran f \<Rightarrow> 1 | Slept \<Rightarrow> 1 | Silent \<Rightarrow> 1 | _ \<Rightarrow> 0)"
  "thread_steps [] = 0"
  by (auto simp: thread_steps_def split: rq_label.splits)

fun steps_left :: "'f service_at \<Rightarrow> nat" where
  "steps_left At_Poll = 3"
| "steps_left (At_Exec f) = 3"
| "steps_left At_Sleep = 2"
| "steps_left At_Check = 1"
| "steps_left Returned = 0"

definition rq_inv :: "'f rq_label list \<Rightarrow> 'f rate_queue \<Rightarrow> bool" where
  "rq_inv ls q \<longleftrightarrow>
     stopped q = ever_stopped ls \<and> (stopped q \<longrightarrow> queue q = []) \<and>
     (if stopped q then prefix (executed ls @ in_hand q) (added ls) else added ls = executed ls @ in_hand q @ queue q) \<and>
     ran_awake ls + length (in_hand q) \<le> 1 \<and> (service_at q \<in> {At_Check, At_Poll} \<longrightarrow> ran_awake ls = 0) \<and>
     added (after_stop ls) = [] \<and> (stopped q \<longrightarrow> length (executed (after_stop ls)) + length (in_hand q) \<le> 1) \<and>
     (\<not> stopped q \<longrightarrow> after_stop ls = []) \<and>
     (stopped q \<longrightarrow> thread_steps (after_stop ls) + steps_left (service_at q) \<le> 3)"

lemma in_hand_update [simp]:
  "in_hand (q\<lparr>queue := x\<rparr>) = in_hand q" "in_hand (q\<lparr>stopped := y\<rparr>) = in_hand q"
  "in_hand (q\<lparr>service_at := a\<rparr>) = (case a of At_Exec f \<Rightarrow> [f] | _ \<Rightarrow> [])"
  by (simp_all add: in_hand_def)

lemma rq_inv_step:
  assumes "rq_inv ls q" and "rq_step q l q'"
  shows "rq_inv (ls @ [l]) q'"
  using assms(2)
proof (rule rq_stepE)
  fix f
  assume "l = Added f" "add f q = Inr q'"
  then have "\<not> stopped q" "q' = q\<lparr>queue := queue q @ [f]\<rparr>" "l = Added f"
    by (simp_all add: add_def split: if_splits)
  with assms(1) show ?thesis by (simp add: rq_inv_def)
next
  fix f e
  assume "q' = q" "l = Add_Threw f"
  with assms(1) show ?thesis by (cases "stopped q") (simp_all add: rq_inv_def)
next
  fix j
  assume "l = Stopped j" "stop q = (j, q')"
  then have q': "q' = q\<lparr>stopped := True, queue := []\<rparr>" "l = Stopped j" by (simp_all add: stop_def)
  have "steps_left (service_at q) \<le> 3" by (cases "service_at q") simp_all
  moreover have "length (in_hand q) \<le> 1" by (simp add: in_hand_def split: service_at.splits)
  moreover have "thread_steps [l] = 0" "added [l] = []" "executed [l] = []"
    using q'(2) by (simp_all add: thread_steps_def added_def executed_def)
  ultimately show ?thesis
    using assms(1) q' by (cases "stopped q") (simp_all add: rq_inv_def)
next
  assume "l = Joined" "q' = q"
  with assms(1) show ?thesis by (cases "stopped q") (simp_all add: rq_inv_def)
next
  fix f
  assume "l = Ran f" "service_step q = Some (Some f, q')"
  then have "service_at q = At_Exec f" "q' = q\<lparr>service_at := At_Sleep\<rparr>" "in_hand q = [f]" "l = Ran f"
    by (auto simp: service_step_def in_hand_def split: service_at.splits list.splits)
  with assms(1) show ?thesis by (cases "stopped q") (simp_all add: rq_inv_def)
next
  assume "l = Slept" "service_at q = At_Sleep" "service_step q = Some (None, q')"
  then have "service_at q = At_Sleep" "q' = q\<lparr>service_at := At_Check\<rparr>" "in_hand q = []" "l = Slept"
    by (auto simp: service_step_def in_hand_def)
  with assms(1) show ?thesis by (cases "stopped q") (simp_all add: rq_inv_def)
next
  assume l: "l = Silent" "service_at q \<noteq> At_Sleep" "service_step q = Some (None, q')"
  show ?thesis
  proof (cases "service_at q")
    case At_Check
    with l assms(1) show ?thesis
      by (cases "stopped q") (auto simp: rq_inv_def service_step_def in_hand_def)
  next
    case At_Poll
    with l assms(1) show ?thesis
      by (cases "stopped q"; cases "queue q") (auto simp: rq_inv_def service_step_def in_hand_def)
  qed (use l in \<open>simp_all add: service_step_def\<close>)
qed

lemma rq_inv_run: "rq_run q0 ls q \<Longrightarrow> q0 = start_queue \<Longrightarrow> rq_inv ls q"
proof (induction rule: rq_run.induct)
  case (run_nil q)
  then show ?case by (simp add: rq_inv_def start_queue_def in_hand_def ran_awake_def)
next
  case (run_snoc q ls q' l q'')
  then show ?case by (blast intro: rq_inv_step)
qed

lemma rq_run_append: "rq_run q ls q'' \<Longrightarrow> ls = as @ bs \<Longrightarrow> \<exists>q'. rq_run q as q'"
proof (induction arbitrary: bs rule: rq_run.induct)
  case (run_nil q)
  then show ?case using rq_run.run_nil by blast
next
  case (run_snoc q ls q' l q'')
  show ?case
  proof (cases bs rule: rev_cases)
    case Nil
    with run_snoc.prems rq_run.run_snoc [OF run_snoc.hyps] show ?thesis by auto
  next
    case (snoc cs c)
    with run_snoc show ?thesis by auto
  qed
qed

lemma ran_awake_suffix: "Slept \<notin> set ys \<Longrightarrow> length (executed ys) \<le> ran_awake (xs @ ys)"
proof (induction ys rule: rev_induct)
  case (snoc y ys)
  then show ?case by (simp only: append_assoc [symmetric] label_lists_snoc) (auto split: rq_label.splits)
qed simp

text \<open>
  C23. In every interleaving of clients and the thread, functions run in the order in which they
  were added, each at most once, and until \<open>stop\<close> none is lost; between two functions there is a
  sleep; after \<open>stop\<close> nothing is added, at most the one function already taken runs, and the thread
  returns within three of its steps, so that the join ends.
\<close>

theorem rate_queue_runs:
  assumes "rq_run start_queue ls q"
  shows "prefix (executed ls) (added ls) \<and> (\<not> ever_stopped ls \<longrightarrow> added ls = executed ls @ in_hand q @ queue q) \<and>
     (\<forall>xs ys zs. ls = xs @ ys @ zs \<and> Slept \<notin> set ys \<longrightarrow> length (executed ys) \<le> 1) \<and>
     added (after_stop ls) = [] \<and> length (executed (after_stop ls)) \<le> 1 \<and>
     thread_steps (after_stop ls) \<le> 3 \<and> (service_step q = None \<longleftrightarrow> service_at q = Returned)"
proof -
  have inv: "rq_inv ls q" using rq_inv_run [OF assms] by simp
  have "prefix (executed ls) (added ls)"
    using inv by (auto simp: rq_inv_def prefix_def split: if_splits)
  moreover have "length (executed ys) \<le> 1" if split: "ls = xs @ ys @ zs" and "Slept \<notin> set ys" for xs ys zs
  proof -
    obtain q' where "rq_run start_queue (xs @ ys) q'"
      using rq_run_append [OF assms, of "xs @ ys" zs] split by auto
    then have "rq_inv (xs @ ys) q'" using rq_inv_run by blast
    then have "ran_awake (xs @ ys) \<le> 1" by (simp add: rq_inv_def)
    with ran_awake_suffix [OF \<open>Slept \<notin> set ys\<close>, of xs] show ?thesis by linarith
  qed
  moreover have "length (executed (after_stop ls)) \<le> 1 \<and> thread_steps (after_stop ls) \<le> 3"
    using inv by (cases "stopped q") (auto simp: rq_inv_def)
  moreover have "service_step q = None \<longleftrightarrow> service_at q = Returned"
    by (auto simp: service_step_def split: service_at.splits list.splits)
  ultimately show ?thesis using inv by (auto simp: rq_inv_def)
qed

theorem rate_queue_runs_witness:
  "\<exists>q. rq_run start_queue [Added (1 :: nat), Added 2, Silent, Silent, Stopped True, Ran 1, Slept, Silent, Joined] q \<and>
     service_at q = Returned \<and>
     thread_steps (after_stop [Added (1 :: nat), Added 2, Silent, Silent, Stopped True, Ran 1, Slept, Silent, Joined]) \<le> 3"
proof -
  let ?ls = "[Added (1 :: nat), Added 2, Silent, Silent, Stopped True, Ran 1, Slept, Silent, Joined]"
  let ?q = "\<lparr>queue = [], stopped = True, service_at = Returned\<rparr> :: nat rate_queue"
  note defs = add_def stop_def service_step_def
  have "rq_run start_queue ([] @ [Added 1] @ [Added 2] @ [Silent] @ [Silent] @ [Stopped True] @ [Ran 1] @ [Slept] @
      [Silent] @ [Joined]) ?q"
    unfolding append_assoc [symmetric] start_queue_def
    by (rule run_snoc run_nil rq_step.intros | simp add: defs)+
  then have run: "rq_run start_queue ?ls ?q" by simp
  from rate_queue_runs [OF this] show ?thesis using run by (intro exI [of _ ?q]) auto
qed

end
