(* ===== verification/FuseTests.thy ===== *)
theory FuseTests
  imports FsUse
begin

text \<open>
  The tests of \<open>BlockFuse\<close>, \<open>src/test/lib/fs/block_fuse_test.hpp\<close>, as tests of the model. A test
  of an object that represents the abstract file system has the outcome it has there, where the tests
  with short files are evaluated; the tests with large files pass with any contents. They do not see that
  a long file reads back longer than it is, since they read no more than they have written.
\<close>

section \<open>Tests of a file system object\<close>

text \<open>
  A test makes calls and asserts something of what each returns, with \<open>errno\<close> after it, and of
  the number of blocks the manager holds, also relative to an earlier number. It ends at the first assertion
  that fails, or passes; undefined behaviour in a call is not passed.
\<close>

type_synonym assertion = "unit fuse_reply \<Rightarrow> int \<Rightarrow> bool"

datatype test_step =
    Assert_Call "unit fuse_call" assertion
  | Assert_Num_Blocks nat
  | Note_Num_Blocks
  | Assert_Same_Num_Blocks

fun run_steps :: "nat \<Rightarrow> os_env \<Rightarrow> test_step list \<Rightarrow> nat \<Rightarrow> mem_fuse \<Rightarrow> bool result" where
  "run_steps fuel env [] pre_num_blocks f = Inr True"
| "run_steps fuel env (Assert_Call c holds # steps) pre_num_blocks f =
     bind_result (wrapper_call (Some (BlockFuse_object fuel mem_bm mem_vm env)) c f) (\<lambda>(r, f').
       if holds r (errno f') then run_steps fuel env steps pre_num_blocks f' else Inr False)"
| "run_steps fuel env (Assert_Num_Blocks n # steps) pre_num_blocks f =
     (if mem_num_blocks (store f) = n then run_steps fuel env steps pre_num_blocks f else Inr False)"
| "run_steps fuel env (Note_Num_Blocks # steps) pre_num_blocks f =
     run_steps fuel env steps (mem_num_blocks (store f)) f"
| "run_steps fuel env (Assert_Same_Num_Blocks # steps) pre_num_blocks f =
     (if mem_num_blocks (store f) = pre_num_blocks then run_steps fuel env steps pre_num_blocks f else Inr False)"

definition run_test :: "nat \<Rightarrow> os_env \<Rightarrow> test_step list \<Rightarrow> bool result" where
  "run_test fuel env steps = bind_result (in_memory_fs env) (run_steps fuel env steps 0)"

text \<open>The assertions of the tests.\<close>

fun return_code :: "'b fuse_reply \<Rightarrow> int" where
  "return_code (Code r) = r"
| "return_code (Stat_Reply r stbuf) = r"
| "return_code (Dir_Reply r buf) = r"
| "return_code (Data_Reply r data) = r"

definition returns :: "int \<Rightarrow> assertion" where
  "returns n r e \<longleftrightarrow> return_code r = n"

definition verify_path_dne :: assertion where
  "verify_path_dne r e \<longleftrightarrow> return_code r = - ENOENT \<and> e = ENOENT"

definition reads :: "string \<Rightarrow> assertion" where
  "reads expected r e \<longleftrightarrow>
     (case r of Data_Reply n buffer \<Rightarrow> n = int (length expected) \<and> take (length expected) buffer = expected
      | _ \<Rightarrow> False)"

section \<open>Tests of the abstract file system\<close>

fun spec_steps :: "os_env \<Rightarrow> test_step list \<Rightarrow> nat \<Rightarrow> fs \<Rightarrow> bool result" where
  "spec_steps env [] pre a = Inr True"
| "spec_steps env (Assert_Call c holds # steps) pre a =
     bind_result (spec_call env c a) (\<lambda>(r, a').
       if holds r (fs_errno a') then spec_steps env steps pre a' else Inr False)"
| "spec_steps env (Assert_Num_Blocks n # steps) pre a =
     (if fsize (fs_tree a) = n then spec_steps env steps pre a else Inr False)"
| "spec_steps env (Note_Num_Blocks # steps) pre a = spec_steps env steps (fsize (fs_tree a)) a"
| "spec_steps env (Assert_Same_Num_Blocks # steps) pre a =
     (if fsize (fs_tree a) = pre then spec_steps env steps pre a else Inr False)"

fun steps_ok :: "os_env \<Rightarrow> nat \<Rightarrow> nat \<Rightarrow> test_step list \<Rightarrow> fs \<Rightarrow> bool" where
  "steps_ok env fuel ids [] a \<longleftrightarrow> True"
| "steps_ok env fuel ids (Assert_Call c holds # steps) a \<longleftrightarrow>
     call_ok c \<and> fheight (fs_tree a) < fuel \<and> call_cost env c a \<le> ids \<and>
     (case spec_call env c a of
        Inl e \<Rightarrow> True
      | Inr (r, a') \<Rightarrow> steps_ok env fuel (ids - call_cost env c a) steps a')"
| "steps_ok env fuel ids (_ # steps) a \<longleftrightarrow> steps_ok env fuel ids steps a"

lemma steps_refine:
  "fuse_ok a f \<Longrightarrow> steps_ok env fuel ids steps a \<Longrightarrow> ids \<le> ids_left f \<Longrightarrow>
     run_steps fuel env steps pre f = spec_steps env steps pre a"
proof (induction steps arbitrary: pre a f ids)
  case (Cons st steps)
  show ?case
  proof (cases st)
    case (Assert_Call c holds)
    let ?n = "call_cost env c a"
    have "run_ok env fuel ?n [c] a" "?n \<le> ids_left f"
      using Cons.prems Assert_Call by (auto split: sum.splits)
    note run = fuse_run [OF Cons.prems(1) this]
    show ?thesis
    proof (cases "spec_call env c a")
      case (Inl e)
      with run Assert_Call show ?thesis by (auto simp: bind_result_eq_Inl)
    next
      case (Inr p)
      obtain r a1 where p: "p = (r, a1)" by (cases p)
      from run Inr p obtain f1 where
        f1: "wrapper_call (Some (BlockFuse_object fuel mem_bm mem_vm env)) c f = Inr (r, f1)"
        "fuse_ok a1 f1" "ids_left f - ?n \<le> ids_left f1" by (auto simp: bind_result_eq_Inr)
      have left: "ids - ?n \<le> ids_left f1" using f1(3) Cons.prems(3) by linarith
      from Cons.IH [OF f1(2) _ left, of pre] Cons.prems(2) Assert_Call f1 Inr p show ?thesis
        by (simp add: fuse_ok_errno)
    qed
  qed (use Cons num_blocks_fsize [OF Cons.prems(1)] in simp_all)
qed simp

definition passes :: "nat \<Rightarrow> nat \<Rightarrow> os_env \<Rightarrow> test_step list \<Rightarrow> bool" where
  "passes fuel ids env steps \<longleftrightarrow>
     steps_ok env fuel ids steps (spec_init env 55) \<and> spec_steps env steps 0 (spec_init env 55) = Inr True"

text \<open>What passes on the abstract file system passes on the program.\<close>

lemma test_passes:
  assumes "passes fuel ids env steps" and "ids \<le> 2 ^ 64 - 2"
  shows "run_test fuel env steps = Inr True"
proof -
  obtain f where f: "in_memory_fs env = Inr f" "fuse_ok (spec_init env 55) f" "ids_left f = 2 ^ 64 - 2"
    using in_memory_start by blast
  with steps_refine [OF f(2), of env fuel ids steps 0] assms show ?thesis by (simp add: passes_def run_test_def)
qed

unbundle bit_operations_syntax

section \<open>\<open>block_fuse_test.hpp\<close>\<close>

definition S_IRWXU :: mode_t where "S_IRWXU = 0x1C0"

definition gen_test_mode :: mode where
  "gen_test_mode = \<lparr>user_mode = READ_WRITE_EXECUTE, group_mode = READ_WRITE_EXECUTE,
     other_mode = READ_WRITE_EXECUTE, file_type_of = DIR\<rparr>"

definition assert_getattr :: "string \<Rightarrow> assertion \<Rightarrow> test_step" where
  "assert_getattr path holds = Assert_Call (Getattr path local_stbuf) holds"

definition assert_mkdir :: "string \<Rightarrow> assertion \<Rightarrow> test_step" where
  "assert_mkdir path holds = Assert_Call (Mkdir path (to_mode_t gen_test_mode)) holds"

definition verify_mkdir_fails :: "string \<Rightarrow> test_step list" where
  "verify_mkdir_fails dir_to_make = [assert_mkdir dir_to_make (\<lambda>r e. return_code r \<noteq> 0)]"

definition verify_read :: "string \<Rightarrow> u64 \<Rightarrow> string \<Rightarrow> test_step list" where
  "verify_read filename offset expected =
     [Assert_Call (Read filename (word_of_nat (length expected)) offset) (reads expected)]"

definition assert_write :: "string \<Rightarrow> string \<Rightarrow> u64 \<Rightarrow> test_step" where
  "assert_write filename data offset =
     Assert_Call (Write filename data (word_of_nat (length data)) offset) (returns (int (length data)))"

definition test_write_read :: "string \<Rightarrow> string \<Rightarrow> test_step list" where
  "test_write_read filename data_to_write =
     [assert_write filename data_to_write 0, assert_getattr filename (returns 0)] @
     verify_read filename 0 data_to_write"

definition create_file :: "string \<Rightarrow> test_step list" where
  "create_file filename = [Assert_Call (Create filename (to_mode_t \<lparr>user_mode = READ_WRITE,
     group_mode = READ_WRITE, other_mode = READ_WRITE, file_type_of = REGULAR\<rparr>)) (returns 0)]"

definition test_create_write_read :: "string list \<Rightarrow> test_step list" where
  "test_create_write_read to_write_vec =
     create_file ''/a.txt'' @ concat (map (test_write_read ''/a.txt'') to_write_vec)"

definition verify_create_write_read_to_file :: "string \<Rightarrow> string \<Rightarrow> test_step list" where
  "verify_create_write_read_to_file filename content =
     create_file filename @ [assert_write filename content 0] @ verify_read filename 0 content"

definition mod_bytes :: "nat \<Rightarrow> string" where
  "mod_bytes n = map (\<lambda>i. char_of (i mod 128)) [0..<n]"

text \<open>Whoever runs the tests, and whenever; \<open>ceil_log\<close> is right for the numbers that occur.\<close>

definition test_env :: "time_t \<Rightarrow> u32 \<Rightarrow> u32 \<Rightarrow> os_env" where
  "test_env now u g = \<lparr>cur_time = now, uid = u, gid = g, ceil_log = ceil_log example_env\<rparr>"

definition BlockFuse_GetAttrRoot :: "test_step list" where
  "BlockFuse_GetAttrRoot =
     [Assert_Call (Getattr ''/'' local_stbuf) (\<lambda>r e. case r of
     Stat_Reply n stat \<Rightarrow> n = 0 \<and> st_dev stat = 55 \<and>
     st_mode stat = (S_IFDIR OR S_IRWXU OR S_IRGRP OR S_IXGRP OR S_IXOTH) | _ \<Rightarrow> False)]"

definition BlockFuse_GetAttrDne :: "test_step list" where
  "BlockFuse_GetAttrDne =
     [assert_getattr ''/a'' verify_path_dne]"

definition BlockFuse_MkdirFailsPathDoesNotExist :: "test_step list" where
  "BlockFuse_MkdirFailsPathDoesNotExist =
     verify_mkdir_fails ''/test/dne''"

definition BlockFuse_MkdirFailsPathAlreadyExists :: "test_step list" where
  "BlockFuse_MkdirFailsPathAlreadyExists =
     verify_mkdir_fails ''/''"

definition BlockFuse_MkdirSucceeds :: "test_step list" where
  "BlockFuse_MkdirSucceeds =
     [Assert_Num_Blocks 1, assert_mkdir ''/test'' (returns 0), assert_getattr ''/test'' (returns 0),
     Assert_Num_Blocks 2]"

definition BlockFuse_MkdirNestedSucceeds :: "test_step list" where
  "BlockFuse_MkdirNestedSucceeds =
     [assert_mkdir ''/a'' (returns 0), assert_getattr ''/a'' (returns 0), Assert_Num_Blocks 2,
     assert_mkdir ''/a/b'' (returns 0), assert_getattr ''/a/b'' (returns 0), Assert_Num_Blocks 3,
     assert_mkdir ''/a/b/c'' (returns 0), assert_getattr ''/a/b/c'' (returns 0), Assert_Num_Blocks 4]"

definition BlockFuse_MkdirRmDirIncludingChildren :: "test_step list" where
  "BlockFuse_MkdirRmDirIncludingChildren =
     [assert_mkdir ''/a'' (returns 0), assert_mkdir ''/a/b'' (returns 0), assert_mkdir ''/a/b/c'' (returns 0),
     assert_mkdir ''/a/b/c/d'' (returns 0), Assert_Num_Blocks 5,
     Assert_Call (Rmdir ''/a/b'') (returns 0), Assert_Num_Blocks 2,
     assert_getattr ''/a/b/c/d'' verify_path_dne, assert_getattr ''/a/b/c'' verify_path_dne,
     assert_getattr ''/a/b'' verify_path_dne, assert_getattr ''/a'' (returns 0)]"

definition BlockFuse_RmChildDir :: "test_step list" where
  "BlockFuse_RmChildDir =
     [assert_mkdir ''/a'' (returns 0), assert_mkdir ''/a/b'' (returns 0), Assert_Num_Blocks 3,
     Assert_Call (Rmdir ''/a/b'') (returns 0), assert_getattr ''/a/b'' verify_path_dne,
     assert_getattr ''/a'' (returns 0), Assert_Num_Blocks 2]"

definition BlockFuse_FailRmRoot :: "test_step list" where
  "BlockFuse_FailRmRoot =
     [Assert_Call (Rmdir ''/'') (\<lambda>r e. return_code r \<noteq> 0)]"

definition BlockFuse_FailRmNonExistent :: "test_step list" where
  "BlockFuse_FailRmNonExistent =
     [Assert_Call (Rmdir ''/a/b'') (\<lambda>r e. return_code r \<noteq> 0)]"

definition BlockFuse_ReadPathDoesNotExist :: "test_step list" where
  "BlockFuse_ReadPathDoesNotExist =
     [Assert_Call (Read ''/a'' 0 0) verify_path_dne]"

definition BlockFuse_ReadDirFails :: "test_step list" where
  "BlockFuse_ReadDirFails =
     [Assert_Call (Read ''/'' 0 0) (\<lambda>r e. return_code r < 0)]"

definition BlockFuse_WriteFailsDne :: "test_step list" where
  "BlockFuse_WriteFailsDne =
     [Assert_Call (Write ''/a/b/c/d.txt'' ''nothing'' 0 0) verify_path_dne]"

definition BlockFuse_UnlinkFile :: "test_step list" where
  "BlockFuse_UnlinkFile =
     [Note_Num_Blocks] @ create_file ''/a'' @
     [Assert_Call (Unlink ''/a'') (returns 0), assert_getattr ''/a'' verify_path_dne, Assert_Same_Num_Blocks]"

definition BlockFuse_UnlinkLargeFile :: "test_step list" where
  "BlockFuse_UnlinkLargeFile =
     [Note_Num_Blocks] @ create_file ''/a'' @
     [assert_write ''/a'' (mod_bytes 10000) 0, Assert_Call (Unlink ''/a'') (returns 0),
     assert_getattr ''/a'' verify_path_dne, Assert_Same_Num_Blocks]"

definition BlockFuse_WriteReadSucceeds :: "test_step list" where
  "BlockFuse_WriteReadSucceeds =
     test_create_write_read [''test'']"

definition BlockFuse_WriteEmptySucceeds :: "test_step list" where
  "BlockFuse_WriteEmptySucceeds =
     test_create_write_read ['''']"

definition BlockFuse_MultipleWrites :: "test_step list" where
  "BlockFuse_MultipleWrites =
     test_create_write_read [''a'', ''b'', ''c'', '''']"

definition BlockFuse_WriteOffsetMiddle :: "test_step list" where
  "BlockFuse_WriteOffsetMiddle =
     verify_create_write_read_to_file ''/a.txt'' ''abcdefgh'' @
     [assert_write ''/a.txt'' ''xy'' 1] @ verify_read ''/a.txt'' 0 ''axydefgh''"

definition BlockFuse_WriteOffsetEnd :: "test_step list" where
  "BlockFuse_WriteOffsetEnd =
     verify_create_write_read_to_file ''/a.txt'' ''abcdefgh'' @
     [assert_write ''/a.txt'' ''xy'' 7] @ verify_read ''/a.txt'' 0 ''abcdefgxy''"

definition BlockFuse_ReadPastEnd :: "test_step list" where
  "BlockFuse_ReadPastEnd =
     verify_create_write_read_to_file ''/a.txt'' ''abcdefgh'' @
     [Assert_Call (Read ''/a.txt'' 128 0) (reads ''abcdefgh'')]"

definition BlockFuse_ReadOffset :: "test_step list" where
  "BlockFuse_ReadOffset =
     verify_create_write_read_to_file ''/a.txt'' ''abcdefgh'' @
     [Assert_Call (Read ''/a.txt'' 2 3) (reads ''de'')]"

definition BlockFuse_CreateWriteReadLargeFile :: "string \<Rightarrow> test_step list" where
  "BlockFuse_CreateWriteReadLargeFile file_contents =
     verify_create_write_read_to_file ''/a.txt'' file_contents"

definition block_fuse_tests :: "string \<Rightarrow> (string \<times> test_step list) list" where
  "block_fuse_tests file_contents =
     [(''GetAttrRoot'', BlockFuse_GetAttrRoot),
      (''GetAttrDne'', BlockFuse_GetAttrDne),
      (''MkdirFailsPathDoesNotExist'', BlockFuse_MkdirFailsPathDoesNotExist),
      (''MkdirFailsPathAlreadyExists'', BlockFuse_MkdirFailsPathAlreadyExists),
      (''MkdirSucceeds'', BlockFuse_MkdirSucceeds),
      (''MkdirNestedSucceeds'', BlockFuse_MkdirNestedSucceeds),
      (''MkdirRmDirIncludingChildren'', BlockFuse_MkdirRmDirIncludingChildren),
      (''RmChildDir'', BlockFuse_RmChildDir),
      (''FailRmRoot'', BlockFuse_FailRmRoot),
      (''FailRmNonExistent'', BlockFuse_FailRmNonExistent),
      (''ReadPathDoesNotExist'', BlockFuse_ReadPathDoesNotExist),
      (''ReadDirFails'', BlockFuse_ReadDirFails),
      (''WriteFailsDne'', BlockFuse_WriteFailsDne),
      (''UnlinkFile'', BlockFuse_UnlinkFile),
      (''UnlinkLargeFile'', BlockFuse_UnlinkLargeFile),
      (''WriteReadSucceeds'', BlockFuse_WriteReadSucceeds),
      (''WriteEmptySucceeds'', BlockFuse_WriteEmptySucceeds),
      (''MultipleWrites'', BlockFuse_MultipleWrites),
      (''WriteOffsetMiddle'', BlockFuse_WriteOffsetMiddle),
      (''WriteOffsetEnd'', BlockFuse_WriteOffsetEnd),
      (''ReadPastEnd'', BlockFuse_ReadPastEnd),
      (''ReadOffset'', BlockFuse_ReadOffset),
      (''CreateWriteReadLargeFile'', BlockFuse_CreateWriteReadLargeFile file_contents)]"

text \<open>The file system with one file in its root directory, of any contents.\<close>

definition one_file :: "os_env \<Rightarrow> dev_t \<Rightarrow> ftree \<Rightarrow> fs" where
  "one_file env d t = (spec_init env d)\<lparr>fs_tree := FNode (fkind (fs_tree (spec_init env d))) [t]\<rparr>"

lemma int_of_length: "length c < 2 ^ 31 \<Longrightarrow> int_of_size (word_of_nat (length c)) = int (length c)"
  by (simp add: int_of_size_def sint_uint unsigned_ucast_eq unsigned_of_nat take_bit_nat_eq_self signed_take_bit_int_eq_self)

lemma unat_length: "length c < 2 ^ 31 \<Longrightarrow> unat (word_of_nat (length c) :: u64) = length c"
  by (simp add: unsigned_of_nat take_bit_nat_eq_self)

text \<open>The first leaf of a file holds all of it, so that no read of its length sees the others.\<close>

lemma stored_prefix: "length c \<le> length (stored_contents c) \<and> take (length c) (stored_contents c) = c"
proof (cases "c = []")
  case False
  then have "0 < num_leaves_of (length c) BYTES_PER_BLOCK"
    by (cases "length c div 1000") (auto simp: num_leaves_of_def Let_def BYTES_PER_BLOCK_def)
  then obtain m where "num_leaves_of (length c) BYTES_PER_BLOCK = Suc m"
    by (cases "num_leaves_of (length c) BYTES_PER_BLOCK") auto
  moreover have "[0..<Suc m] = 0 # [1..<Suc m]" by (simp add: upt_conv_Cons del: upt_Suc)
  ultimately show ?thesis using False by (simp add: stored_contents_def leaf_strings_def del: upt_Suc)
qed (simp add: stored_contents_def)

lemma written_file_name: "kind_named nm (fkind t) \<Longrightarrow> kind_named nm (fkind (written_file env c t))"
  by (auto simp: written_file_def split: kind.splits)

lemma one_file_calls:
  assumes "fs_parts path = [nm]"
  shows "spec_call env (Create path (to_mode_t md)) (spec_init env d) =
      Inr (Code 0, one_file env d (FNode (KDir nm (new_stat env md 0)) []))"
    and "kind_named nm (fkind t) \<Longrightarrow> spec_call env (Unlink path) (one_file env d t) = Inr (Code 0, spec_init env d)"
    and "kind_named nm (fkind t) \<Longrightarrow> is_file t \<Longrightarrow> length c < 2 ^ 31 \<Longrightarrow> fkids t = [] \<Longrightarrow>
      spec_call env (Write path c (word_of_nat (length c)) 0) (one_file env d t) =
        Inr (Code (int (length c)), one_file env d (written_file env c t))"
    and "kind_named nm (fkind t) \<Longrightarrow> is_file t \<Longrightarrow> length c < 2 ^ 31 \<Longrightarrow>
      spec_call env (Read path (word_of_nat (length c)) 0) (one_file env d (written_file env c t)) =
        Inr (Data_Reply (int (length c)) c, one_file env d (written_file env c t))"
    and "spec_call env (Getattr path stbuf) (spec_init env d) =
        Inr (Stat_Reply (- ENOENT) stbuf, (spec_init env d)\<lparr>fs_errno := ENOENT\<rparr>)"
proof -
  show "spec_call env (Create path (to_mode_t md)) (spec_init env d) =
      Inr (Code 0, one_file env d (FNode (KDir nm (new_stat env md 0)) []))"
    using assms by (simp add: one_file_def spec_init_def spec_create_def ffind_def add_kid_def Let_def Mode_of_to_mode_t)
  show "kind_named nm (fkind t) \<Longrightarrow> spec_call env (Unlink path) (one_file env d t) = Inr (Code 0, spec_init env d)"
    using assms by (simp add: one_file_def spec_init_def spec_rmdir_def ffind_def remove_kid_def Let_def)
  show "kind_named nm (fkind t) \<Longrightarrow> is_file t \<Longrightarrow> length c < 2 ^ 31 \<Longrightarrow> fkids t = [] \<Longrightarrow>
      spec_call env (Write path c (word_of_nat (length c)) 0) (one_file env d t) =
        Inr (Code (int (length c)), one_file env d (written_file env c t))"
    using assms
    by (cases t; cases "fkind t") (auto simp: one_file_def spec_init_def spec_write_def ffind_def spliced_def
        int_of_length unat_length fcontents_def)
  show "spec_call env (Getattr path stbuf) (spec_init env d) =
        Inr (Stat_Reply (- ENOENT) stbuf, (spec_init env d)\<lparr>fs_errno := ENOENT\<rparr>)"
    using assms by (simp add: one_file_def spec_init_def spec_getattr_def ffind_def)
  assume t: "kind_named nm (fkind t)" "is_file t" and c: "length c < 2 ^ 31"
  show "spec_call env (Read path (word_of_nat (length c)) 0) (one_file env d (written_file env c t)) =
        Inr (Data_Reply (int (length c)) c, one_file env d (written_file env c t))"
    using assms t written_file_facts [OF t(2), of env c] c written_file_name [OF t(1)] stored_prefix [of c]
    by (simp add: one_file_def spec_init_def spec_read_def ffind_def read_range_def Let_def int_of_length unat_length)
qed

text \<open>Contents for which a file is within the fuel and the ids.\<close>

definition file_ok :: "os_env \<Rightarrow> nat \<Rightarrow> nat \<Rightarrow> string \<Rightarrow> bool" where
  "file_ok env fuel ids c \<longleftrightarrow> length c < 2 ^ 31 \<and> write_cost env c ''/x'' + 3 \<le> ids \<and>
     2 < fuel \<and> (\<forall>t \<in> set (file_forest (ceil_log env) BYTES_PER_BLOCK BRANCHING_FACTOR c). fheight t + 2 < fuel)"

text \<open>A file of 10000 bytes has ten leaves below two layers of links.\<close>

lemma large_ok:
  assumes "length c = 10000"
  shows "file_ok (test_env now u g) 9 100 c"
proof -
  have leaves: "num_leaves_of 10000 BYTES_PER_BLOCK = 10"
    by (simp add: num_leaves_of_def BYTES_PER_BLOCK_def)
  have depth: "ceil_log (test_env now u g) BRANCHING_FACTOR 10 = 2"
    by (simp add: test_env_def example_env_def BRANCHING_FACTOR_def)
  have "fheight t \<le> 1 + 2"
    if "t \<in> set (file_forest (ceil_log (test_env now u g)) BYTES_PER_BLOCK BRANCHING_FACTOR c)" for t
    using that assms
      flayers_height [of BRANCHING_FACTOR "map (\<lambda>c. FNode (KLeaf c) []) (leaf_strings c BYTES_PER_BLOCK)" 1 t 2]
    by (auto simp: file_forest_def leaves depth [unfolded BRANCHING_FACTOR_def] BRANCHING_FACTOR_def split: if_splits)
  then have "fheight t + 2 < 9"
    if "t \<in> set (file_forest (ceil_log (test_env now u g)) BYTES_PER_BLOCK BRANCHING_FACTOR c)" for t
    using that by fastforce
  moreover have "file_room (ceil_log (test_env now u g)) BYTES_PER_BLOCK BRANCHING_FACTOR c =
      10 + layer_count BRANCHING_FACTOR 2 10"
    using assms unfolding file_room_def by (auto simp: leaves depth Let_def)
  moreover have "layer_count BRANCHING_FACTOR 2 10 = 4"
    by code_simp
  moreover have "length (fs_parts ''/x'') = 1" by code_simp
  moreover have "length c < 2 ^ 31" unfolding assms by simp
  ultimately show ?thesis unfolding file_ok_def write_cost_def by simp
qed

lemma one_file_height:
  assumes "file_ok env fuel ids c" and "kind_named nm (fkind t)"
  shows "fheight (fs_tree (one_file env d (written_file env c t))) < fuel"
proof -
  obtain n st where k: "fkind t = KDir n st" using assms(2) by (cases "fkind t") auto
  define h where "h = fuel - 3"
  have h: "fuel = Suc (Suc (Suc h))" using assms(1) unfolding file_ok_def h_def by arith
  have "\<forall>u \<in> set (file_forest (ceil_log env) BYTES_PER_BLOCK BRANCHING_FACTOR c). fheight u \<le> h"
    using assms(1) by (fastforce simp: file_ok_def h)
  then have "fheight (written_file env c t) \<le> Suc h"
    by (simp add: written_file_def k fheight_le_iff del: fheight.simps)
  then have "fheight (FNode (fkind (fs_tree (spec_init env d))) [written_file env c t]) \<le> Suc (Suc h)"
    by (simp add: fheight_le_iff del: fheight.simps)
  then show ?thesis by (simp add: one_file_def h)
qed

lemma one_file_cost:
  assumes "fs_parts path = [nm]" "kind_named nm (fkind t)" "fkids t = []" "length c < 2 ^ 31"
  shows "call_cost env (Write path c (word_of_nat (length c)) 0 :: unit fuse_call) (one_file env d t) =
    write_cost env c path"
  using assms by (cases t) (auto simp: one_file_def ffind_def spliced_def unat_length fcontents_def)

lemma contents_tests:
  assumes path: "fs_parts path = [nm]" "fuse_path path" and c: "file_ok env fuel ids c"
  shows "passes fuel ids env (verify_create_write_read_to_file path c)"
    and "passes fuel ids env (Note_Num_Blocks # create_file path @
        [assert_write path c 0, Assert_Call (Unlink path) (returns 0),
         assert_getattr path verify_path_dne, Assert_Same_Num_Blocks])"
proof -
  let ?md = "\<lparr>user_mode = READ_WRITE, group_mode = READ_WRITE, other_mode = READ_WRITE, file_type_of = REGULAR\<rparr>"
  let ?t = "FNode (KDir nm (new_stat env ?md 0)) []"
  have t: "kind_named nm (fkind ?t)" "is_file ?t" "length c < 2 ^ 31" "fkids ?t = []"
    using c by (simp_all add: is_file_def node_stat_def stat_is_dir_def new_stat_def file_ok_def)
  have cost: "write_cost env c path + 3 \<le> ids" "2 < fuel"
    using c path by (simp_all add: file_ok_def write_cost_def fs_parts_def [of "''/x''"])
  have room: "length (fs_parts path) + 1 \<le> ids" "length (fs_parts path) \<le> ids"
    using cost by (simp_all add: write_cost_def)
  note calls = one_file_calls [OF path(1)]
  note fits = one_file_height [OF c t(1), of 55]
  have small: "fheight (fs_tree (spec_init env 55)) < fuel" "fheight (fs_tree (one_file env 55 ?t)) < fuel"
    using cost(2) by (simp_all add: spec_init_def one_file_def)
  show "passes fuel ids env (verify_create_write_read_to_file path c)"
    using small fits cost room path t
    by (simp add: passes_def verify_create_write_read_to_file_def create_file_def assert_write_def verify_read_def
      calls(1) calls(3) [OF t] calls(4) [OF t(1-3)] returns_def reads_def unat_length
      one_file_cost [OF path(1) t(1,4,3)] del: spec_call.simps call_cost.simps(5))
  have "kind_named nm (fkind (written_file env c ?t))" by (rule written_file_name [OF t(1)])
  note unlink = calls(2) [OF this, of env 55]
  show "passes fuel ids env (Note_Num_Blocks # create_file path @
        [assert_write path c 0, Assert_Call (Unlink path) (returns 0),
         assert_getattr path verify_path_dne, Assert_Same_Num_Blocks])"
    using small fits cost room path t
    by (simp add: passes_def create_file_def assert_write_def assert_getattr_def
      calls(1) calls(3) [OF t] unlink calls(5) returns_def verify_path_dne_def unat_length
      one_file_cost [OF path(1) t(1,4,3)] del: spec_call.simps call_cost.simps(5); arith)
qed

lemma block_fuse_tests_pass:
  assumes "length c = 10000"
  shows "list_all (\<lambda>(name, steps). passes 9 100 (test_env now u g) steps) (block_fuse_tests c)"
proof -
  have paths: "fs_parts ''/a'' = [''a'']" "fuse_path ''/a''" "fs_parts ''/a.txt'' = [''a.txt'']" "fuse_path ''/a.txt''"
    by code_simp+
  have "length (mod_bytes 10000) = 10000" by (simp add: mod_bytes_def)
  note unlink = contents_tests(2) [OF paths(1,2) large_ok [OF this]]
  note write_read = contents_tests(1) [OF paths(3,4) large_ok [OF assms]]
  show ?thesis
    unfolding block_fuse_tests_def BlockFuse_UnlinkLargeFile_def BlockFuse_CreateWriteReadLargeFile_def
      list.pred_inject prod.case append.simps
    by (intro conjI TrueI; (rule unlink write_read)?; code_simp)
qed

end
