(* ===== verification/Tests.thy ===== *)
theory Tests
  imports FuseTests PingService
begin

text \<open>
  The unit tests of the repository, \<open>src/test\<close>, run on the model: each suite is the list of its tests
  with their outcomes. They check the model against what its authors expect of the code, and say how much
  the tests see of it. Not among them is \<open>RateQueue.TimedRun\<close>, which measures real time.
\<close>

section \<open>Outcomes\<close>

text \<open>
  A test passes with \<open>Inr True\<close>; a failed assertion is \<open>Inr False\<close>, and a test that throws, waits for
  ever or has undefined behaviour has not passed either.
\<close>

definition test_of :: "'a result \<Rightarrow> ('a \<Rightarrow> bool) \<Rightarrow> bool result" where
  "test_of r holds = bind_result r (\<lambda>x. Inr (holds x))"

section \<open>\<open>lib/block/block_data\<close>\<close>

definition read_write_execute_tests :: "(string \<times> bool result) list" where
  "read_write_execute_tests = [(''ReadWriteExecute.SerializeDesrialize'', Inr (list_all
     (\<lambda>e. rwe_from_proto (rwe_gen_proto e) = Inr e)
     [READ, READ_WRITE, READ_WRITE_EXECUTE, WRITE, WRITE_EXECUTE, EXECUTE]))]"

definition file_type_tests :: "(string \<times> bool result) list" where
  "file_type_tests = [(''FileType.SerializeDesrialize'', Inr (list_all
     (\<lambda>e. file_type_from_proto (file_type_gen_proto e) = Inr e) [DIR, REGULAR]))]"

definition test_convert_mode_t :: "mode_t \<Rightarrow> bool result" where
  "test_convert_mode_t m = test_of (Mode_of_mode_t m) (\<lambda>md. to_mode_t md = m)"

unbundle bit_operations_syntax

definition mode_tests :: "(string \<times> bool result) list" where
  "mode_tests =
     (let m = \<lparr>user_mode = READ_WRITE_EXECUTE, group_mode = READ_EXECUTE, other_mode = READ, file_type_of = DIR\<rparr> in
      [(''Mode.SerializeDesrialize'', test_of (Mode_of_proto (mode_gen_proto m)) (\<lambda>md. mode_eq md m)),
       (''Mode.ModeT'', bind_result (test_convert_mode_t
            (S_IRUSR OR S_IWUSR OR S_IXUSR OR S_IWGRP OR S_IROTH OR S_IFDIR)) (\<lambda>first.
          bind_result (test_convert_mode_t (S_IWUSR OR S_IRGRP OR S_IROTH OR S_IXOTH OR S_IFREG)) (\<lambda>second.
          Inr (first \<and> second))))])"

definition stat_tests :: "(string \<times> bool result) list" where
  "stat_tests =
     (let stat = \<lparr>stat_mode = \<lparr>user_mode = READ_WRITE_EXECUTE, group_mode = READ_EXECUTE, other_mode = READ,
              file_type_of = REGULAR\<rparr>,
            stat_uid = 33, stat_gid = 55, stat_size = 100, access_time = 1011, mod_time = 1023,
            status_change_time = 355\<rparr>
      in [(''Stat.SerializeDesrialize'', test_of (Stat_of_proto (stat_gen_proto stat)) (\<lambda>s. stat_eq s stat))])"

definition get_test_stat :: stat_data where
  "get_test_stat = \<lparr>stat_mode = \<lparr>user_mode = READ, group_mode = NONE, other_mode = EXECUTE, file_type_of = DIR\<rparr>,
     stat_uid = 0, stat_gid = 0, stat_size = 100, access_time = 52, mod_time = 55, status_change_time = 56\<rparr>"

definition dir_file_block_data_tests :: "(string \<times> bool result) list" where
  "dir_file_block_data_tests =
     (let original = \<lparr>df_name = ''name'', df_stat = get_test_stat, df_children = [55]\<rparr>;
          diff = dir_file_with_children original [56];
          same = (\<lambda>a b. block_data_eq (DirFileBlockData a) (DirFileBlockData b));
          stat = \<lparr>stat_mode = \<lparr>user_mode = READ, group_mode = NONE, other_mode = EXECUTE, file_type_of = REGULAR\<rparr>,
            stat_uid = 0, stat_gid = 0, stat_size = 100, access_time = 52, mod_time = 55, status_change_time = 56\<rparr>
      in [(''DirFileBlockData.Construct'', Inr (df_name original = ''name'' \<and>
              stat_eq (df_stat original) get_test_stat \<and> df_children original = [55])),
          (''DirFileBlockData.SerializeDesrialize'',
             test_of (DirFile_of_proto (dir_file_gen_proto original)) (\<lambda>d. same d original)),
          (''DirFileBlockData.SwapChildren'', Inr (\<not> same diff original \<and> df_name diff = df_name original \<and>
              stat_eq (df_stat diff) (df_stat original) \<and> df_children original = [55] \<and> df_children diff = [56])),
          (''DirFileBlockData.IsDir'', Inr (df_is_dir original = True)),
          (''DirFileBlockData.IsNotDir'',
             Inr (df_is_dir \<lparr>df_name = ''name'', df_stat = stat, df_children = [55]\<rparr> = False))])"

definition link_block_data_tests :: "(string \<times> bool result) list" where
  "link_block_data_tests = [(''LinkBlockData.SerializeDesrialize'',
     Inr (block_data_eq (LinkBlockData (Link_of_proto (link_gen_proto [3, 4, 88]))) (LinkBlockData [3, 4, 88])))]"

definition file_contents_block_data_tests :: "(string \<times> bool result) list" where
  "file_contents_block_data_tests = [(''FileContentsBlockData.SerializeDesrialize'',
     Inr (block_data_eq (FileContentsBlockData (FileContents_of_proto (file_contents_gen_proto ''some data'')))
       (FileContentsBlockData ''some data'')))]"

definition deserializes :: "block_data \<Rightarrow> bool result" where
  "deserializes data = test_of (BlockDataFactory_generate (gen_block_data_proto data)) (\<lambda>d. block_data_eq d data)"

definition block_data_factory_tests :: "(string \<times> bool result) list" where
  "block_data_factory_tests =
     [(''BlockDataFactory.DeserializeDirFile'', deserializes (DirFileBlockData
         \<lparr>df_name = ''name'', df_stat = \<lparr>stat_mode = \<lparr>user_mode = READ, group_mode = NONE, other_mode = EXECUTE,
            file_type_of = DIR\<rparr>, stat_uid = 0, stat_gid = 0, stat_size = 100, access_time = 52, mod_time = 55,
            status_change_time = 56\<rparr>, df_children = [52]\<rparr>)),
      (''BlockDataFactory.DeserializeLink'', deserializes (LinkBlockData [3, 4, 5])),
      (''BlockDataFactory.DeserializeFileContents'', deserializes (FileContentsBlockData ''Example data''))]"

section \<open>\<open>lib/block\<close>\<close>

definition test_dir_data :: "string \<Rightarrow> block_data" where
  "test_dir_data name = DirFileBlockData \<lparr>df_name = name, df_stat = get_test_stat, df_children = []\<rparr>"

definition block_tests :: "(string \<times> bool result) list" where
  "block_tests =
     [(''Block.EqualityOverride'',
         Inr (block_eq (mk_block 1 (test_dir_data ''name'')) (mk_block 1 (test_dir_data ''name'')))),
      (''Block.InequalityOverrideSameBlockId'',
         Inr (\<not> block_eq (mk_block 1 (test_dir_data ''a'')) (mk_block 1 (test_dir_data ''b'')))),
      (''Block.InequalityOverrideSameData'',
         Inr (\<not> block_eq (mk_block 1 (test_dir_data ''data'')) (mk_block 2 (test_dir_data ''data'')))),
      (''Block.SerializeDeserializeBlock'',
         let block = mk_block 1 (test_dir_data ''data'')
         in test_of (Block_of_proto (block_gen_proto block)) (\<lambda>b. block_eq block b))]"

definition test_data :: block_data where
  "test_data = FileContentsBlockData ''testing''"

abbreviation test_manager :: "counter memory_manager" where
  "test_manager \<equiv> mem_init counter_init"

definition memory_block_manager_tests :: "(string \<times> bool result) list" where
  "memory_block_manager_tests =
     [(''MemoryBlockManager.CreateBlock'',
         test_of (mem_create_block CounterSupplier test_data test_manager) (\<lambda>(b, m). block_data_eq test_data (get_data b))),
      (''MemoryBlockManager.NumBlocksEmpty'', Inr (mem_num_blocks test_manager = 0)),
      (''MemoryBlockManager.NumBlocksNonEmpty'',
         bind_result (mem_create_block CounterSupplier test_data test_manager) (\<lambda>(b, m).
         if mem_num_blocks m \<noteq> 1 then Inr False
         else test_of (mem_create_block CounterSupplier test_data m) (\<lambda>(b', m'). mem_num_blocks m' = 2))),
      (''MemoryBlockManager.NumBlocksAfterDelete'',
         test_of (mem_create_block CounterSupplier test_data test_manager) (\<lambda>(b, m).
           mem_num_blocks m = 1 \<and> mem_num_blocks (mem_free_block CounterSupplier (get_id b) m) = 0)),
      (''MemoryBlockManager.RetrieveBlock'',
         bind_result (mem_create_block CounterSupplier test_data test_manager) (\<lambda>(b, m).
         bind_result (mem_get_blocks [get_id b] m) (\<lambda>(retrieved_blocks, m').
         if length retrieved_blocks \<noteq> 1 then Inr False
         else test_of (deref (retrieved_blocks ! 0)) (\<lambda>r. block_eq r b))))]"

text \<open>The thread of the test sleeps for a second, so that its block comes by while the request waits.\<close>

definition async_block_manager_tests :: "(string \<times> bool result) list" where
  "async_block_manager_tests =
     (let data = FileContentsBlockData ''abc''; block = mk_block 0 data in
      [(''AsyncBlockManager.GetBlock'',
         bind_result (get_blocks_begin [get_id block] async_init) (\<lambda>(p, m).
         bind_result (async_process (mk_block (get_id block) data) m) (\<lambda>m'.
         case get_blocks_end p m' of
           None \<Rightarrow> Inl Waits_Forever
         | Some blocks \<Rightarrow> Inr (length blocks = 1 \<and> block_eq (blocks ! 0) block))))])"

definition async_response_tests :: "(string \<times> bool result) list" where
  "async_response_tests =
     (let block = mk_block 5 (FileContentsBlockData ''some data'');
          get = (\<lambda>r holds. case promise r of None \<Rightarrow> Inl Waits_Forever | Some blocks \<Rightarrow> Inr (holds blocks))
      in [(''AsyncResponse.TestEmpty'', bind_result (AsyncResponse_init []) (\<lambda>r. get r (\<lambda>blocks. blocks = []))),
          (''AsyncResponse.TestUpdate'',
             bind_result (AsyncResponse_init [5]) (\<lambda>r.
             bind_result (update block r) (\<lambda>r'.
             get r' (\<lambda>blocks. length blocks = 1 \<and> block_eq (blocks ! 0) block))))])"

definition pass_through_translator_tests ::
  "(block_proto \<Rightarrow> string) \<Rightarrow> (string \<Rightarrow> block_proto) \<Rightarrow> (string \<times> bool result) list" where
  "pass_through_translator_tests serialize parse =
     (let block = mk_block 1 (FileContentsBlockData ''some data'');
          tr = PassThroughTranslator serialize parse;
          request = to_request tr block 35 88
      in [(''PassThroughTranslator.FromponseToRequest'',
         if req_identifier request \<noteq> 35 \<or> req_sequence_number request \<noteq> 88 then Inr False
         else test_of (from_response tr (EchoResponse (req_identifier request) (req_sequence_number request)
                (req_body request))) (\<lambda>b. block_eq b block))])"

section \<open>\<open>lib/fs\<close> and \<open>lib/ping\<close>\<close>

definition fs_util_tests :: "(string \<times> bool result) list" where
  "fs_util_tests =
     [(''FsUtil.SeparatePathRootDir'', test_of (separate_path ''/'') (\<lambda>ps. ps = [''/''])),
      (''FsUtil.SeparatePathSingleFile'', test_of (separate_path ''/a.txt'') (\<lambda>ps. ps = [''/'', ''a.txt''])),
      (''FsUtil.SeparatePathNestedDirectories'',
         test_of (separate_path ''/a/b/cdef/g.txt'') (\<lambda>ps. ps = [''/'', ''a'', ''b'', ''cdef'', ''g.txt''])),
      (''FsUtil.Join'', test_of (join_paths [''/'', ''a'', ''bcd'']) (\<lambda>path. path = ''/a/bcd'')),
      (''FsUtil.JoinAndSeparate'',
         test_of (bind_result (separate_path ''/a/b/cdef/g.txt'') join_paths) (\<lambda>path. path = ''/a/b/cdef/g.txt''))]"

definition echo_request_tests :: "(string \<times> bool result) list" where
  "echo_request_tests = [(''EchoRequest.ResponseConstructor'',
     Inr (request_eq (EchoRequest_of_response (EchoResponse 55 93 ''some body'')) (EchoRequest 55 93 ''some body'')))]"

section \<open>\<open>test_main.cc\<close>\<close>

definition block_fuse_outcomes :: "nat \<Rightarrow> os_env \<Rightarrow> string \<Rightarrow> (string \<times> bool result) list" where
  "block_fuse_outcomes fuel env file_contents =
     map (\<lambda>(name, steps). (''BlockFuse.'' @ name, run_test fuel env steps)) (block_fuse_tests file_contents)"

definition passed :: "(string \<times> bool result) list \<Rightarrow> bool" where
  "passed tests \<longleftrightarrow> list_all (\<lambda>(name, outcome). outcome = Inr True) tests"

definition RUN_ALL_TESTS :: "(string \<times> bool result) list \<Rightarrow> int" where
  "RUN_ALL_TESTS tests = (if passed tests then 0 else 1)"

definition test_main ::
  "nat \<Rightarrow> os_env \<Rightarrow> (block_proto \<Rightarrow> string) \<Rightarrow> (string \<Rightarrow> block_proto) \<Rightarrow> string \<Rightarrow> int" where
  "test_main fuel env serialize parse file_contents = RUN_ALL_TESTS
     (block_tests @ memory_block_manager_tests @ block_data_factory_tests @ dir_file_block_data_tests @
      file_contents_block_data_tests @ link_block_data_tests @ read_write_execute_tests @ file_type_tests @
      mode_tests @ stat_tests @ async_response_tests @ async_block_manager_tests @
      pass_through_translator_tests serialize parse @ fs_util_tests @
      block_fuse_outcomes fuel env file_contents @ echo_request_tests)"

lemma passed_append: "passed (ss @ ts) \<longleftrightarrow> passed ss \<and> passed ts"
  by (simp add: passed_def)

lemma data_tests_pass:
  "passed (block_tests @ block_data_factory_tests @ dir_file_block_data_tests @ file_contents_block_data_tests @
     link_block_data_tests @ read_write_execute_tests @ file_type_tests @ mode_tests @ stat_tests @
     async_response_tests @ async_block_manager_tests @ fs_util_tests @ echo_request_tests)"
  by code_simp

lemma memory_tests_pass: "passed memory_block_manager_tests"
  by (simp add: passed_def memory_block_manager_tests_def test_of_def mem_create_block_def CounterSupplier_def
      counter_next_id_def counter_init_def mem_init_def mem_num_blocks_def mem_free_block_def counter_free_id_def
      mem_get_blocks_def map_index_def Let_def deref_def block_eq_def test_data_def)

lemma translator_tests_pass:
  assumes "\<forall>b. parse (serialize (block_gen_proto b)) = block_gen_proto b"
  shows "passed (pass_through_translator_tests serialize parse)"
  using assms
  by (simp add: passed_def pass_through_translator_tests_def PassThroughTranslator_def Let_def test_of_def
      EchoResponse_def EchoRequest_def block_proto_roundtrip block_eq_def)

lemma fuse_tests_pass:
  assumes "length file_contents = 10000"
  shows "passed (block_fuse_outcomes 9 (test_env now u g) file_contents)"
proof -
  have "run_test 9 (test_env now u g) steps = Inr True" if "passes 9 100 (test_env now u g) steps" for steps
    using that by (rule test_passes) simp
  with block_fuse_tests_pass [OF assms, of now u g] show ?thesis
    by (fastforce simp: passed_def block_fuse_outcomes_def list_all_iff)
qed

text \<open>
  C37. All tests of the repository, but the one that measures real time, pass on the model, whoever
  runs them and whenever, for any 10000 bytes that \<open>rand_r\<close> gives for the last file, and any protocol
  buffer library that parses what it has serialised.
\<close>

theorem all_tests_pass:
  assumes "\<forall>b. parse (serialize (block_gen_proto b)) = block_gen_proto b"
    and "length file_contents = 10000"
  shows "test_main 9 (test_env now u g) serialize parse file_contents = 0"
  using data_tests_pass memory_tests_pass translator_tests_pass [OF assms(1)] fuse_tests_pass [OF assms(2), of now u g]
  by (simp add: test_main_def RUN_ALL_TESTS_def passed_append)

theorem all_tests_pass_witness:
  "test_main 9 (test_env 7 1 2) example_serialize example_parse (replicate 10000 CHR ''x'') = 0"
  by (rule all_tests_pass) (simp_all add: example_codec)

end
