(* ===== verification/Spec2Isabelle.thy ===== *)
theory Spec2Isabelle
  imports Programs Arrival PingWire RateQueue Tests
begin

text \<open>
  pingfs: a file system whose blocks live in ping packets.

  The program. FUSE calls \<open>FuseWrapper\<close>, which forwards to one \<open>BlockFuse\<close> object. \<open>BlockFuse\<close>
  keeps a root block and makes every change by building new blocks from the changed node up to a new
  root and freeing the old ones. It works over the interface \<open>BlockManager\<close>. The managers are
  \<open>MemoryBlockManager\<close>, a hash map, and \<open>PingBlockManager\<close>, whose blocks are the bodies of echo
  requests: \<open>PingBlockService\<close> sends the content of every reply again, so that a block goes round
  until it is freed, and a request for blocks waits until their replies have come by. \<open>Ping\<close> cuts
  the received bytes into packets and publishes the echo replies. \<open>RevertibleBlockFuse\<close> keeps
  roots to go back to, \<open>DistributedBlockFuse\<close> sends its roots to other nodes in spoofed pings.

  What is modelled where (sources under \<open>src/lib\<close>, programs under \<open>src/app\<close>):

  \<^item> \<open>Prelude\<close>: widths of integers, \<open>error\<close> and \<open>result\<close>. An exception, a failed assertion,
    a null dereference, any other undefined behaviour, fuel that runs out and a wait without end are
    values, so that "it returns" is always part of what is proved.
  \<^item> \<open>Mode\<close>, \<open>BlockData\<close>: \<open>block/block_data\<close> and \<open>block.cc\<close>: modes, attributes, the three
    kinds of blocks, their equality and text, and the protocol buffers as records.
  \<^item> \<open>FsUtil\<close>: \<open>fs_util.cc\<close>, the splitting of paths. \<open>IdSupplier\<close>:
    \<open>block_manager/id_supplier\<close>, with the contract \<open>id_supply\<close> for both suppliers.
  \<^item> \<open>BlockManager\<close>: the interface, its contract \<open>block_store\<close>, and
    \<open>memory_block_manager.cc\<close>.
  \<^item> \<open>BlockUtil\<close>: \<open>block_util.cc\<close>; \<open>BlockFuse\<close>: \<open>block_fuse.cc\<close>, each operation with its
    early returns; virtual methods are a record of functions. \<open>FuseWrapper\<close>: \<open>fuse_wrapper.cc\<close>.
  \<^item> \<open>FsTree\<close>, \<open>FsSpec\<close>: the abstract file system, a tree of names, attributes and contents,
    and what each operation should do to it.
  \<^item> \<open>FsWalk\<close>, \<open>FsBuild\<close>, \<open>FsChain\<close>, \<open>FsRefine\<close>, \<open>FsCreate\<close>, \<open>FsWrite\<close>,
    \<open>FsRemove\<close>, \<open>FsRead\<close>: each operation of \<open>BlockFuse\<close> refines its specification, over any
    \<open>block_store\<close> and any virtual methods with the contract \<open>block_fuse_ops\<close>. Searching and freeing
    are shown for stores that answer in any order (\<open>loose_store\<close>, \<open>loose_manager\<close>); \<open>FsLoose\<close> says
    what reading gives over those, \<open>FsSlim\<close> which file systems are read as they were written.
  \<^item> \<open>FsMemory\<close>, \<open>FsUse\<close>: \<open>app/in_memory.cc\<close> and what its users see. \<open>FsFrame\<close>: what no
    operation breaks. \<open>Revertible\<close>: \<open>revertible_block_fuse.cc\<close>.
  \<^item> \<open>PingPacket\<close>: the bytes of packets (\<open>ping/echo_request.cc\<close>, \<open>ip_v4.cc\<close>,
    \<open>icmp_header.cc\<close>, \<open>spoof/spoofed_ip_v4.cc\<close>). \<open>Ping\<close>: \<open>ping.cc\<close> and
    \<open>data_buffer.cc\<close>; the tasks of the threads are an inductive step relation.
  \<^item> \<open>Async\<close>: \<open>async_response.cc\<close>, \<open>async_block_manager.cc\<close>. \<open>PingService\<close>:
    \<open>publisher.hpp\<close> and \<open>block_manager/ping\<close>. \<open>ExampleCodec\<close>: a serialisation for the
    examples. \<open>PingWire\<close>: blocks through the bytes of requests and replies and back.
  \<^item> \<open>StoreSim\<close>: two managers related by a simulation give \<open>BlockFuse\<close> and
    \<open>RevertibleBlockFuse\<close> the same answers. \<open>IdealStore\<close>: the store that managers are compared
    with, a map from ids to data; over it, and so over every manager it simulates, the programs are the
    abstract file system. \<open>AnyOrder\<close>: the same for managers that answer like it in any order, for
    calls that do not see the order.
  \<^item> \<open>PingStore\<close>: \<open>PingBlockManager\<close> over a network simulates the ideal store. \<open>Arrival\<close>: what
    the order of arrival does to a file of several blocks. \<open>PingFs\<close>:
    \<open>app/single_host_fs.cc\<close>. \<open>Distributed\<close>: \<open>ping_spoof.cc\<close>,
    \<open>distributed_freed_service.cc\<close>, \<open>distributed_block_fuse.cc\<close>,
    \<open>app/distributed_fs.cc\<close>. \<open>DuplicateFs\<close>: \<open>app/duplicate_ping_fs.cc\<close>.
  \<^item> \<open>CommandLine\<close>, \<open>Tools\<close>, \<open>Programs\<close>: the command lines and \<open>args_helper.hpp\<close>; the
    tools \<open>single_ping\<close>, \<open>multi_ping\<close> and \<open>spoofed_ping\<close>; and \<open>main\<close> of the programs that
    mount a file system, from the command line to the calls of FUSE.
  \<^item> \<open>RateQueue\<close>: \<open>rate_queue.cc\<close>, an inductive step relation. \<open>Log\<close>: \<open>log.hpp\<close>;
    \<open>FuseLog\<close>: the messages of the callbacks, the only ones there are.
  \<^item> \<open>FuseTests\<close>, \<open>Tests\<close>: the unit tests, \<open>src/test\<close>, run on the model. A test of
    \<open>BlockFuse\<close> is a sequence of calls with what is asserted of their replies.

  What is shown. Refinement: the programs over memory and over pings give every sequence of calls
  the replies of the abstract file system, errors included, and keep exactly one block for each node
  of the tree; the properties of the single operations say what each reply is. Safety of what runs
  concurrently: packets are reassembled and delivered once in every interleaving, no block under
  way is lost, requests are answered once, the rate queue keeps its order and its rate. Round trips
  of modes, blocks, paths and packets. Error behaviour where the code does not do what it means to:
  long files, duplicate names, checkpoints, malformed packets, roots that are never adopted,
  duplicates that are never taken out, arguments for FUSE that overrun their memory. The command line:
  \<open>main\<close> reads only what an accepted command line has set, and \<open>multi_ping\<close> ends. And the
  tests of the repository pass on the model, which says that it is the program its authors expect.

  Bounds. The recursions over block trees take fuel; more fuel than the height of the tree is enough
  (\<open>run_ok\<close>), and a property that assumes it proves that the call returns. \<open>run_ok\<close> also bounds
  the ids a run may take, by \<open>2 ^ 64 - 2\<close> for the counter and \<open>2 ^ 56 - 2\<close> for the updating
  supplier, since the first id goes to the root. \<open>ceil_log\<close>, the depth the C mathematics library
  computes for a file, is an argument without assumptions. \<open>internal_check_notify\<close> takes fuel for
  its rounds; the length of the buffer is enough unless a length field is 0.

  Assumptions, where they are used: parsing a protocol buffer undoes serialising it
  (\<open>ExampleCodec\<close> has one such pair); a remote host answers a ping with its identifier, sequence
  number and data; \<open>program_options\<close> does what its documentation says (\<open>documented\<close>); and for the
  file systems over pings a ping of each block of a request comes by while it waits, among any other
  traffic: later copies, freed blocks, blocks of other nodes (\<open>in_time\<close>). If they come in the order in
  which the blocks were asked for (\<open>in_order\<close>), that is all. In any other order the leaves of a file and
  the entries of a directory come in the order of arrival (\<open>Arrival\<close>), and the replies
  are those of the abstract file system for calls that write files of at most one block and list
  directories with fillers that commute (\<open>any_order_ok\<close>); for the revertible file system
  both hold as long as no checkpoint is removed.

  Not modelled: sockets and name resolution, and the wire format of protocol buffers, all input and
  output or library code; the test of the rate queue that measures real time; concurrent FUSE calls on one
  object, which the code itself leaves open; the order of unlocked accesses to \<open>stopped_\<close>, to the
  data buffer and to the counter of \<open>multi_ping\<close>; memory management of C++ objects, but for the
  arguments of FUSE and the cell of \<open>single_ping\<close>.
\<close>

end
